(* ===== verification/Prelude.thy ===== *)
theory Prelude
  imports Main "HOL-Library.Char_ord" "HOL-Library.List_Lexorder" "HOL-Library.AList"
    "HOL-Library.Monad_Syntax" "HOL-Library.Word" "HOL-Library.Sublist"
begin

text \<open>
  Shared vocabulary of the development: the fact collections, association lists kept in
  key order (the representation of a C++ \<open>std::map\<close>, hence of a JSON object),
  association lists in arrival order (a directory or a table), and lemmas on lists, blocks
  and little-endian byte runs that several components use.

  Conventions. A C++ \<open>std::string\<close> is a \<open>string\<close> whose characters are bytes. An
  operation that can end the process (\<open>std::abort\<close>, \<open>std::exit(1)\<close>, an exception that
  nothing catches) returns \<open>None\<close> there, so its type is an \<open>option\<close>.
\<close>

named_theorems json_simps \<open>selectors and updates of JSON values\<close>
named_theorems status_simps \<open>status values of the error paths\<close>
named_theorems io_simps \<open>file operations and what they leave alone\<close>
named_theorems sql_simps \<open>statements on the journal tables\<close>

type_synonym path = string
type_synonym bytes = "nat list"

subsection \<open>Association lists in key order\<close>

fun put :: "'k::linorder \<Rightarrow> 'v \<Rightarrow> ('k \<times> 'v) list \<Rightarrow> ('k \<times> 'v) list" where
  "put k v [] = [(k, v)]"
| "put k v ((k', v') # kvs) =
     (if k < k' then (k, v) # (k', v') # kvs
      else if k = k' then (k, v) # kvs
      else (k', v') # put k v kvs)"

fun drop_key :: "'k \<Rightarrow> ('k \<times> 'v) list \<Rightarrow> ('k \<times> 'v) list" where
  "drop_key k [] = []"
| "drop_key k ((k', v') # kvs) = (if k = k' then kvs else (k', v') # drop_key k kvs)"

definition keys_sorted :: "('k::linorder \<times> 'v) list \<Rightarrow> bool" where
  "keys_sorted kvs \<longleftrightarrow> sorted_wrt (<) (map fst kvs)"

lemma map_of_put [simp]: "map_of (put k v kvs) = (map_of kvs)(k \<mapsto> v)"
  by (induction kvs) (auto simp: fun_eq_iff)

lemma set_put_keys: "fst ` set (put k v kvs) = insert k (fst ` set kvs)"
proof (induction kvs)
  case (Cons a kvs)
  then show ?case by (cases a) (simp add: insert_commute)
qed simp

lemma keys_sorted_Nil [simp]: "keys_sorted []"
  by (simp add: keys_sorted_def)

lemma keys_sorted_put [simp]: "keys_sorted kvs \<Longrightarrow> keys_sorted (put k v kvs)"
proof (induction kvs)
  case (Cons a kvs)
  then show ?case
    by (cases a) (auto simp: keys_sorted_def, metis image_iff insert_iff not_less_iff_gr_or_eq
        set_put_keys fst_conv)
qed (simp add: keys_sorted_def)

lemma keys_sorted_distinct: "keys_sorted kvs \<Longrightarrow> distinct (map fst kvs)"
  by (simp add: keys_sorted_def strict_sorted_iff)

lemma map_of_drop_key: "distinct (map fst kvs) \<Longrightarrow> map_of (drop_key k kvs) = (map_of kvs)(k := None)"
proof (induction kvs)
  case (Cons a kvs)
  then show ?case
    by (cases a) (auto simp: fun_eq_iff map_of_eq_None_iff)
qed simp

lemma set_drop_key: "set (drop_key k kvs) \<subseteq> set kvs"
  by (induction kvs) (auto split: if_splits)

lemma keys_sorted_drop_key: "keys_sorted kvs \<Longrightarrow> keys_sorted (drop_key k kvs)"
proof (induction kvs)
  case (Cons a kvs)
  then show ?case
    using set_drop_key [of k kvs] by (cases a) (auto simp: keys_sorted_def)
qed simp

subsection \<open>Blocks of a list\<close>

text \<open>
  The reference meaning of a loop that walks a buffer in steps of a fixed block size.
\<close>

function blocks :: "nat \<Rightarrow> 'a list \<Rightarrow> 'a list list" where
  "blocks n xs = (if xs = [] \<or> n = 0 then [] else take n xs # blocks n (drop n xs))"
  by pat_completeness auto
termination
  by (relation "measure (\<lambda>(n, xs). length xs)") auto

declare blocks.simps [simp del]

lemma blocks_Nil [simp]: "blocks n [] = []"
  by (simp add: blocks.simps)

lemma concat_blocks: "0 < n \<Longrightarrow> concat (blocks n xs) = xs"
proof (induction n xs rule: blocks.induct)
  case (1 n xs)
  then show ?case
    by (cases "xs = []") (simp_all add: blocks.simps [of n xs])
qed

lemma blocks_bound: "b \<in> set (blocks n xs) \<Longrightarrow> b \<noteq> [] \<and> length b \<le> n"
proof (induction n xs rule: blocks.induct)
  case (1 n xs)
  then show ?case
    by (cases "xs = [] \<or> n = 0") (auto simp: blocks.simps [of n xs])
qed

subsection \<open>Decimal numerals\<close>

text \<open>\<open>std::to_string\<close>.\<close>

fun to_string :: "nat \<Rightarrow> string" where
  "to_string n = (if n < 10 then [char_of (48 + n)] else to_string (n div 10) @ [char_of (48 + n mod 10)])"

declare to_string.simps [simp del]

definition int_to_string :: "int \<Rightarrow> string" where
  "int_to_string i = (if i < 0 then CHR ''-'' # to_string (nat (- i)) else to_string (nat i))"

fun of_digits :: "nat \<Rightarrow> string \<Rightarrow> nat" where
  "of_digits acc [] = acc"
| "of_digits acc (c # cs) = of_digits (10 * acc + (of_char c - 48)) cs"

lemma of_digits_append: "of_digits acc (cs @ [c]) = 10 * of_digits acc cs + (of_char c - 48)"
  by (induction cs arbitrary: acc) auto

lemma of_digits_to_string: "of_digits 0 (to_string n) = n"
proof (induction n rule: to_string.induct)
  case (1 n)
  have digit: "m < 10 \<Longrightarrow> of_char (char_of (48 + m) :: char) = 48 + m" for m :: nat
    by (simp add: of_char_of)
  show ?case
  proof (cases "n < 10")
    case True
    then show ?thesis by (simp add: to_string.simps [of n] digit)
  next
    case False
    then show ?thesis
      using 1 digit [of "n mod 10"] by (simp add: to_string.simps [of n] of_digits_append)
  qed
qed

lemma to_string_inject: "to_string m = to_string n \<longleftrightarrow> m = n"
  by (metis of_digits_to_string)

lemma to_string_digits: "c \<in> set (to_string n) \<Longrightarrow> c \<in> set ''0123456789''"
proof (induction n rule: to_string.induct)
  case (1 n)
  have digit: "char_of (48 + m) \<in> set ''0123456789''" if "m < 10" for m :: nat
  proof -
    have "list_all (\<lambda>m. char_of (48 + m) \<in> set ''0123456789'') [0..<10::nat]"
      by code_simp
    with that show ?thesis by (simp only: list_all_iff set_upt atLeastLessThan_iff) simp
  qed
  have "c = char_of (48 + n) \<and> n < 10 \<or> c = char_of (48 + n mod 10) \<or>
      \<not> n < 10 \<and> c \<in> set (to_string (n div 10))"
    using "1.prems" by (auto simp: to_string.simps [of n] split: if_splits)
  with "1.IH" digit [of n] digit [of "n mod 10"] show ?case by fastforce
qed

lemma to_string_nonempty [simp]: "to_string n \<noteq> []"
  by (subst to_string.simps) simp

subsection \<open>Little-endian byte runs\<close>

fun le_bytes :: "nat \<Rightarrow> nat \<Rightarrow> bytes" where
  "le_bytes 0 x = []"
| "le_bytes (Suc n) x = x mod 256 # le_bytes n (x div 256)"

fun of_le_bytes :: "bytes \<Rightarrow> nat" where
  "of_le_bytes [] = 0"
| "of_le_bytes (b # bs) = b + 256 * of_le_bytes bs"

lemma length_le_bytes [simp]: "length (le_bytes n x) = n"
  by (induction n arbitrary: x) auto

lemma of_le_bytes_le_bytes: "of_le_bytes (le_bytes n x) = x mod 256 ^ n"
proof (induction n arbitrary: x)
  case (Suc n)
  have "x mod (256 * 256 ^ n) = 256 * (x div 256 mod 256 ^ n) + x mod 256"
    by (simp add: mod_mult2_eq)
  with Suc show ?case by simp
qed simp

lemma le_bytes_of_le_bytes:
  "list_all (\<lambda>b. b < 256) bs \<Longrightarrow> le_bytes (length bs) (of_le_bytes bs) = bs"
  by (induction bs) auto

lemma of_le_bytes_bound: "list_all (\<lambda>b. b < 256) bs \<Longrightarrow> of_le_bytes bs < 256 ^ length bs"
proof (induction bs)
  case (Cons b bs)
  then have "of_le_bytes bs + 1 \<le> 256 ^ length bs" "b < 256" by auto
  then have "b + 256 * of_le_bytes bs < 256 * (of_le_bytes bs + 1)" by simp
  also have "\<dots> \<le> 256 * 256 ^ length bs"
    using \<open>of_le_bytes bs + 1 \<le> 256 ^ length bs\<close> by (rule mult_le_mono2)
  finally show ?case by simp
qed simp

subsection \<open>Lists\<close>

lemma foldl_invariant:
  assumes "P s" and "\<And>s x. x \<in> set xs \<Longrightarrow> P s \<Longrightarrow> P (f s x)"
  shows "P (foldl f s xs)"
  using assms by (induction xs arbitrary: s) auto

lemma fold_invariant: "(\<And>a acc. P acc \<Longrightarrow> P (f a acc)) \<Longrightarrow> P acc \<Longrightarrow> P (fold f as acc)"
  by (induction as arbitrary: acc) auto

end
