(* ===== verification/Json.thy ===== *)
theory Json
  imports Prelude
begin

text \<open>
  The value type \<open>Json\<close> of \<open>src/common.h\<close> (nlohmann's \<open>basic_json\<close> with its default
  template arguments): the data itself and the selectors the gateway applies to it. An object
  is a \<open>std::map\<close>, so an association list in key order; numbers keep the three
  representations the library distinguishes (\<open>int64_t\<close>, \<open>uint64_t\<close>, \<open>double\<close>), a
  \<open>double\<close> as its IEEE-754 bit pattern. The text codec of the library, \<open>dump\<close> and
  \<open>parse\<close>, is not defined here: it is a parameter of the components that use it.
\<close>

datatype json =
    JNull
  | JBool bool
  | JInt int
  | JUint nat
  | JFloat "64 word"
  | JString string
  | JArray "json list"
  | JObject "(string \<times> json) list"
  | JDiscarded

subsection \<open>IEEE-754 doubles\<close>

definition f64_exp :: "64 word \<Rightarrow> nat" where
  "f64_exp w = unat w div 2 ^ 52 mod 2 ^ 11"

definition f64_mant :: "64 word \<Rightarrow> nat" where
  "f64_mant w = unat w mod 2 ^ 52"

definition f64_neg :: "64 word \<Rightarrow> bool" where
  "f64_neg w \<longleftrightarrow> 2 ^ 63 \<le> unat w"

definition f64_finite :: "64 word \<Rightarrow> bool" where
  "f64_finite w \<longleftrightarrow> f64_exp w \<noteq> 2047"

definition f64_nan :: "64 word \<Rightarrow> bool" where
  "f64_nan w \<longleftrightarrow> f64_exp w = 2047 \<and> f64_mant w \<noteq> 0"

definition f64_eq :: "64 word \<Rightarrow> 64 word \<Rightarrow> bool" where
  "f64_eq v w \<longleftrightarrow> \<not> f64_nan v \<and> \<not> f64_nan w \<and>
     (v = w \<or> unat v mod 2 ^ 63 = 0 \<and> unat w mod 2 ^ 63 = 0)"

fun top_bit :: "nat \<Rightarrow> nat" where
  "top_bit n = (if n < 2 then 0 else Suc (top_bit (n div 2)))"

declare top_bit.simps [simp del]

text \<open>Halving \<open>k\<close> times, rounding the result to the nearest integer and ties to even.\<close>

definition round_even :: "nat \<Rightarrow> nat \<Rightarrow> nat" where
  "round_even m k =
     (let q = m div 2 ^ k; r = m mod 2 ^ k; h = 2 ^ k div 2 in
      if k = 0 then m
      else if h < r \<or> r = h \<and> odd q then q + 1 else q)"

definition f64_of_int :: "int \<Rightarrow> 64 word" where
  "f64_of_int i =
     (let m = nat \<bar>i\<bar>; e = top_bit m;
          q = (if e \<le> 52 then m * 2 ^ (52 - e) else round_even m (e - 52));
          s = (if i < 0 then 2 ^ 63 else 0)
      in if m = 0 then 0 else of_nat (s + (e + 1023) * 2 ^ 52 + (q - 2 ^ 52)))"

definition f64_trunc :: "64 word \<Rightarrow> int" where
  "f64_trunc w =
     (let e = f64_exp w; m = f64_mant w + (if e = 0 then 0 else 2 ^ 52);
          e' = (if e = 0 then 1 else e);
          a = (if 1075 \<le> e' then m * 2 ^ (e' - 1075) else m div 2 ^ (1075 - e'))
      in if f64_neg w then - int a else int a)"

subsection \<open>Type tests and selectors\<close>

fun is_object :: "json \<Rightarrow> bool" where
  "is_object (JObject _) = True"
| "is_object _ = False"

fun is_array :: "json \<Rightarrow> bool" where
  "is_array (JArray _) = True"
| "is_array _ = False"

fun is_string :: "json \<Rightarrow> bool" where
  "is_string (JString _) = True"
| "is_string _ = False"

fun is_boolean :: "json \<Rightarrow> bool" where
  "is_boolean (JBool _) = True"
| "is_boolean _ = False"

fun is_number_unsigned :: "json \<Rightarrow> bool" where
  "is_number_unsigned (JUint _) = True"
| "is_number_unsigned _ = False"

fun is_number_integer :: "json \<Rightarrow> bool" where
  "is_number_integer (JUint _) = True"
| "is_number_integer (JInt _) = True"
| "is_number_integer _ = False"

fun is_number :: "json \<Rightarrow> bool" where
  "is_number (JUint _) = True"
| "is_number (JInt _) = True"
| "is_number (JFloat _) = True"
| "is_number _ = False"

fun jmembers :: "json \<Rightarrow> (string \<times> json) list" where
  "jmembers (JObject kvs) = kvs"
| "jmembers _ = []"

fun jelems :: "json \<Rightarrow> json list" where
  "jelems (JArray xs) = xs"
| "jelems _ = []"

fun jtext :: "json \<Rightarrow> string" where
  "jtext (JString s) = s"
| "jtext _ = []"

fun juint :: "json \<Rightarrow> nat" where
  "juint (JUint n) = n"
| "juint _ = 0"

definition contains :: "json \<Rightarrow> string \<Rightarrow> bool" where
  "contains j k \<longleftrightarrow> map_of (jmembers j) k \<noteq> None"

text \<open>
  \<open>operator[]\<close> at a key. On a missing key of a mutable object the library inserts null.
\<close>

definition jat :: "json \<Rightarrow> string \<Rightarrow> json" where
  "jat j k = (case map_of (jmembers j) k of Some v \<Rightarrow> v | None \<Rightarrow> JNull)"

definition jvalue :: "json \<Rightarrow> string \<Rightarrow> json \<Rightarrow> json" where
  "jvalue j k d = (case map_of (jmembers j) k of Some v \<Rightarrow> v | None \<Rightarrow> d)"

fun jset :: "json \<Rightarrow> string \<Rightarrow> json \<Rightarrow> json" where
  "jset (JObject kvs) k v = JObject (put k v kvs)"
| "jset JNull k v = JObject [(k, v)]"
| "jset j k v = j"

fun jerase :: "json \<Rightarrow> string \<Rightarrow> json" where
  "jerase (JObject kvs) k = JObject (drop_key k kvs)"
| "jerase j k = j"

definition jobj :: "(string \<times> json) list \<Rightarrow> json" where
  "jobj kvs = JObject (fold (\<lambda>(k, v) acc. put k v acc) kvs [])"

fun jsize :: "json \<Rightarrow> nat" where
  "jsize JNull = 0"
| "jsize (JArray xs) = length xs"
| "jsize (JObject kvs) = length kvs"
| "jsize _ = 1"

abbreviation jempty :: "json \<Rightarrow> bool" where
  "jempty j \<equiv> jsize j = 0"

text \<open>
  The conversions \<open>get<T>()\<close>; \<open>None\<close> is the library's \<open>type_error\<close>, which no caller
  catches. A negative integer read as \<open>uint64_t\<close> wraps around.
\<close>

fun get_uint64 :: "json \<Rightarrow> nat option" where
  "get_uint64 (JUint n) = Some (n mod 2 ^ 64)"
| "get_uint64 (JInt i) = Some (nat (i mod 2 ^ 64))"
| "get_uint64 (JFloat w) = Some (nat (f64_trunc w mod 2 ^ 64))"
| "get_uint64 _ = None"

fun to_int64 :: "int \<Rightarrow> int" where
  "to_int64 i = (i + 2 ^ 63) mod 2 ^ 64 - 2 ^ 63"

fun get_int64 :: "json \<Rightarrow> int option" where
  "get_int64 (JUint n) = Some (to_int64 (int n))"
| "get_int64 (JInt i) = Some (to_int64 i)"
| "get_int64 (JFloat w) = Some (to_int64 (f64_trunc w))"
| "get_int64 _ = None"

fun get_string :: "json \<Rightarrow> string option" where
  "get_string (JString s) = Some s"
| "get_string _ = None"

fun get_bool :: "json \<Rightarrow> bool option" where
  "get_bool (JBool b) = Some b"
| "get_bool _ = None"

text \<open>
  \<open>operator==\<close>: arrays and objects element by element, numbers by value across their
  representations (an unsigned operand is converted to the signed or floating type of the
  other), and a discarded value equals nothing.
\<close>

fun num_eq :: "json \<Rightarrow> json \<Rightarrow> bool" where
  "num_eq (JInt a) j = (case j of JInt b \<Rightarrow> a = b | JUint b \<Rightarrow> a = to_int64 (int b)
     | JFloat b \<Rightarrow> f64_eq (f64_of_int a) b | _ \<Rightarrow> False)"
| "num_eq (JUint a) j = (case j of JInt b \<Rightarrow> to_int64 (int a) = b | JUint b \<Rightarrow> a = b
     | JFloat b \<Rightarrow> f64_eq (f64_of_int (int a)) b | _ \<Rightarrow> False)"
| "num_eq (JFloat a) j = (case j of JInt b \<Rightarrow> f64_eq a (f64_of_int b)
     | JUint b \<Rightarrow> f64_eq a (f64_of_int (int b)) | JFloat b \<Rightarrow> f64_eq a b | _ \<Rightarrow> False)"
| "num_eq _ _ = False"

fun json_eq :: "json \<Rightarrow> json \<Rightarrow> bool"
  and json_eqs :: "json list \<Rightarrow> json list \<Rightarrow> bool"
  and json_eqkvs :: "(string \<times> json) list \<Rightarrow> (string \<times> json) list \<Rightarrow> bool" where
  "json_eq JNull j = (j = JNull)"
| "json_eq (JBool a) j = (j = JBool a)"
| "json_eq (JString a) j = (j = JString a)"
| "json_eq (JArray a) j = (case j of JArray b \<Rightarrow> json_eqs a b | _ \<Rightarrow> False)"
| "json_eq (JObject a) j = (case j of JObject b \<Rightarrow> json_eqkvs a b | _ \<Rightarrow> False)"
| "json_eq JDiscarded j = False"
| "json_eq n j = num_eq n j"
| "json_eqs [] bs = (bs = [])"
| "json_eqs (a # as) bs = (case bs of [] \<Rightarrow> False | b # bs' \<Rightarrow> json_eq a b \<and> json_eqs as bs')"
| "json_eqkvs [] bs = (bs = [])"
| "json_eqkvs ((k, a) # as) bs =
     (case bs of [] \<Rightarrow> False | (l, b) # bs' \<Rightarrow> k = l \<and> json_eq a b \<and> json_eqkvs as bs')"

subsection \<open>Laws of the selectors\<close>

lemma jmembers_jset [json_simps]:
  "is_object j \<Longrightarrow> jmembers (jset j k v) = put k v (jmembers j)"
  by (cases j) auto

lemma is_object_jset [json_simps]: "is_object j \<Longrightarrow> is_object (jset j k v)"
  by (cases j) auto

lemma contains_jset [json_simps]:
  "is_object j \<Longrightarrow> contains (jset j k v) l \<longleftrightarrow> k = l \<or> contains j l"
  by (auto simp: contains_def jmembers_jset)

lemma jat_jset [json_simps]: "is_object j \<Longrightarrow> jat (jset j k v) l = (if k = l then v else jat j l)"
  by (auto simp: jat_def jmembers_jset)

lemma contains_is_object: "contains j k \<Longrightarrow> is_object j"
  by (cases j) (auto simp: contains_def)

lemma is_object_jobj [simp]: "is_object (jobj kvs)"
  by (simp add: jobj_def)

lemma map_of_fold_put:
  "map_of (fold (\<lambda>(k, v) acc. put k v acc) kvs acc) = map_of acc ++ map_of (rev kvs)"
proof (induction kvs arbitrary: acc)
  case (Cons a kvs)
  then show ?case
    by (cases a) (simp add: map_add_upd_left fun_eq_iff map_add_def split: option.splits)
qed simp

lemma map_of_jobj [json_simps]: "map_of (jmembers (jobj kvs)) = map_of (rev kvs)"
  by (simp add: jobj_def map_of_fold_put)

lemma keys_sorted_jobj: "keys_sorted (jmembers (jobj kvs))"
proof -
  have "keys_sorted (fold (\<lambda>(k, v) acc. put k v acc) kvs [])"
    by (rule fold_invariant [where P = keys_sorted]) auto
  then show ?thesis by (simp add: jobj_def)
qed

lemma contains_jobj [json_simps]: "contains (jobj kvs) k \<longleftrightarrow> k \<in> fst ` set kvs"
  by (auto simp: contains_def map_of_jobj map_of_eq_None_iff)

lemma jat_jobj [json_simps]:
  "jat (jobj kvs) k = (case map_of (rev kvs) k of Some v \<Rightarrow> v | None \<Rightarrow> JNull)"
  by (simp add: jat_def map_of_jobj)

lemma jvalue_jat: "contains j k \<Longrightarrow> jvalue j k d = jat j k"
  by (auto simp: jvalue_def jat_def contains_def)

lemma json_eq_JString [simp]: "json_eq j (JString s) \<longleftrightarrow> j = JString s"
  by (cases j) auto

lemma json_eq_JBool [simp]: "json_eq j (JBool b) \<longleftrightarrow> j = JBool b"
  by (cases j) auto

lemma json_eq_JUint [simp]: "json_eq (JUint a) (JUint b) \<longleftrightarrow> a = b"
  by simp

lemma get_string_jtext: "get_string j = Some s \<longleftrightarrow> j = JString s"
  by (cases j) auto

lemma is_string_conv: "is_string j \<longleftrightarrow> (\<exists>s. j = JString s)"
  by (cases j) auto

lemma is_object_conv: "is_object j \<longleftrightarrow> (\<exists>kvs. j = JObject kvs)"
  by (cases j) auto

lemma is_number_unsigned_conv: "is_number_unsigned j \<longleftrightarrow> (\<exists>n. j = JUint n)"
  by (cases j) auto

end
