(* ===== verification/Common.thy ===== *)
theory Common
  imports Json
begin

text \<open>
  The pure part of \<open>src/common.h\<close> and \<open>src/common.cc\<close>: statuses, limits, identifiers,
  digests, the nesting guard and the request envelope. The libraries the code calls are the
  fields of the record \<open>env\<close>, an argument of every definition that uses them.
\<close>

subsection \<open>Statuses and limits\<close>

record status =
  st_code :: string
  st_message :: string

definition st_ok :: "status \<Rightarrow> bool" where
  "st_ok s \<longleftrightarrow> st_code s = []"

definition Ok :: status where
  "Ok = \<lparr>st_code = [], st_message = []\<rparr>"

definition mk_status :: "string \<Rightarrow> string \<Rightarrow> status" where
  "mk_status c m = \<lparr>st_code = c, st_message = m\<rparr>"

lemma st_ok_Ok [simp]: "st_ok Ok"
  by (simp add: st_ok_def Ok_def)

lemma st_ok_mk_status [simp]: "st_ok (mk_status c m) \<longleftrightarrow> c = []"
  by (simp add: st_ok_def mk_status_def)

lemma mk_status_sel [simp]: "st_code (mk_status c m) = c" "st_message (mk_status c m) = m"
  by (simp_all add: mk_status_def)

lemma st_code_Ok [simp]: "st_code Ok = []"
  by (simp add: Ok_def)

definition kFrameBytes :: nat where "kFrameBytes = 256 * 1024"
definition kRecordBytes :: nat where "kRecordBytes = 16 * 1024 * 1024"
definition kParamsBytes :: nat where "kParamsBytes = 16 * 1024 * 1024"
definition kNativePayloadBytes :: nat where "kNativePayloadBytes = 1024 * 1024"
definition kSpoolBytes :: nat where "kSpoolBytes = 64 * 1024 * 1024"
definition kUploadBytes :: nat where "kUploadBytes = 64 * 1024 * 1024"
definition kWindow :: nat where "kWindow = 32"
definition kSessions :: nat where "kSessions = 32"
definition kJobsPerSession :: nat where "kJobsPerSession = 128"
definition kLeaseSeconds :: int where "kLeaseSeconds = 3600"

lemmas limits = kFrameBytes_def kRecordBytes_def kParamsBytes_def kNativePayloadBytes_def
  kSpoolBytes_def kUploadBytes_def kWindow_def kSessions_def kJobsPerSession_def
  kLeaseSeconds_def

subsection \<open>The libraries\<close>

text \<open>
  \<open>dump\<close> and \<open>parse\<close> are nlohmann's text codec: \<open>dump\<close> throws on a string that is not
  UTF-8 (\<open>None\<close>), \<open>dump_r\<close> is the variant with the replacing error handler, and \<open>parse\<close>
  is the non-throwing variant, a discarded value standing for a syntax error. \<open>digest\<close> is
  \<open>EVP_Digest\<close> with SHA-256, \<open>enc64\<close> and \<open>dec64\<close> are \<open>EVP_EncodeBlock\<close> and
  \<open>EVP_DecodeBlock\<close> (\<open>None\<close> for a negative count), \<open>memcmp\<close> is \<open>CRYPTO_memcmp\<close>.
\<close>

record env =
  dump :: "json \<Rightarrow> string option"
  dump_r :: "json \<Rightarrow> string"
  parse :: "string \<Rightarrow> json"
  digest :: "string \<Rightarrow> string"
  enc64 :: "string \<Rightarrow> string"
  dec64 :: "string \<Rightarrow> string option"
  memcmp :: "string \<Rightarrow> string \<Rightarrow> nat \<Rightarrow> int"

text \<open>
  Documented behaviour of the two OpenSSL block functions: base64 with \<open>=\<close> padding, and decoding
  that yields the padding as zero bytes.
\<close>

definition padding :: "nat \<Rightarrow> nat" where
  "padding n = (3 - n mod 3) mod 3"

definition evp_base64 :: "env \<Rightarrow> bool" where
  "evp_base64 E \<longleftrightarrow>
     (\<forall>s. s \<noteq> [] \<longrightarrow> length (enc64 E s) = 4 * ((length s + 2) div 3) \<and>
        dec64 E (enc64 E s) = Some (s @ replicate (padding (length s)) (CHR 0x00)) \<and>
        (last (enc64 E s) = CHR ''='' \<longleftrightarrow> 1 \<le> padding (length s)) \<and>
        (enc64 E s ! (length (enc64 E s) - 2) = CHR ''='' \<longleftrightarrow> padding (length s) = 2))"

text \<open>
  Documented behaviour of the JSON text codec on the documents the gateway writes itself (ASCII
  strings, integers in range): dumping succeeds, and parsing the text gives the value back, with
  non-negative numbers as unsigned ones.
\<close>

definition ascii :: "string \<Rightarrow> bool" where
  "ascii s \<longleftrightarrow> list_all (\<lambda>c. of_char c < (128 :: nat)) s"

fun norm_json :: "json \<Rightarrow> json" where
  "norm_json (JInt i) = (if 0 \<le> i then JUint (nat i) else JInt i)"
| "norm_json (JArray xs) = JArray (map norm_json xs)"
| "norm_json (JObject kvs) = JObject (map (\<lambda>(k, v). (k, norm_json v)) kvs)"
| "norm_json j = j"

fun document :: "json \<Rightarrow> bool" where
  "document (JInt i) \<longleftrightarrow> - (2 ^ 63) \<le> i \<and> i < 2 ^ 63"
| "document (JUint n) \<longleftrightarrow> n < 2 ^ 64"
| "document (JFloat w) \<longleftrightarrow> False"
| "document (JString s) \<longleftrightarrow> ascii s"
| "document (JArray xs) \<longleftrightarrow> (\<forall>x \<in> set xs. document x)"
| "document (JObject kvs) \<longleftrightarrow> keys_sorted kvs \<and> (\<forall>(k, v) \<in> set kvs. ascii k \<and> document v)"
| "document JDiscarded \<longleftrightarrow> False"
| "document j \<longleftrightarrow> True"

definition json_codec :: "env \<Rightarrow> bool" where
  "json_codec E \<longleftrightarrow> (\<forall>j. document j \<longrightarrow> (\<exists>t. dump E j = Some t \<and> parse E t = norm_json j))"

subsection \<open>Digests, secrets and identifiers\<close>

definition kHex :: string where "kHex = ''0123456789abcdef''"

definition hex_byte :: "char \<Rightarrow> string" where
  "hex_byte c = [kHex ! (of_char c div 16), kHex ! (of_char c mod 16)]"

definition Hex :: "string \<Rightarrow> string" where
  "Hex data = concat (map hex_byte data)"

definition Sha256 :: "env \<Rightarrow> string \<Rightarrow> string" where
  "Sha256 E data = Hex (digest E data)"

definition EqualSecret :: "env \<Rightarrow> string \<Rightarrow> string \<Rightarrow> bool" where
  "EqualSecret E a b \<longleftrightarrow> length a = length b \<and> memcmp E a b (length a) = 0"

definition id_char :: "char \<Rightarrow> bool" where
  "id_char c \<longleftrightarrow> (CHR ''a'' \<le> c \<and> c \<le> CHR ''z'') \<or> (CHR ''A'' \<le> c \<and> c \<le> CHR ''Z'') \<or>
     (CHR ''0'' \<le> c \<and> c \<le> CHR ''9'') \<or> c = CHR ''-'' \<or> c = CHR ''_''"

definition IsId :: "json \<Rightarrow> bool" where
  "IsId value =
     (case value of
        JString text \<Rightarrow> \<not> (text = [] \<or> 96 < length text) \<and> list_all id_char text
      | _ \<Rightarrow> False)"

definition IsUnsigned :: "json \<Rightarrow> nat \<Rightarrow> bool" where
  "IsUnsigned value maximum =
     (case value of JUint n \<Rightarrow> n \<le> maximum | _ \<Rightarrow> False)"

definition UINT64_MAX :: nat where "UINT64_MAX = 2 ^ 64 - 1"
definition UINT32_MAX :: nat where "UINT32_MAX = 2 ^ 32 - 1"

subsection \<open>The nesting guard\<close>

fun nest_scan :: "int \<Rightarrow> bool \<Rightarrow> bool \<Rightarrow> string \<Rightarrow> status" where
  "nest_scan depth quoted escaped [] = Ok"
| "nest_scan depth quoted escaped (c # text) =
     (if quoted then
        (if escaped then nest_scan depth True False text
         else if c = CHR 92 then nest_scan depth True True text
         else if c = CHR 34 then nest_scan depth False False text
         else nest_scan depth True False text)
      else if c = CHR 34 then nest_scan depth True escaped text
      else if c = CHR ''{'' \<or> c = CHR ''['' then
        (if depth + 1 > 32 then mk_status ''invalid_request'' ''Nesting limit exceeded''
         else nest_scan (depth + 1) False escaped text)
      else if c = CHR ''}'' \<or> c = CHR '']'' then nest_scan (depth - 1) False escaped text
      else nest_scan depth False escaped text)"

definition CheckNesting :: "string \<Rightarrow> status" where
  "CheckNesting text = nest_scan 0 False False text"

subsection \<open>The request envelope\<close>

definition jerror :: "string \<Rightarrow> status \<Rightarrow> json" where
  "jerror rid s =
     jobj [(''id'', JString rid), (''type'', JString ''error''),
           (''error'', jobj [(''code'', JString (st_code s)), (''message'', JString (st_message s))])]"

definition jresult :: "string \<Rightarrow> json \<Rightarrow> json" where
  "jresult rid v = jobj [(''id'', JString rid), (''type'', JString ''result''), (''result'', v)]"

definition envelope_keys :: "string list" where
  "envelope_keys = [''id'', ''method'', ''params'', ''params_ref'']"

definition ParseRequest :: "env \<Rightarrow> string \<Rightarrow> nat \<Rightarrow> status \<times> json" where
  "ParseRequest E text limit =
     (if limit < length text then
        (mk_status ''frame_too_large'' ''Use transfer.begin/chunk/commit'', JNull)
      else if \<not> st_ok (CheckNesting text) then (CheckNesting text, JNull)
      else
        (let request = parse E text in
         if \<not> is_object request \<or> \<not> contains request ''id'' \<or> \<not> IsId (jat request ''id'') \<or>
            \<not> contains request ''method'' \<or> \<not> is_string (jat request ''method'') \<or>
            (contains request ''params'' \<and> \<not> is_object (jat request ''params'')) \<or>
            (contains request ''params_ref'' \<and> \<not> IsId (jat request ''params_ref''))
         then (mk_status ''invalid_request'' ''Expected id, symbolic method, and object params'', request)
         else if contains request ''params'' \<and> contains request ''params_ref''
         then (mk_status ''invalid_request'' ''Use params or params_ref, not both'', request)
         else if \<exists>k \<in> set (map fst (jmembers request)). k \<notin> set envelope_keys
         then (mk_status ''invalid_request'' ''Unknown envelope field'', request)
         else (Ok, request)))"

text \<open>The published schema of the envelope, \<open>request.schema.json\<close>.\<close>

definition id_pattern :: "string \<Rightarrow> bool" where
  "id_pattern s \<longleftrightarrow> 1 \<le> length s \<and> length s \<le> 96 \<and> set s \<subseteq>
     set ''ABCDEFGHIJKLMNOPQRSTUVWXYZabcdefghijklmnopqrstuvwxyz0123456789_-''"

definition request_schema :: "json \<Rightarrow> bool" where
  "request_schema j \<longleftrightarrow>
     (case j of JObject kvs \<Rightarrow>
        {''id'', ''method''} \<subseteq> fst ` set kvs \<and>
        fst ` set kvs \<subseteq> {''id'', ''method'', ''params'', ''params_ref''} \<and>
        (\<exists>s. map_of kvs ''id'' = Some (JString s) \<and> id_pattern s) \<and>
        (\<exists>s. map_of kvs ''method'' = Some (JString s)) \<and>
        (\<forall>v. map_of kvs ''params'' = Some v \<longrightarrow> is_object v) \<and>
        (\<forall>v. map_of kvs ''params_ref'' = Some v \<longrightarrow> (\<exists>s. v = JString s \<and> id_pattern s)) \<and>
        \<not> {''params'', ''params_ref''} \<subseteq> fst ` set kvs
      | _ \<Rightarrow> False)"

subsection \<open>Identifiers and digests\<close>

lemma id_char_iff:
  "id_char c \<longleftrightarrow> c \<in> set ''ABCDEFGHIJKLMNOPQRSTUVWXYZabcdefghijklmnopqrstuvwxyz0123456789_-''"
proof -
  have "\<forall>c :: char. id_char c \<longleftrightarrow>
      c \<in> set ''ABCDEFGHIJKLMNOPQRSTUVWXYZabcdefghijklmnopqrstuvwxyz0123456789_-''"
    unfolding id_char_def by code_simp
  then show ?thesis by blast
qed

lemma IsId_iff: "IsId j \<longleftrightarrow> (\<exists>s. j = JString s \<and> id_pattern s)"
  by (cases j) (auto simp: IsId_def id_pattern_def list_all_iff id_char_iff subset_iff Suc_le_eq
      simp del: list.set)

lemma IsId_chars: "IsId (JString s) \<Longrightarrow> c \<in> set s \<Longrightarrow> id_char c"
  by (auto simp: IsId_def list_all_iff)

lemma IsUnsigned_iff: "IsUnsigned j m \<longleftrightarrow> (\<exists>n. j = JUint n \<and> n \<le> m)"
  by (cases j) (auto simp: IsUnsigned_def)

lemma length_Hex [simp]: "length (Hex s) = 2 * length s"
  by (induction s) (auto simp: Hex_def hex_byte_def)

lemma hex_byte_chars: "c \<in> set (hex_byte b) \<Longrightarrow> c \<in> set kHex"
proof -
  have "\<forall>b :: char. \<forall>c \<in> set (hex_byte b). c \<in> set kHex"
    by code_simp
  then show "c \<in> set (hex_byte b) \<Longrightarrow> c \<in> set kHex" by blast
qed

lemma Hex_chars: "c \<in> set (Hex s) \<Longrightarrow> c \<in> set kHex"
  by (induction s) (auto simp: Hex_def dest: hex_byte_chars)

subsection \<open>The nesting guard against its specification\<close>

text \<open>The characters outside string literals, and the change of depth each one makes.\<close>

fun unquoted :: "bool \<Rightarrow> bool \<Rightarrow> string \<Rightarrow> string" where
  "unquoted q e [] = []"
| "unquoted q e (c # text) =
     (if q then unquoted (e \<or> c \<noteq> CHR 34) (\<not> e \<and> c = CHR 92) text
      else if c = CHR 34 then unquoted True False text
      else c # unquoted False False text)"

definition bracket :: "char \<Rightarrow> int" where
  "bracket c = (if c \<in> {CHR ''{'', CHR ''[''} then 1
     else if c \<in> {CHR ''}'', CHR '']''} then -1 else 0)"

definition depth_after :: "nat \<Rightarrow> string \<Rightarrow> int" where
  "depth_after n text = sum_list (map bracket (take n text))"

lemma depth_after_simps [simp]:
  "depth_after 0 t = 0" "depth_after n [] = 0"
  "depth_after (Suc n) (c # t) = bracket c + depth_after n t"
  by (simp_all add: depth_after_def)

lemma all_nat_split: "(\<forall>n. P n) \<longleftrightarrow> P 0 \<and> (\<forall>n. P (Suc n))"
  by (metis not0_implies_Suc)

lemma all_depths_Cons:
  "(\<forall>n. d + depth_after n (c # t) \<le> m) \<longleftrightarrow> d \<le> m \<and> (\<forall>n. (d + bracket c) + depth_after n t \<le> m)"
  by (subst all_nat_split) (auto simp: algebra_simps)

lemma nest_scan_iff:
  assumes "d \<le> 32" and "e \<longrightarrow> q"
  shows "st_ok (nest_scan d q e t) \<longleftrightarrow> (\<forall>n. d + depth_after n (unquoted q e t) \<le> 32)"
  using assms
proof (induction t arbitrary: d q e)
  case (Cons c t)
  have close: "bracket c \<le> 0 \<Longrightarrow> d + bracket c \<le> 32" using Cons.prems by simp
  consider "q" | "\<not> q" "c = CHR 34" | "\<not> q" "c \<noteq> CHR 34" by blast
  then show ?case
  proof cases
    case 1
    then show ?thesis using Cons.IH [of d] Cons.prems by auto
  next
    case 2
    then have "\<not> e" using Cons.prems by blast
    with 2 show ?thesis using Cons.IH [of d False True] Cons.prems by auto
  next
    case 3
    then have "\<not> e" using Cons.prems by blast
    show ?thesis
    proof (cases "c = CHR ''{'' \<or> c = CHR ''[''")
      case True
      then have b: "bracket c = 1" by (auto simp: bracket_def)
      have scan: "nest_scan d q e (c # t) =
          (if d = 32 then mk_status ''invalid_request'' ''Nesting limit exceeded''
           else nest_scan (d + 1) False False t)"
        using 3 \<open>\<not> e\<close> True Cons.prems by auto
      have "(\<forall>n. d + depth_after n (unquoted q e (c # t)) \<le> 32) \<longleftrightarrow>
          (\<forall>n. d + 1 + depth_after n (unquoted False False t) \<le> 32)"
        using 3 b Cons.prems by (simp add: all_depths_Cons)
      moreover have "\<not> (\<forall>n. d + 1 + depth_after n (unquoted False False t) \<le> 32)" if "d = 32"
        using that by (auto intro!: exI [of _ 0])
      ultimately show ?thesis
        using scan Cons.prems Cons.IH [of "d + 1" False False] by (cases "d = 32") auto
    next
      case False
      then have "bracket c = (if c = CHR ''}'' \<or> c = CHR '']'' then -1 else 0)"
        by (auto simp: bracket_def)
      then show ?thesis
        using 3 \<open>\<not> e\<close> False Cons.prems Cons.IH [of "d + bracket c" False False]
        by (auto simp: all_depths_Cons)
    qed
  qed
qed simp

text \<open>
  C1. The nesting guard that runs before the recursive JSON parser accepts a text exactly when,
  with the contents of string literals (escaped quotes included) left out, no prefix has more
  than 32 brackets open.
\<close>

theorem check_nesting_iff:
  "st_ok (CheckNesting text) \<longleftrightarrow> (\<forall>n. depth_after n (unquoted False False text) \<le> 32)"
  using nest_scan_iff [of 0 False False "text"] by (simp add: CheckNesting_def)

text \<open>
  C2. A request text is accepted exactly when it is within the size limit, passes the nesting
  guard, and parses to a value that conforms to the published schema \<open>request.schema.json\<close>.
\<close>

theorem parse_request_schema:
  "st_ok (fst (ParseRequest E text limit)) \<longleftrightarrow>
     length text \<le> limit \<and> st_ok (CheckNesting text) \<and> request_schema (parse E text)"
proof -
  let ?r = "parse E text"
  show ?thesis
  proof (cases ?r)
    case (JObject kvs)
    have field: "contains ?r k \<longleftrightarrow> map_of kvs k \<noteq> None" "contains ?r k \<longleftrightarrow> k \<in> fst ` set kvs" for k
      using JObject by (auto simp: contains_def map_of_eq_None_iff)
    have at: "jat ?r k = (case map_of kvs k of None \<Rightarrow> JNull | Some v \<Rightarrow> v)" for k
      using JObject by (simp add: jat_def)
    have "contains ?r ''id'' \<and> IsId (jat ?r ''id'') \<longleftrightarrow>
        (\<exists>s. map_of kvs ''id'' = Some (JString s) \<and> id_pattern s)"
      by (auto simp: field(1) at IsId_iff)
    moreover have "contains ?r ''method'' \<and> is_string (jat ?r ''method'') \<longleftrightarrow>
        (\<exists>s. map_of kvs ''method'' = Some (JString s))"
      by (auto simp: field(1) at is_string_conv)
    moreover have "(contains ?r ''params'' \<longrightarrow> is_object (jat ?r ''params'')) \<longleftrightarrow>
        (\<forall>v. map_of kvs ''params'' = Some v \<longrightarrow> is_object v)"
      by (auto simp: field(1) at)
    moreover have "(contains ?r ''params_ref'' \<longrightarrow> IsId (jat ?r ''params_ref'')) \<longleftrightarrow>
        (\<forall>v. map_of kvs ''params_ref'' = Some v \<longrightarrow> (\<exists>s. v = JString s \<and> id_pattern s))"
      by (auto simp: field(1) at IsId_iff)
    moreover have "(\<exists>k \<in> set (map fst (jmembers ?r)). k \<notin> set envelope_keys) \<longleftrightarrow>
        \<not> fst ` set kvs \<subseteq> {''id'', ''method'', ''params'', ''params_ref''}"
      using JObject by (auto simp: envelope_keys_def)
    ultimately show ?thesis
      using field(2) [of "''id''"] field(2) [of "''method''"] field(2) [of "''params''"]
        field(2) [of "''params_ref''"] JObject
      unfolding ParseRequest_def Let_def request_schema_def
      by (simp only: json.case is_object.simps insert_subset empty_subsetI) (simp, metis)
  qed (simp_all add: ParseRequest_def request_schema_def)
qed

end
