(* ===== verification/Files.thy ===== *)
theory Files
  imports Common
begin

text \<open>
  The file operations of \<open>src/common.cc\<close>. A \<open>disk\<close> holds the regular files in directory
  order, a counter of system calls and a fault plan: the call number \<open>n\<close> fails when
  \<open>fault n\<close> is \<open>Some k\<close> (a write then stops after at most \<open>k\<close> bytes). Every theorem
  holds for an arbitrary plan, so for any combination of failing calls.

  \<open>WriteAll\<close> is the retry loop over the answers of \<open>write(2)\<close>; \<open>append_file\<close> is its
  summary on the disk, and \<open>write_all_summary\<close> shows that the loop has no other outcomes.
\<close>

subsection \<open>The write loop\<close>

datatype wr = Wrote nat | Interrupted | Failed

fun WriteAll :: "wr list \<Rightarrow> string \<Rightarrow> nat \<Rightarrow> string \<Rightarrow> (bool \<times> string) option" where
  "WriteAll answers data offset written =
     (if offset < length data then
        (case answers of
           [] \<Rightarrow> None
         | Interrupted # rest \<Rightarrow> WriteAll rest data offset written
         | Failed # rest \<Rightarrow> Some (False, written)
         | Wrote n # rest \<Rightarrow>
             (let count = min n (length data - offset) in
              if count = 0 then Some (False, written)
              else WriteAll rest data (offset + count) (written @ take count (drop offset data))))
      else Some (True, written))"

declare WriteAll.simps [simp del]

subsection \<open>The disk\<close>

record disk =
  files :: "(path \<times> string) list"
  tick :: nat
  fault :: "nat \<Rightarrow> nat option"

definition clean_disk :: disk where
  "clean_disk = \<lparr>files = [], tick = 0, fault = (\<lambda>_. None)\<rparr>"

definition content :: "disk \<Rightarrow> path \<Rightarrow> string option" where
  "content d p = map_of (files d) p"

definition sys_ok :: "disk \<Rightarrow> bool" where
  "sys_ok d \<longleftrightarrow> fault d (tick d) = None"

definition next_call :: "disk \<Rightarrow> disk" where
  "next_call d = d\<lparr>tick := Suc (tick d)\<rparr>"

definition set_file :: "disk \<Rightarrow> path \<Rightarrow> string \<Rightarrow> disk" where
  "set_file d p s = d\<lparr>files := AList.update p s (files d)\<rparr>"

definition del_file :: "disk \<Rightarrow> path \<Rightarrow> disk" where
  "del_file d p = d\<lparr>files := AList.delete p (files d)\<rparr>"

text \<open>\<open>open\<close> with \<open>O_CREAT | O_TRUNC | O_WRONLY\<close>.\<close>

definition open_trunc :: "disk \<Rightarrow> path \<Rightarrow> bool \<times> disk" where
  "open_trunc d p = (if sys_ok d then (True, next_call (set_file d p [])) else (False, next_call d))"

definition append_file :: "disk \<Rightarrow> path \<Rightarrow> string \<Rightarrow> bool \<times> disk" where
  "append_file d p data =
     (let old = (case content d p of Some s \<Rightarrow> s | None \<Rightarrow> []) in
      if data = [] then (True, d)
      else (case fault d (tick d) of
              None \<Rightarrow> (True, next_call (set_file d p (old @ data)))
            | Some k \<Rightarrow> (False, next_call (set_file d p (old @ take (min k (length data - 1)) data)))))"

text \<open>\<open>fsync\<close>, \<open>close\<close>, and opening a directory to synchronise it.\<close>

definition sync_call :: "disk \<Rightarrow> bool \<times> disk" where
  "sync_call d = (sys_ok d, next_call d)"

definition rename_file :: "disk \<Rightarrow> path \<Rightarrow> path \<Rightarrow> bool \<times> disk" where
  "rename_file d p q =
     (case content d p of
        Some s \<Rightarrow> (if sys_ok d then (True, next_call (set_file (del_file d p) q s)) else (False, next_call d))
      | None \<Rightarrow> (False, next_call d))"

definition unlink_file :: "disk \<Rightarrow> path \<Rightarrow> bool \<times> disk" where
  "unlink_file d p =
     (if content d p \<noteq> None \<and> sys_ok d then (True, next_call (del_file d p)) else (False, next_call d))"

definition FileSize :: "disk \<Rightarrow> path \<Rightarrow> int" where
  "FileSize d p = (case content d p of Some s \<Rightarrow> int (length s) | None \<Rightarrow> -1)"

definition ParentDirectory :: "path \<Rightarrow> path" where
  "ParentDirectory p =
     (if CHR ''/'' \<notin> set p then ''.''
      else (let parent = rev (tl (dropWhile (\<lambda>c. c \<noteq> CHR ''/'') (rev p))) in
            if parent = [] then ''/'' else parent))"

definition ListFiles :: "disk \<Rightarrow> path \<Rightarrow> status \<times> path list \<times> disk" where
  "ListFiles d directory =
     (if \<not> sys_ok d then (mk_status ''storage_error'' ''Cannot list directory'', [], next_call d)
      else (let d1 = next_call d; names = filter (\<lambda>p. ParentDirectory p = directory) (map fst (files d1)) in
            if sys_ok d1 then (Ok, names, next_call d1)
            else (mk_status ''storage_error'' ''Cannot read directory'', names, next_call d1)))"

definition WriteAtomic :: "disk \<Rightarrow> path \<Rightarrow> string \<Rightarrow> status \<times> disk" where
  "WriteAtomic d p data =
     (let temporary = p @ ''.tmp''; (opened, d1) = open_trunc d temporary in
      if \<not> opened then (mk_status ''storage_error'' ''Cannot open journal file'', d1)
      else
        (let (wrote, d2) = append_file d1 temporary data;
             (synced, d3) = (if wrote then sync_call d2 else (False, d2));
             (closed, d4) = sync_call d3;
             (renamed, d5) = (if synced \<and> closed then rename_file d4 temporary p else (False, d4)) in
         if \<not> renamed then (mk_status ''storage_error'' ''Cannot commit journal file'', d5)
         else
           (let (opendir, d6) = sync_call d5;
                (dirsync, d7) = (if opendir then sync_call d6 else (False, d6)) in
            if opendir \<and> dirsync then (Ok, d7)
            else (mk_status ''storage_error'' ''Cannot sync journal directory'', d7))))"

subsection \<open>What the calls do to the disk\<close>

lemma content_next_call [io_simps]: "content (next_call d) p = content d p"
  by (simp add: next_call_def content_def)

lemma content_set_file [io_simps]: "content (set_file d p s) q = (if p = q then Some s else content d q)"
  by (simp add: set_file_def content_def update_conv')

lemma content_del_file [io_simps]: "content (del_file d p) q = (if p = q then None else content d q)"
  by (simp add: del_file_def content_def delete_conv')

lemma files_next_call [io_simps]: "files (next_call d) = files d" "fault (next_call d) = fault d"
  by (simp_all add: next_call_def)

lemma files_del_file [io_simps]: "files (del_file d p) = AList.delete p (files d)"
  by (simp add: del_file_def)

lemma files_set_file [io_simps]: "files (set_file d p s) = AList.update p s (files d)"
  by (simp add: set_file_def)

abbreviation wf_disk :: "disk \<Rightarrow> bool" where
  "wf_disk d \<equiv> distinct (map fst (files d))"

lemma content_mem: "content d p = Some s \<Longrightarrow> (p, s) \<in> set (files d)"
  by (simp add: content_def map_of_SomeD)

lemma content_iff_mem: "wf_disk d \<Longrightarrow> content d p = Some s \<longleftrightarrow> (p, s) \<in> set (files d)"
  by (simp add: content_def)

lemmas io_defs = open_trunc_def append_file_def sync_call_def rename_file_def unlink_file_def

lemma append_file_content:
  assumes "append_file d p data = (r, d')" and "content d p = Some old"
  obtains n where "n \<le> length data" and "content d' p = Some (old @ take n data)"
    and "r \<longleftrightarrow> n = length data" and "\<And>q. q \<noteq> p \<Longrightarrow> content d' q = content d q"
proof (cases "data = []")
  case True
  with assms show ?thesis by (intro that [of 0]) (auto simp: append_file_def)
next
  case False
  show ?thesis
  proof (cases "fault d (tick d)")
    case None
    with False assms show ?thesis
      by (intro that [of "length data"]) (auto simp: append_file_def io_simps)
  next
    case (Some k)
    with False assms show ?thesis
      by (intro that [of "min k (length data - 1)"])
        (auto simp: append_file_def io_simps min_def neq_Nil_conv split: if_splits)
  qed
qed

lemma FileSize_nonneg: "0 \<le> FileSize d p \<longleftrightarrow> content d p \<noteq> None"
  by (auto simp: FileSize_def split: option.splits)

subsection \<open>The write loop and its summary\<close>

lemma write_all_step:
  "length data \<le> offset \<Longrightarrow> WriteAll answers data offset w = Some (True, w)"
  "offset < length data \<Longrightarrow> WriteAll [] data offset w = None"
  "offset < length data \<Longrightarrow> WriteAll (Failed # rest) data offset w = Some (False, w)"
  "offset < length data \<Longrightarrow> WriteAll (Interrupted # rest) data offset w = WriteAll rest data offset w"
  "offset < length data \<Longrightarrow> count = min n (length data - offset) \<Longrightarrow>
    WriteAll (Wrote n # rest) data offset w = (if count = 0 then Some (False, w)
      else WriteAll rest data (offset + count) (w @ take count (drop offset data)))"
  by (auto simp: WriteAll.simps [of answers] WriteAll.simps [of "[]"] WriteAll.simps [of "Failed # rest"]
      WriteAll.simps [of "Interrupted # rest"] WriteAll.simps [of "Wrote n # rest"] Let_def min_def)

lemma write_all_from:
  assumes "WriteAll answers data offset written = Some (r, out)" and "offset \<le> length data"
  shows "\<exists>n \<ge> offset. n \<le> length data \<and> out = written @ take (n - offset) (drop offset data) \<and>
    (r \<longleftrightarrow> n = length data)"
  using assms
proof (induction answers data offset written rule: WriteAll.induct)
  case (1 answers data offset written)
  show ?case
  proof (cases "offset < length data")
    case False
    with "1.prems" show ?thesis by (auto simp: write_all_step intro!: exI [of _ offset])
  next
    case less: True
    then obtain a rest where ans: "answers = a # rest"
      using "1.prems"(1) by (cases answers) (auto simp: write_all_step)
    show ?thesis
    proof (cases a)
      case (Wrote n)
      define count where "count = min n (length data - offset)"
      show ?thesis
      proof (cases "count = 0")
        case True
        with less ans Wrote "1.prems"(1) show ?thesis
          by (auto simp: write_all_step(5) [OF less count_def] intro!: exI [of _ offset])
      next
        case False
        have "offset + count \<le> length data" using less by (simp add: count_def)
        with "1.IH"(1) [OF less ans Wrote count_def False] "1.prems"(1) ans Wrote False
        obtain m where m: "offset + count \<le> m" "m \<le> length data" "r \<longleftrightarrow> m = length data"
          "out = written @ take count (drop offset data) @ take (m - (offset + count)) (drop (offset + count) data)"
          by (auto simp: write_all_step(5) [OF less count_def])
        have "take count (drop offset data) @ take (m - (offset + count)) (drop (offset + count) data) =
            take (count + (m - (offset + count))) (drop offset data)"
          by (simp add: take_add add.commute)
        with m show ?thesis by (intro exI [of _ m]) simp
      qed
    next
      case Interrupted
      with "1.IH"(2) [OF less ans Interrupted] less ans "1.prems" show ?thesis
        by (simp add: write_all_step)
    next
      case Failed
      with less ans "1.prems" show ?thesis by (auto simp: write_all_step intro!: exI [of _ offset])
    qed
  qed
qed

lemma write_all_progress:
  assumes "list_all (\<lambda>a. a \<noteq> Failed \<and> a \<noteq> Wrote 0) answers"
    and "length data - offset \<le> length (filter (\<lambda>a. a \<noteq> Interrupted) answers)"
  shows "\<exists>out. WriteAll answers data offset written = Some (True, out)"
  using assms
proof (induction answers data offset written rule: WriteAll.induct)
  case (1 answers data offset written)
  show ?case
  proof (cases "offset < length data")
    case False
    then show ?thesis by (simp add: write_all_step)
  next
    case less: True
    then obtain a rest where ans: "answers = a # rest"
      using "1.prems"(2) by (cases answers) auto
    show ?thesis
    proof (cases a)
      case (Wrote n)
      define count where "count = min n (length data - offset)"
      have "count \<noteq> 0" using less "1.prems"(1) ans Wrote by (auto simp: count_def)
      with "1.IH"(1) [OF less ans Wrote count_def this] "1.prems" ans Wrote show ?thesis
        by (simp add: write_all_step(5) [OF less count_def])
    next
      case Interrupted
      with "1.IH"(2) [OF less ans Interrupted] "1.prems" ans less show ?thesis
        by (simp add: write_all_step)
    next
      case Failed
      with "1.prems"(1) ans show ?thesis by simp
    qed
  qed
qed

text \<open>
  C3. The retry loop around \<open>write(2)\<close> reports success exactly when every byte has been
  appended in order, whatever short counts and interruptions the kernel answers with; on
  failure a proper prefix has been appended. So the only outcomes are those of
  \<open>append_file\<close> under some fault plan.
\<close>

theorem write_all_summary:
  assumes "WriteAll answers data 0 old = Some (r, out)" and "content d p = Some old"
  shows "(r \<longleftrightarrow> out = old @ data) \<and>
    (\<exists>plan d'. append_file (d\<lparr>fault := plan\<rparr>) p data = (r, d') \<and> content d' p = Some out)"
proof -
  obtain n where n: "n \<le> length data" "out = old @ take n data" "r \<longleftrightarrow> n = length data"
    using write_all_from [OF assms(1)] by auto
  let ?plan = "\<lambda>_. if r then None else Some n"
  obtain r' d' where ap: "append_file (d\<lparr>fault := ?plan\<rparr>) p data = (r', d')" by force
  have "content d' p = Some out" "r' = r"
    using ap n assms(2)
    by (auto simp: append_file_def io_simps content_def min_def update_conv' Let_def
        split: if_splits)
  with ap n show ?thesis by auto
qed

theorem write_all_summary_witness:
  "\<exists>plan d'. append_file (\<lparr>files = [(''f'', ''x'')], tick = 0, fault = (\<lambda>_. None)\<rparr>\<lparr>fault := plan\<rparr>) ''f'' ''abc'' = (True, d') \<and>
     content d' ''f'' = Some ''xabc''"
proof -
  let ?d = "\<lparr>files = [(''f'', ''x'')], tick = 0, fault = (\<lambda>_. None)\<rparr>"
  have w: "WriteAll [Wrote 1, Interrupted, Wrote 9] ''abc'' 0 ''x'' = Some (True, ''xabc'')"
    by (simp add: WriteAll.simps)
  have c: "content ?d ''f'' = Some ''x''" by (simp add: content_def)
  show ?thesis using write_all_summary [OF w c] by blast
qed

lemma write_atomic_frame:
  assumes "WriteAtomic d p data = (s, d')"
  shows "content d' p \<in> {content d p, Some data}" and "st_ok s \<Longrightarrow> content d' p = Some data"
    and "q \<noteq> p \<Longrightarrow> q \<noteq> p @ ''.tmp'' \<Longrightarrow> content d' q = content d q"
  using assms
  by (auto simp: WriteAtomic_def io_defs io_simps Let_def split: if_splits option.splits prod.splits)

text \<open>
  C4. Replacing a file through a temporary is atomic under any failing system calls: afterwards
  the file has its old content or all of the new one, it has the new one whenever success is
  reported, and no file but the temporary is touched.
\<close>

theorem write_atomic:
  assumes "WriteAtomic d p data = (s, d')"
  shows "content d' p \<in> {content d p, Some data} \<and>
    (st_ok s \<longrightarrow> content d' p = Some data) \<and>
    (\<forall>q. q \<noteq> p \<and> q \<noteq> p @ ''.tmp'' \<longrightarrow> content d' q = content d q)"
  using write_atomic_frame [OF assms] by blast

theorem write_atomic_witness:
  "let d = \<lparr>files = [(''m.json'', ''old'')], tick = 0, fault = (\<lambda>n. if n = 2 then Some 0 else None)\<rparr>;
       (s, d') = WriteAtomic d ''m.json'' ''new'' in
   content d' ''m.json'' \<in> {Some ''old'', Some ''new''} \<and> \<not> st_ok s"
proof -
  let ?d = "\<lparr>files = [(''m.json'', ''old'')], tick = 0, fault = (\<lambda>n. if n = 2 then Some 0 else None)\<rparr>"
  obtain s d' where w: "WriteAtomic ?d ''m.json'' ''new'' = (s, d')" by force
  have "content ?d ''m.json'' = Some ''old''" by (simp add: content_def)
  moreover have "\<not> st_ok s"
    using w by (auto simp: WriteAtomic_def io_defs io_simps sys_ok_def next_call_def set_file_def
        content_def Let_def split: if_splits)
  ultimately show ?thesis using write_atomic [OF w] w by (simp add: Let_def)
qed

lemma wf_disk_write_atomic:
  assumes "WriteAtomic d p data = (s, d')" and "wf_disk d"
  shows "wf_disk d'"
  using assms
  by (auto simp: WriteAtomic_def io_defs io_simps Let_def distinct_update distinct_delete
      split: if_splits option.splits prod.splits)

end
