(* ===== verification/Sample.thy ===== *)
theory Sample
  imports Common "HOL-Library.Countable"
begin

text \<open>
  Concrete instances of the library parameters, used to show that the hypotheses about them can
  be met: base64 as OpenSSL's block functions compute it, a compact JSON printer, and a record
  \<open>sample_env\<close> with them. No definition of the gateway depends on this theory.
\<close>

subsection \<open>Base64\<close>

definition b64_table :: string where
  "b64_table = ''ABCDEFGHIJKLMNOPQRSTUVWXYZabcdefghijklmnopqrstuvwxyz0123456789+/''"

definition b64 :: "nat \<Rightarrow> char" where
  "b64 n = b64_table ! n"

definition b64_val :: "char \<Rightarrow> nat option" where
  "b64_val c = (if c = CHR ''='' then Some 0
     else if c \<in> set b64_table then Some (length (takeWhile (\<lambda>x. x \<noteq> c) b64_table)) else None)"

fun b64_enc :: "string \<Rightarrow> string" where
  "b64_enc [] = []"
| "b64_enc [a] = [b64 (of_char a div 4), b64 (of_char a mod 4 * 16), CHR ''='', CHR ''='']"
| "b64_enc [a, b] = [b64 (of_char a div 4), b64 (of_char a mod 4 * 16 + of_char b div 16),
     b64 (of_char b mod 16 * 4), CHR ''='']"
| "b64_enc (a # b # c # s) = b64 (of_char a div 4) # b64 (of_char a mod 4 * 16 + of_char b div 16) #
     b64 (of_char b mod 16 * 4 + of_char c div 64) # b64 (of_char c mod 64) # b64_enc s"

fun b64_dec :: "string \<Rightarrow> string option" where
  "b64_dec [] = Some []"
| "b64_dec (w # x # y # z # s) =
     (case (b64_val w, b64_val x, b64_val y, b64_val z, b64_dec s) of
        (Some w, Some x, Some y, Some z, Some t) \<Rightarrow>
          Some (char_of (w * 4 + x div 16) # char_of (x mod 16 * 16 + y div 4) #
                char_of (y mod 4 * 64 + z) # t)
      | _ \<Rightarrow> None)"
| "b64_dec _ = None"

lemma b64_val_b64: "n < 64 \<Longrightarrow> b64_val (b64 n) = Some n \<and> b64 n \<noteq> CHR ''=''"
proof -
  have "list_all (\<lambda>n. b64_val (b64 n) = Some n \<and> b64 n \<noteq> CHR ''='') [0..<64]"
    by code_simp
  then show "n < 64 \<Longrightarrow> ?thesis" by (simp only: list_all_iff set_upt atLeastLessThan_iff) simp
qed

lemma b64_eq: "n < 64 \<Longrightarrow> (b64 n = CHR ''='') = False" "b64_val CHR ''='' = Some 0"
  by (simp_all add: b64_val_b64 b64_val_def)

lemma of_char_256: "of_char (c :: char) < (256 :: nat)"
  by simp

lemma b64_pieces:
  fixes a b c :: char
  shows "of_char a div 4 < (64::nat)" "of_char a mod 4 * 16 + of_char b div 16 < (64::nat)"
    "of_char b mod 16 * 4 + of_char c div 64 < (64::nat)" "of_char c mod 64 < (64::nat)"
    "of_char a mod 4 * 16 < (64::nat)" "of_char b mod 16 * 4 < (64::nat)"
  using of_char_256 [of a] of_char_256 [of b] of_char_256 [of c] by linarith+

lemma b64_join:
  fixes x y z :: nat
  assumes "y < 256" and "z < 256"
  shows "x div 4 * 4 + (x mod 4 * 16 + y div 16) div 16 = x"
    "(x mod 4 * 16 + y div 16) mod 16 * 16 + (y mod 16 * 4 + z div 64) div 4 = y"
    "(y mod 16 * 4 + z div 64) mod 4 * 64 + z mod 64 = z"
proof -
  have small: "y div 16 < 16" "z div 64 < 4" using assms by auto
  have hi: "(x mod 4 * 16 + y div 16) div 16 = x mod 4" "(y mod 16 * 4 + z div 64) div 4 = y mod 16"
    using small by auto
  have lo: "(x mod 4 * 16 + y div 16) mod 16 = y div 16" "(y mod 16 * 4 + z div 64) mod 4 = z div 64"
    using small by auto
  show "x div 4 * 4 + (x mod 4 * 16 + y div 16) div 16 = x"
    "(x mod 4 * 16 + y div 16) mod 16 * 16 + (y mod 16 * 4 + z div 64) div 4 = y"
    "(y mod 16 * 4 + z div 64) mod 4 * 64 + z mod 64 = z"
    unfolding hi lo by simp_all
qed

lemma char_of_zero: "char_of (0 :: nat) = CHR 0x00"
  by code_simp

lemma b64_dec_enc: "b64_dec (b64_enc s) = Some (s @ replicate (padding (length s)) (CHR 0x00))"
proof (induction s rule: b64_enc.induct)
  case (2 a)
  then show ?case
    using b64_join(1) [of 0 0 "of_char a"]
    by (simp add: b64_val_b64 b64_eq b64_pieces padding_def numeral_2_eq_2 char_of_zero)
next
  case (3 a b)
  then show ?case
    using b64_join(1) [of "of_char b" 0 "of_char a"] b64_join(2) [of "of_char b" 0 "of_char a"]
    by (simp add: b64_val_b64 b64_eq b64_pieces padding_def char_of_zero)
next
  case (4 a b c s)
  have "padding (length (a # b # c # s)) = padding (length s)"
    by (simp add: padding_def)
  with 4 show ?case
    using b64_join(1,2) [of "of_char b" "of_char c" "of_char a"] b64_join(3) [of "of_char b" "of_char c"]
    by (simp add: b64_val_b64 b64_pieces)
qed (simp add: padding_def)

lemma b64_enc_length: "length (b64_enc s) = 4 * ((length s + 2) div 3)"
proof (induction s rule: b64_enc.induct)
  case (4 a b c s)
  have "(length (a # b # c # s) + 2) div 3 = (length s + 2) div 3 + 1" by simp
  with 4 show ?case by simp
qed auto

lemma b64_enc_ends:
  "s \<noteq> [] \<Longrightarrow> \<exists>pre w x y z. b64_enc s = pre @ [w, x, y, z] \<and>
     (z = CHR ''='' \<longleftrightarrow> 1 \<le> padding (length s)) \<and> (y = CHR ''='' \<longleftrightarrow> padding (length s) = 2)"
proof (induction s rule: b64_enc.induct)
  case (2 a)
  then show ?case by (intro exI [of _ "[]"]) (simp add: padding_def)
next
  case (3 a b)
  then show ?case by (intro exI [of _ "[]"]) (simp add: padding_def b64_eq b64_pieces)
next
  case (4 a b c s)
  have pad: "padding (length (a # b # c # s)) = padding (length s)" by (simp add: padding_def)
  show ?case
  proof (cases "s = []")
    case True
    then show ?thesis by (intro exI [of _ "[]"]) (simp add: padding_def b64_eq b64_pieces)
  next
    case False
    then obtain pre w x y z where "b64_enc s = pre @ [w, x, y, z]"
      "z = CHR ''='' \<longleftrightarrow> 1 \<le> padding (length s)" "y = CHR ''='' \<longleftrightarrow> padding (length s) = 2"
      using 4 by blast
    then show ?thesis
      using pad
      by (intro exI [of _ "take 4 (b64_enc (a # b # c # s)) @ pre"] exI [of _ w] exI [of _ x]
          exI [of _ y] exI [of _ z]) simp
  qed
qed simp

subsection \<open>A JSON printer and the sample environment\<close>

fun show_text :: "string \<Rightarrow> string" where
  "show_text [] = []"
| "show_text (c # s) = (if c = CHR 34 \<or> c = CHR 92 then [CHR 92, c] else [c]) @ show_text s"

fun show_json :: "json \<Rightarrow> string"
  and show_elems :: "json list \<Rightarrow> string"
  and show_members :: "(string \<times> json) list \<Rightarrow> string" where
  "show_json JNull = ''null''"
| "show_json (JBool b) = (if b then ''true'' else ''false'')"
| "show_json (JInt i) = int_to_string i"
| "show_json (JUint n) = to_string n"
| "show_json (JFloat w) = int_to_string (f64_trunc w) @ ''.0''"
| "show_json (JString s) = [CHR 34] @ show_text s @ [CHR 34]"
| "show_json (JArray xs) = ''['' @ show_elems xs @ '']''"
| "show_json (JObject kvs) = ''{'' @ show_members kvs @ ''}''"
| "show_json JDiscarded = ''<discarded>''"
| "show_elems [] = []"
| "show_elems (x # xs) = show_json x @ (if xs = [] then [] else '','' @ show_elems xs)"
| "show_members [] = []"
| "show_members ((k, v) # kvs) =
     [CHR 34] @ show_text k @ [CHR 34] @ '':'' @ show_json v @
     (if kvs = [] then [] else '','' @ show_members kvs)"

definition sample_env :: env where
  "sample_env = \<lparr>dump = (\<lambda>j. Some (show_json j)), dump_r = show_json, parse = (\<lambda>_. JDiscarded),
     digest = (\<lambda>s. take 32 (s @ replicate 32 (CHR 0x00))), enc64 = b64_enc, dec64 = b64_dec,
     memcmp = (\<lambda>a b n. if take n a = take n b then 0 else 1)\<rparr>"

lemma evp_base64_sample: "enc64 E = b64_enc \<Longrightarrow> dec64 E = b64_dec \<Longrightarrow> evp_base64 E"
  unfolding evp_base64_def
proof (intro allI impI conjI)
  fix s :: string
  assume E: "enc64 E = b64_enc" "dec64 E = b64_dec" and "s \<noteq> []"
  then obtain pre w x y z where ends: "b64_enc s = pre @ [w, x, y, z]"
      "z = CHR ''='' \<longleftrightarrow> 1 \<le> padding (length s)" "y = CHR ''='' \<longleftrightarrow> padding (length s) = 2"
    using b64_enc_ends by blast
  show "length (enc64 E s) = 4 * ((length s + 2) div 3)" by (simp add: E b64_enc_length)
  show "dec64 E (enc64 E s) = Some (s @ replicate (padding (length s)) (CHR 0x00))"
    by (simp add: E b64_dec_enc)
  show "last (enc64 E s) = CHR ''='' \<longleftrightarrow> 1 \<le> padding (length s)" using ends by (simp add: E)
  show "enc64 E s ! (length (enc64 E s) - 2) = CHR ''='' \<longleftrightarrow> padding (length s) = 2"
    using ends by (simp add: E nth_append)
qed

lemma sample_env_sel [simp]:
  "dump sample_env = (\<lambda>j. Some (show_json j))" "dump_r sample_env = show_json"
  "enc64 sample_env = b64_enc" "dec64 sample_env = b64_dec"
  by (simp_all add: sample_env_def)

subsection \<open>A codec of all JSON values\<close>

text \<open>
  JSON values are countable, so writing a value as that many characters is an injective text
  format; \<open>coded_env\<close> uses it to meet \<open>json_codec\<close>.
\<close>

instance json :: countable
  by countable_datatype

definition coded_env :: env where
  "coded_env = sample_env\<lparr>dump := (\<lambda>j. Some (replicate (to_nat j) (CHR ''x''))),
     parse := (\<lambda>t. norm_json (from_nat (length t)))\<rparr>"

lemma json_codec_coded: "json_codec coded_env"
  by (simp add: json_codec_def coded_env_def)

lemma coded_env_sel [simp]:
  "dump coded_env j = Some (replicate (to_nat j) (CHR ''x''))"
  "parse coded_env (replicate (to_nat j) (CHR ''x'')) = norm_json j"
  by (simp_all add: coded_env_def)

end
