(* ===== verification/Uploads.thy ===== *)
theory Uploads
  imports Files Sample
begin

text \<open>
  Class \<open>TransferManager\<close> of \<open>src/transfer.cc\<close>: resumable uploads kept as two files per
  transfer, \<open><path>.json\<close> (the manifest) and \<open><path>.data\<close>, in one directory. Operations take
  the libraries, the clock, the directory and the disk; the result is \<open>None\<close> where the C++ code
  ends with an uncaught exception. Files that exist can be read; every other call may fail.
\<close>

subsection \<open>Reading\<close>

definition Invalid :: status where
  "Invalid = mk_status ''invalid_params'' ''Invalid transfer parameters''"

definition ReadManifest :: "env \<Rightarrow> disk \<Rightarrow> path \<Rightarrow> json" where
  "ReadManifest E d p = (case content d p of None \<Rightarrow> JNull | Some t \<Rightarrow> parse E t)"

definition FileHash :: "env \<Rightarrow> disk \<Rightarrow> path \<Rightarrow> string" where
  "FileHash E d p = (case content d p of None \<Rightarrow> [] | Some s \<Rightarrow> Sha256 E s)"

definition Path :: "env \<Rightarrow> path \<Rightarrow> string \<Rightarrow> string \<Rightarrow> path" where
  "Path E dir session tid = dir @ ''/'' @ Sha256 E (session @ '':'' @ tid)"

definition ends_with :: "string \<Rightarrow> string \<Rightarrow> bool" where
  "ends_with s ending \<longleftrightarrow> suffix ending s"

definition Load :: "env \<Rightarrow> int \<Rightarrow> path \<Rightarrow> disk \<Rightarrow> string \<Rightarrow> string \<Rightarrow> (status \<times> path \<times> json) option" where
  "Load E now dir d session tid =
     (let p = Path E dir session tid; manifest = ReadManifest E d (p @ ''.json'') in
      if \<not> is_object manifest then
        Some (mk_status ''resource_not_found'' ''Transfer not found'', p, manifest)
      else do {
        expires \<leftarrow> get_int64 (jat manifest ''expires'');
        Some (if expires \<le> now then mk_status ''transfer_expired'' ''Start a new transfer'' else Ok,
              p, manifest) })"

subsection \<open>Writing at an offset\<close>

definition overwrite :: "string \<Rightarrow> nat \<Rightarrow> string \<Rightarrow> string" where
  "overwrite s offset data =
     (if data = [] then s
      else take offset (s @ replicate (offset - length s) (CHR 0x00)) @ data @ drop (offset + length data) s)"

text \<open>
  The \<open>pwrite\<close> loop, with the same outcomes as the loop \<open>WriteAll\<close>: all bytes, or a proper
  prefix and a failure.
\<close>

definition pwrite_all :: "disk \<Rightarrow> path \<Rightarrow> nat \<Rightarrow> string \<Rightarrow> bool \<times> disk" where
  "pwrite_all d p offset data =
     (let old = (case content d p of Some s \<Rightarrow> s | None \<Rightarrow> []) in
      if data = [] then (True, d)
      else (case fault d (tick d) of
              None \<Rightarrow> (True, next_call (set_file d p (overwrite old offset data)))
            | Some k \<Rightarrow> (False, next_call (set_file d p
                (overwrite old offset (take (min k (length data - 1)) data))))))"

definition ftruncate_file :: "disk \<Rightarrow> path \<Rightarrow> nat \<Rightarrow> bool \<times> disk" where
  "ftruncate_file d p len =
     (let old = (case content d p of Some s \<Rightarrow> s | None \<Rightarrow> []) in
      if sys_ok d
      then (True, next_call (set_file d p (take len (old @ replicate (len - length old) (CHR 0x00)))))
      else (False, next_call d))"

text \<open>\<open>open\<close> with \<open>O_WRONLY\<close>.\<close>

definition open_existing :: "disk \<Rightarrow> path \<Rightarrow> bool \<times> disk" where
  "open_existing d p = (content d p \<noteq> None \<and> sys_ok d, next_call d)"

subsection \<open>Operations\<close>

definition kTransferQuota :: nat where "kTransferQuota = 256 * 1024 * 1024"

text \<open>The scan of the other manifests: reserved bytes (a \<open>uint64_t\<close>) and transfers of the session.\<close>

fun count_reserved :: "env \<Rightarrow> disk \<Rightarrow> string \<Rightarrow> path list \<Rightarrow> nat \<Rightarrow> nat \<Rightarrow> (nat \<times> nat) option" where
  "count_reserved E d session [] reserved count = Some (reserved, count)"
| "count_reserved E d session (entry # entries) reserved count =
     (if \<not> ends_with entry ''.json'' then count_reserved E d session entries reserved count
      else
        (let other = ReadManifest E d entry in
         if \<not> is_object other then count_reserved E d session entries reserved count
         else do {
           n \<leftarrow> get_uint64 (jat other ''total'');
           count_reserved E d session entries ((reserved + n) mod 2 ^ 64)
             (if json_eq (jat other ''session'') (JString session) then Suc count else count) }))"

type_synonym reply = "(status \<times> json \<times> disk) option"

text \<open>The common end of \<open>Handle\<close>: persist the manifest and answer from it.\<close>

definition save_manifest :: "env \<Rightarrow> disk \<Rightarrow> path \<Rightarrow> string \<Rightarrow> json \<Rightarrow> reply" where
  "save_manifest E d p tid manifest = do {
     t \<leftarrow> dump E manifest;
     let (s, d') = WriteAtomic d (p @ ''.json'') t;
     Some (s, if \<not> st_ok s then JNull
              else jobj [(''transfer'', JString tid), (''next_seq'', jat manifest ''next_seq''),
                         (''bytes'', jat manifest ''bytes''), (''committed'', jat manifest ''committed'')], d') }"

definition handle_begin ::
  "env \<Rightarrow> int \<Rightarrow> path \<Rightarrow> disk \<Rightarrow> string \<Rightarrow> string \<Rightarrow> json \<Rightarrow> reply" where
  "handle_begin E now dir d session tid params =
     (let p = Path E dir session tid in
      if jsize params \<noteq> 3 \<or> \<not> contains params ''bytes'' \<or>
         \<not> IsUnsigned (jat params ''bytes'') kUploadBytes \<or>
         \<not> contains params ''sha256'' \<or> \<not> is_string (jat params ''sha256'') then Some (Invalid, JNull, d)
      else
        (let sha = jtext (jat params ''sha256'') in
         if length sha \<noteq> 64 \<or> \<not> list_all (\<lambda>c. c \<in> set kHex) sha then Some (Invalid, JNull, d)
         else
           (let manifest = ReadManifest E d (p @ ''.json'') in
            if is_object manifest then
              (if \<not> json_eq (jat manifest ''total'') (jat params ''bytes'') \<or>
                  \<not> json_eq (jat manifest ''sha256'') (jat params ''sha256'')
               then Some (mk_status ''id_conflict'' ''Transfer ID already has a different manifest'', JNull, d)
               else Some (Ok, jobj [(''transfer'', JString tid), (''next_seq'', jat manifest ''next_seq''),
                                    (''committed'', jat manifest ''committed'')], d))
            else
              (let (listed, entries, d1) = ListFiles d dir in
               if \<not> st_ok listed then Some (listed, JNull, d1)
               else do {
                 (reserved, count) \<leftarrow> count_reserved E d1 session entries 0 0;
                 if 4 \<le> count \<or> kTransferQuota < (reserved + juint (jat params ''bytes'')) mod 2 ^ 64
                 then Some (mk_status ''quota_exceeded'' ''Transfer reservation quota exceeded'', JNull, d1)
                 else
                   (let (s, d2) = WriteAtomic d1 (p @ ''.data'') [] in
                    if \<not> st_ok s then Some (s, JNull, d2)
                    else save_manifest E d2 p tid
                      (jobj [(''session'', JString session), (''total'', jat params ''bytes''),
                             (''sha256'', JString sha), (''bytes'', JInt 0), (''next_seq'', JInt 0),
                             (''last_hash'', JString []), (''expires'', JInt (now + 600)),
                             (''committed'', JBool False)])) }))))"

definition write_chunk :: "disk \<Rightarrow> path \<Rightarrow> nat \<Rightarrow> string \<Rightarrow> bool \<times> disk" where
  "write_chunk d file offset data =
     (let (wrote, d1) = pwrite_all d file offset data;
          (cut, d2) = (if wrote then ftruncate_file d1 file (offset + length data) else (False, d1)) in
      if cut then sync_call d2 else (False, d2))"

definition append_chunk ::
  "env \<Rightarrow> disk \<Rightarrow> path \<Rightarrow> string \<Rightarrow> json \<Rightarrow> nat \<Rightarrow> nat \<Rightarrow> string \<Rightarrow> reply" where
  "append_chunk E d p tid manifest nxt offset data =
     (let (opened, d1) = open_existing d (p @ ''.data'') in
      if \<not> opened then Some (mk_status ''storage_error'' ''Cannot open transfer'', JNull, d1)
      else
        (let (written, d2) = write_chunk d1 (p @ ''.data'') offset data in
         if \<not> written then
           Some (mk_status ''storage_error'' ''Cannot persist transfer chunk'', JNull, d2)
         else save_manifest E d2 p tid
           (jset (jset (jset manifest ''bytes'' (JUint (offset + length data)))
                    ''next_seq'' (JUint (nxt + 1)))
              ''last_hash'' (JString (Sha256 E data)))))"

definition handle_chunk :: "env \<Rightarrow> disk \<Rightarrow> path \<Rightarrow> string \<Rightarrow> json \<Rightarrow> json \<Rightarrow> reply" where
  "handle_chunk E d p tid manifest params =
     (if jsize params \<noteq> 3 \<or> \<not> contains params ''seq'' \<or> \<not> IsUnsigned (jat params ''seq'') UINT32_MAX \<or>
         \<not> contains params ''data'' \<or> \<not> is_string (jat params ''data'') then Some (Invalid, JNull, d)
      else do {
        let seq = juint (jat params ''seq'');
        nxt \<leftarrow> get_uint64 (jat manifest ''next_seq'');
        let data = jtext (jat params ''data'');
        if data = [] then Some (Invalid, JNull, d)
        else do {
          repeated \<leftarrow> (if 0 < nxt \<and> seq = nxt - 1
                       then map_option (\<lambda>h. Sha256 E data = h) (get_string (jat manifest ''last_hash''))
                       else Some False);
          if repeated then Some (Ok, jobj [(''transfer'', JString tid), (''next_seq'', JUint nxt)], d)
          else if json_eq (jat manifest ''committed'') (JBool True) then
            Some (mk_status ''transfer_committed'' ''Committed transfers are immutable'', JNull, d)
          else if seq \<noteq> nxt then
            Some (mk_status ''sequence_mismatch'' ''Resume from transfer.status next_seq'', JNull, d)
          else do {
            offset \<leftarrow> get_uint64 (jat manifest ''bytes'');
            tot \<leftarrow> get_uint64 (jat manifest ''total'');
            if tot < (offset + length data) mod 2 ^ 64 then
              Some (mk_status ''payload_too_large'' ''Chunk exceeds declared transfer length'', JNull, d)
            else append_chunk E d p tid manifest nxt offset data } } })"

definition handle_commit :: "env \<Rightarrow> disk \<Rightarrow> path \<Rightarrow> string \<Rightarrow> json \<Rightarrow> json \<Rightarrow> reply" where
  "handle_commit E d p tid manifest params =
     (if jsize params \<noteq> 1 then Some (Invalid, JNull, d)
      else if \<not> json_eq (jat manifest ''bytes'') (jat manifest ''total'') then
        Some (mk_status ''transfer_incomplete'' ''Declared bytes have not arrived'', JNull, d)
      else do {
        sha \<leftarrow> get_string (jat manifest ''sha256'');
        if FileHash E d (p @ ''.data'') \<noteq> sha then
          Some (mk_status ''checksum_mismatch'' ''SHA-256 does not match'', JNull, d)
        else save_manifest E d p tid (jset manifest ''committed'' (JBool True)) })"

definition Handle ::
  "env \<Rightarrow> int \<Rightarrow> path \<Rightarrow> disk \<Rightarrow> string \<Rightarrow> string \<Rightarrow> json \<Rightarrow> reply" where
  "Handle E now dir d session method params =
     (if \<not> contains params ''transfer'' \<or> \<not> IsId (jat params ''transfer'') then Some (Invalid, JNull, d)
      else
        (let tid = jtext (jat params ''transfer'') in
         if method = ''transfer.begin'' then handle_begin E now dir d session tid params
         else do {
           (s, p, manifest) \<leftarrow> Load E now dir d session tid;
           if \<not> st_ok s then Some (s, JNull, d)
           else if method = ''transfer.chunk'' then handle_chunk E d p tid manifest params
           else if method = ''transfer.commit'' then handle_commit E d p tid manifest params
           else if method = ''transfer.status'' then
             (if jsize params \<noteq> 1 then Some (Invalid, JNull, d) else save_manifest E d p tid manifest)
           else Some (mk_status ''method_not_found'' ''Unknown transfer method'', JNull, d) }))"

definition resolve_text :: "string \<Rightarrow> string" where
  "resolve_text body =
     [CHR ''{'', CHR 34] @ ''id'' @ [CHR 34, CHR '':'', CHR 34] @ ''transfer'' @ [CHR 34, CHR '','', CHR 34] @
     ''method'' @ [CHR 34, CHR '':'', CHR 34] @ ''resolve'' @ [CHR 34, CHR '','', CHR 34] @ ''params'' @
     [CHR 34, CHR '':''] @ body @ ''}''"

definition Resolve ::
  "env \<Rightarrow> int \<Rightarrow> path \<Rightarrow> disk \<Rightarrow> string \<Rightarrow> string \<Rightarrow> (status \<times> json) option" where
  "Resolve E now dir d session tid = do {
     (s, p, manifest) \<leftarrow> Load E now dir d session tid;
     if \<not> st_ok s then Some (s, JNull)
     else if \<not> json_eq (jat manifest ''committed'') (JBool True) then
       Some (mk_status ''transfer_incomplete'' ''Commit before using params_ref'', JNull)
     else do {
       tot \<leftarrow> get_uint64 (jat manifest ''total'');
       if kParamsBytes < tot then Some (mk_status ''payload_too_large'' ''JSON parameters exceed 16 MiB'', JNull)
       else
         (let body = (case content d (p @ ''.data'') of Some t \<Rightarrow> t | None \<Rightarrow> []);
              (s', envelope) = ParseRequest E (resolve_text body) (kParamsBytes + 128) in
          if \<not> st_ok s' then
            Some (mk_status ''invalid_params''
              ''Transfer must contain a JSON parameter object within the adapter limit'', JNull)
          else Some (Ok, jat envelope ''params'')) } }"

fun expire_entries :: "env \<Rightarrow> int \<Rightarrow> disk \<Rightarrow> path list \<Rightarrow> disk option" where
  "expire_entries E now d [] = Some d"
| "expire_entries E now d (entry # entries) =
     (if \<not> ends_with entry ''.json'' then expire_entries E now d entries
      else
        (let manifest = ReadManifest E d entry in
         if \<not> is_object manifest then expire_entries E now d entries
         else do {
           expires \<leftarrow> get_int64 (jat manifest ''expires'');
           if now < expires then expire_entries E now d entries
           else
             (let (_, d1) = unlink_file d (take (length entry - 5) entry @ ''.data'');
                  (_, d2) = unlink_file d1 entry in
              expire_entries E now d2 entries) }))"

definition Expire :: "env \<Rightarrow> int \<Rightarrow> path \<Rightarrow> disk \<Rightarrow> disk option" where
  "Expire E now dir d =
     (let (s, entries, d1) = ListFiles d dir in
      if \<not> st_ok s then Some d1 else expire_entries E now d1 entries)"

end
