(* ===== verification/Uploads_Props.thy ===== *)
theory Uploads_Props
  imports Uploads
begin

text \<open>
  Correctness of the upload manager: what each file holds, the frame of every operation, the
  invariant of the upload directory, sequencing of chunks, and a whole upload.
\<close>

subsection \<open>Manifests\<close>

record manifest =
  mf_session :: string
  mf_total :: nat
  mf_sha :: string
  mf_bytes :: nat
  mf_next :: nat
  mf_last :: string
  mf_expires :: nat
  mf_committed :: bool

definition manifest_json :: "manifest \<Rightarrow> json" where
  "manifest_json m = JObject
     [(''bytes'', JUint (mf_bytes m)), (''committed'', JBool (mf_committed m)),
      (''expires'', JUint (mf_expires m)), (''last_hash'', JString (mf_last m)),
      (''next_seq'', JUint (mf_next m)), (''session'', JString (mf_session m)),
      (''sha256'', JString (mf_sha m)), (''total'', JUint (mf_total m))]"

lemma manifest_sel [simp]:
  "is_object (manifest_json m)"
  "jat (manifest_json m) ''session'' = JString (mf_session m)"
  "jat (manifest_json m) ''total'' = JUint (mf_total m)"
  "jat (manifest_json m) ''sha256'' = JString (mf_sha m)"
  "jat (manifest_json m) ''bytes'' = JUint (mf_bytes m)"
  "jat (manifest_json m) ''next_seq'' = JUint (mf_next m)"
  "jat (manifest_json m) ''last_hash'' = JString (mf_last m)"
  "jat (manifest_json m) ''expires'' = JUint (mf_expires m)"
  "jat (manifest_json m) ''committed'' = JBool (mf_committed m)"
  by (simp_all add: manifest_json_def jat_def)

lemma manifest_upd [simp]:
  "jset (manifest_json m) ''bytes'' (JUint n) = manifest_json (m\<lparr>mf_bytes := n\<rparr>)"
  "jset (manifest_json m) ''next_seq'' (JUint n) = manifest_json (m\<lparr>mf_next := n\<rparr>)"
  "jset (manifest_json m) ''last_hash'' (JString h) = manifest_json (m\<lparr>mf_last := h\<rparr>)"
  "jset (manifest_json m) ''committed'' (JBool b) = manifest_json (m\<lparr>mf_committed := b\<rparr>)"
  by (simp_all add: manifest_json_def)

lemma norm_manifest [simp]: "norm_json (manifest_json m) = manifest_json m"
  by (simp add: manifest_json_def)

lemma manifest_json_inject [simp]: "manifest_json m = manifest_json m' \<longleftrightarrow> m = m'"
  by (auto simp: manifest_json_def)

definition fresh_manifest :: "int \<Rightarrow> string \<Rightarrow> nat \<Rightarrow> string \<Rightarrow> manifest" where
  "fresh_manifest now session n sha =
     \<lparr>mf_session = session, mf_total = n, mf_sha = sha, mf_bytes = 0, mf_next = 0, mf_last = [],
      mf_expires = nat (now + 600), mf_committed = False\<rparr>"

abbreviation begin_json :: "int \<Rightarrow> string \<Rightarrow> nat \<Rightarrow> string \<Rightarrow> json" where
  "begin_json now session n sha \<equiv>
     jobj [(''session'', JString session), (''total'', JUint n), (''sha256'', JString sha),
           (''bytes'', JInt 0), (''next_seq'', JInt 0), (''last_hash'', JString []),
           (''expires'', JInt (now + 600)), (''committed'', JBool False)]"

lemma begin_json_eq:
  "begin_json now session n sha = JObject
     [(''bytes'', JInt 0), (''committed'', JBool False), (''expires'', JInt (now + 600)),
      (''last_hash'', JString []), (''next_seq'', JInt 0), (''session'', JString session),
      (''sha256'', JString sha), (''total'', JUint n)]"
  by (simp add: jobj_def)

definition text_ok :: "manifest \<Rightarrow> bool" where
  "text_ok m \<longleftrightarrow> ascii (mf_session m) \<and> ascii (mf_sha m) \<and> ascii (mf_last m) \<and>
     mf_total m < 2 ^ 63 \<and> mf_bytes m < 2 ^ 63 \<and> mf_next m < 2 ^ 63 \<and> mf_expires m < 2 ^ 63"

lemma ascii_literals [simp]:
  "ascii ''bytes''" "ascii ''committed''" "ascii ''expires''" "ascii ''last_hash''" "ascii ''next_seq''"
  "ascii ''session''" "ascii ''sha256''" "ascii ''total''" "ascii []"
  by (simp_all add: ascii_def)

lemma document_manifest: "text_ok m \<Longrightarrow> document (manifest_json m)"
  by (simp add: manifest_json_def text_ok_def keys_sorted_def)

lemma document_begin:
  "ascii session \<Longrightarrow> ascii sha \<Longrightarrow> n < 2 ^ 63 \<Longrightarrow> 0 \<le> now \<Longrightarrow> now + 600 < 2 ^ 63 \<Longrightarrow>
   document (begin_json now session n sha) \<and>
   norm_json (begin_json now session n sha) = manifest_json (fresh_manifest now session n sha)"
  unfolding begin_json_eq by (simp add: keys_sorted_def manifest_json_def fresh_manifest_def)

lemma Hex_ascii: "ascii (Hex s)"
proof -
  have "list_all (\<lambda>c. of_char c < (128 :: nat)) kHex" by code_simp
  then show ?thesis by (auto simp: ascii_def list_all_iff dest: Hex_chars)
qed

lemma Sha256_ascii [simp]: "ascii (Sha256 E s)"
  by (simp add: Sha256_def Hex_ascii)

lemma hex_ascii: "list_all (\<lambda>c. c \<in> set kHex) sha \<Longrightarrow> ascii sha"
proof -
  have "list_all (\<lambda>c. of_char c < (128 :: nat)) kHex" by code_simp
  then show "list_all (\<lambda>c. c \<in> set kHex) sha \<Longrightarrow> ascii sha" by (auto simp: ascii_def list_all_iff)
qed

subsection \<open>The directory\<close>

lemma ParentDirectory_join:
  assumes "dir \<noteq> []" and "CHR ''/'' \<notin> set x"
  shows "ParentDirectory (dir @ ''/'' @ x) = dir"
proof -
  have "dropWhile (\<lambda>c. c \<noteq> CHR ''/'') (rev (dir @ ''/'' @ x)) = CHR ''/'' # rev dir"
    using assms(2) by (auto simp: dropWhile_append3)
  then show ?thesis using assms(1) by (simp add: ParentDirectory_def)
qed

lemma Sha256_no_slash: "CHR ''/'' \<notin> set (Sha256 E s)"
  using Hex_chars [of "CHR ''/''" "digest E s"] by (auto simp: Sha256_def kHex_def)

lemma Path_parent:
  "dir \<noteq> [] \<Longrightarrow> CHR ''/'' \<notin> set ext \<Longrightarrow> ParentDirectory (Path E dir session tid @ ext) = dir"
  using ParentDirectory_join [of dir "Sha256 E (session @ '':'' @ tid) @ ext"] Sha256_no_slash
  by (simp add: Path_def)

lemma ends_with_simps [simp]:
  "ends_with (p @ ''.json'') ''.json''" "\<not> ends_with (p @ ''.data'') ''.json''"
  "\<not> ends_with (p @ ''.json.tmp'') ''.json''" "\<not> ends_with (p @ ''.data.tmp'') ''.json''"
  by (auto simp: ends_with_def suffix_def)

definition stored :: "env \<Rightarrow> disk \<Rightarrow> path \<Rightarrow> manifest \<Rightarrow> bool" where
  "stored E d p m \<longleftrightarrow> ReadManifest E d (p @ ''.json'') = manifest_json m"

definition data_ok :: "env \<Rightarrow> manifest \<Rightarrow> string \<Rightarrow> bool" where
  "data_ok E m s \<longleftrightarrow> mf_bytes m \<le> length s \<and> (mf_bytes m = mf_total m \<longrightarrow> length s = mf_total m) \<and>
     (mf_committed m \<longrightarrow> mf_bytes m = mf_total m \<and> Sha256 E s = mf_sha m)"

definition transfer_ok :: "env \<Rightarrow> disk \<Rightarrow> path \<Rightarrow> manifest \<Rightarrow> bool" where
  "transfer_ok E d p m \<longleftrightarrow>
     text_ok m \<and> mf_next m \<le> mf_bytes m \<and> mf_bytes m \<le> mf_total m \<and> mf_total m \<le> kUploadBytes \<and>
     (\<forall>s. content d (p @ ''.data'') = Some s \<longrightarrow> data_ok E m s)"

text \<open>
  The invariant of an upload directory: every manifest in it can be read back and agrees with its
  data file. In particular the data of a committed transfer has the announced length and digest.
\<close>

definition uploads_inv :: "env \<Rightarrow> path \<Rightarrow> disk \<Rightarrow> bool" where
  "uploads_inv E dir d \<longleftrightarrow> wf_disk d \<and>
     (\<forall>q. content d q \<noteq> None \<and> ParentDirectory q = dir \<and> ends_with q ''.json'' \<longrightarrow>
        (\<exists>p m. q = p @ ''.json'' \<and> stored E d p m \<and> transfer_ok E d p m))"

definition own_files :: "path \<Rightarrow> path set" where
  "own_files p = {p @ ''.json'', p @ ''.json.tmp'', p @ ''.data'', p @ ''.data.tmp''}"

definition touches_only :: "path \<Rightarrow> disk \<Rightarrow> disk \<Rightarrow> bool" where
  "touches_only p d d' \<longleftrightarrow> (wf_disk d \<longrightarrow> wf_disk d') \<and> (\<forall>q. q \<notin> own_files p \<longrightarrow> content d' q = content d q)"

lemma touches_only_refl [simp]: "touches_only p d d"
  by (simp add: touches_only_def)

lemma touches_only_trans: "touches_only p d d1 \<Longrightarrow> touches_only p d1 d2 \<Longrightarrow> touches_only p d d2"
  by (simp add: touches_only_def)

lemma touches_only_calls [simp]:
  "touches_only p d (next_call d)"
  "touches_only p d (snd (sync_call d))"
  "touches_only p d (snd (open_existing d q))"
  by (simp_all add: touches_only_def io_simps sync_call_def open_existing_def)

lemma touches_only_set_file: "q \<in> own_files p \<Longrightarrow> touches_only p d (next_call (set_file d q s))"
  by (auto simp: touches_only_def io_simps distinct_update)

lemma own_filesI [simp]:
  "p @ ''.json'' \<in> own_files p" "p @ ''.data'' \<in> own_files p"
  "p @ ''.json.tmp'' \<in> own_files p" "p @ ''.data.tmp'' \<in> own_files p"
  by (simp_all add: own_files_def)

lemma touches_only_pwrite: "pwrite_all d (p @ ''.data'') ofs x = (r, d') \<Longrightarrow> touches_only p d d'"
proof (cases "x = []")
  case False
  moreover have "touches_only p d (next_call (set_file d (p @ ''.data'') y))" for y
    by (rule touches_only_set_file) simp
  ultimately show "pwrite_all d (p @ ''.data'') ofs x = (r, d') \<Longrightarrow> touches_only p d d'"
    by (cases "fault d (tick d)") (auto simp: pwrite_all_def Let_def)
qed (simp add: pwrite_all_def Let_def)

lemma touches_only_ftruncate: "ftruncate_file d (p @ ''.data'') n = (r, d') \<Longrightarrow> touches_only p d d'"
proof -
  have "touches_only p d (next_call (set_file d (p @ ''.data'') y))" for y
    by (rule touches_only_set_file) simp
  then show "ftruncate_file d (p @ ''.data'') n = (r, d') \<Longrightarrow> touches_only p d d'"
    by (cases "sys_ok d") (auto simp: ftruncate_file_def Let_def)
qed

lemma touches_only_WriteAtomic:
  assumes "WriteAtomic d q s = (r, d')" and "q \<in> {p @ ''.json'', p @ ''.data''}"
  shows "touches_only p d d'"
proof -
  have own: "q \<in> own_files p" "q @ ''.tmp'' \<in> own_files p" using assms(2) by (auto simp: own_files_def)
  have "content d' x = content d x" if "x \<notin> own_files p" for x
  proof (rule write_atomic_frame(3) [OF assms(1)])
    show "x \<noteq> q" "x \<noteq> q @ ''.tmp''" using own that by blast+
  qed
  then show ?thesis using wf_disk_write_atomic [OF assms(1)] by (simp add: touches_only_def)
qed

lemma own_files_disjoint:
  assumes "p' \<noteq> p"
  shows "p' @ ''.json'' \<notin> own_files p" and "p' @ ''.data'' \<notin> own_files p"
  using assms by (auto simp: own_files_def)

lemma uploads_inv_frame:
  assumes "uploads_inv E dir d" and "touches_only p d d'"
    and "content d' (p @ ''.json'') \<noteq> None \<Longrightarrow> \<exists>m. stored E d' p m \<and> transfer_ok E d' p m"
  shows "uploads_inv E dir d'"
  unfolding uploads_inv_def
proof (intro conjI allI impI)
  show "wf_disk d'" using assms(1,2) by (simp add: uploads_inv_def touches_only_def)
next
  fix q assume q: "content d' q \<noteq> None \<and> ParentDirectory q = dir \<and> ends_with q ''.json''"
  then obtain p' where p': "q = p' @ ''.json''" by (auto simp: ends_with_def suffix_def)
  show "\<exists>p m. q = p @ ''.json'' \<and> stored E d' p m \<and> transfer_ok E d' p m"
  proof (cases "p' = p")
    case True
    then show ?thesis using assms(3) q p' by auto
  next
    case False
    then have same: "content d' (p' @ ''.json'') = content d (p' @ ''.json'')"
        "content d' (p' @ ''.data'') = content d (p' @ ''.data'')"
      using assms(2) own_files_disjoint by (auto simp: touches_only_def)
    then obtain p2 m where "q = p2 @ ''.json''" "stored E d p2 m" "transfer_ok E d p2 m"
      using assms(1) q p' unfolding uploads_inv_def by metis
    then show ?thesis using same p' by (auto simp: stored_def transfer_ok_def ReadManifest_def)
  qed
qed

subsection \<open>Persisting a manifest\<close>

definition manifest_reply :: "string \<Rightarrow> manifest \<Rightarrow> json" where
  "manifest_reply tid m = JObject [(''bytes'', JUint (mf_bytes m)), (''committed'', JBool (mf_committed m)),
     (''next_seq'', JUint (mf_next m)), (''transfer'', JString tid)]"

definition same_data :: "path \<Rightarrow> disk \<Rightarrow> disk \<Rightarrow> bool" where
  "same_data p d d' \<longleftrightarrow> content d' (p @ ''.data'') = content d (p @ ''.data'')"

text \<open>
  Every way an update of the manifest can end: the old manifest or the new one is in place, the new
  one whenever success is reported, and the data file is as it was.
\<close>

definition updated :: "env \<Rightarrow> path \<Rightarrow> disk \<Rightarrow> manifest \<Rightarrow> reply \<Rightarrow> bool" where
  "updated E p d m r \<longleftrightarrow> (\<exists>s j d'. r = Some (s, j, d') \<and> touches_only p d d' \<and> same_data p d d' \<and>
     (content d' (p @ ''.json'') = content d (p @ ''.json'') \<or> stored E d' p m) \<and>
     (st_ok s \<longrightarrow> stored E d' p m))"

lemma save_manifest_updated:
  assumes "json_codec E" and "document j" and "norm_json j = manifest_json m"
  shows "updated E p d m (save_manifest E d p tid j)"
proof -
  obtain t where t: "dump E j = Some t" "parse E t = manifest_json m"
    using assms by (auto simp: json_codec_def)
  obtain s d' where w: "WriteAtomic d (p @ ''.json'') t = (s, d')" by force
  have "same_data p d d'"
    unfolding same_data_def by (rule write_atomic_frame(3) [OF w]) simp_all
  moreover have "touches_only p d d'" by (rule touches_only_WriteAtomic [OF w]) simp
  moreover have "content d' (p @ ''.json'') = Some t \<Longrightarrow> stored E d' p m"
    by (simp add: stored_def ReadManifest_def t(2))
  ultimately show ?thesis
    using write_atomic_frame(1,2) [OF w] by (auto simp: updated_def save_manifest_def t(1) w)
qed

lemma save_manifest_reply:
  assumes "save_manifest E d p tid (manifest_json m) = Some (s, j, d')"
  shows "j = (if st_ok s then manifest_reply tid m else JNull)"
  using assms by (auto simp: save_manifest_def manifest_reply_def jobj_def Option.bind_eq_Some_conv case_prod_beta)

lemma updated_transfer_ok:
  assumes "updated E p d m (Some (s, j, d'))" and "stored E d p m0" "transfer_ok E d p m0"
    and "text_ok m" "mf_next m \<le> mf_bytes m" "mf_bytes m \<le> mf_total m" "mf_total m \<le> kUploadBytes"
    and "\<And>x. content d (p @ ''.data'') = Some x \<Longrightarrow> data_ok E m x"
  shows "\<exists>m'. m' \<in> {m0, m} \<and> stored E d' p m' \<and> transfer_ok E d' p m'"
proof -
  from assms(1) have u: "content d' (p @ ''.data'') = content d (p @ ''.data'')"
    "content d' (p @ ''.json'') = content d (p @ ''.json'') \<or> stored E d' p m"
    by (auto simp: updated_def same_data_def)
  have "transfer_ok E d' p m" "transfer_ok E d' p m0"
    using assms(3-8) u(1) by (auto simp: transfer_ok_def)
  then show ?thesis using u(2) assms(2) by (auto simp: stored_def ReadManifest_def)
qed

subsection \<open>Chunks\<close>

lemma overwrite_prefix:
  assumes "ofs \<le> length s"
  shows "take ofs (overwrite s ofs x) = take ofs s" and "ofs \<le> length (overwrite s ofs x)"
    and "length x = n \<Longrightarrow> take (ofs + n) (overwrite s ofs x) = take ofs s @ x"
    and "ofs + length x \<le> length (overwrite s ofs x)"
  using assms by (auto simp: overwrite_def)

definition chunk_written :: "path \<Rightarrow> disk \<Rightarrow> disk \<Rightarrow> nat \<Rightarrow> string \<Rightarrow> bool \<Rightarrow> bool" where
  "chunk_written q d d' ofs x ok \<longleftrightarrow> (\<exists>s s'. content d q = Some s \<and> content d' q = Some s' \<and>
     take ofs s' = take ofs s \<and> ofs \<le> length s' \<and> (ok \<longrightarrow> s' = take ofs s @ x))"

lemma pwrite_all_content:
  assumes "pwrite_all d q ofs x = (r, d')" and "content d q = Some s" and "x \<noteq> []"
  shows "\<exists>n \<le> length x. content d' q = Some (overwrite s ofs (take n x)) \<and> (r \<longrightarrow> n = length x)"
proof (cases "fault d (tick d)")
  case None
  with assms show ?thesis by (intro exI [of _ "length x"]) (auto simp: pwrite_all_def io_simps)
next
  case (Some k)
  with assms show ?thesis
    by (intro exI [of _ "min k (length x - 1)"]) (auto simp: pwrite_all_def io_simps)
qed

lemma write_chunk_written:
  assumes w: "write_chunk d q ofs x = (ok, d')" and s: "content d q = Some s" "ofs \<le> length s" and x: "x \<noteq> []"
  shows "chunk_written q d d' ofs x ok"
proof -
  obtain r d1 where p: "pwrite_all d q ofs x = (r, d1)" by force
  obtain n where n: "n \<le> length x" "r \<longrightarrow> n = length x"
    "content d1 q = Some (overwrite s ofs (take n x))"
    using pwrite_all_content [OF p s(1) x] by blast
  show ?thesis
  proof (cases r)
    case False
    then show ?thesis
      using w p n s overwrite_prefix [OF s(2)] by (auto simp: write_chunk_def chunk_written_def)
  next
    case True
    then have c1: "content d1 q = Some (overwrite s ofs x)" using n by simp
    have cut: "take (ofs + length x) (overwrite s ofs x) = take ofs s @ x"
      "ofs + length x \<le> length (overwrite s ofs x)"
      using overwrite_prefix [OF s(2)] by auto
    show ?thesis
    proof (cases "sys_ok d1")
      case True
      then show ?thesis
        using w p \<open>r\<close> c1 cut s
        by (auto simp: write_chunk_def chunk_written_def ftruncate_file_def io_simps sync_call_def)
    next
      case False
      then show ?thesis
        using w p \<open>r\<close> c1 s overwrite_prefix [OF s(2)]
        by (auto simp: write_chunk_def chunk_written_def ftruncate_file_def io_simps)
    qed
  qed
qed

lemma touches_only_write_chunk:
  assumes "write_chunk d (p @ ''.data'') ofs x = (r, d')"
  shows "touches_only p d d'"
proof -
  obtain r1 d1 where p: "pwrite_all d (p @ ''.data'') ofs x = (r1, d1)" by force
  obtain r2 d2 where f: "ftruncate_file d1 (p @ ''.data'') (ofs + length x) = (r2, d2)" by force
  have "touches_only p d d1" "touches_only p d d2" "touches_only p d (snd (sync_call d2))"
    using touches_only_pwrite [OF p] touches_only_ftruncate [OF f] touches_only_calls(2) touches_only_trans
    by blast+
  then show ?thesis using assms p f by (auto simp: write_chunk_def split: if_splits)
qed

lemma write_chunk_json: "write_chunk d (p @ ''.data'') ofs x = (r, d') \<Longrightarrow> content d' (p @ ''.json'') = content d (p @ ''.json'')"
  by (auto simp: write_chunk_def pwrite_all_def ftruncate_file_def sync_call_def io_simps Let_def
      split: prod.splits if_splits option.splits)

definition received :: "disk \<Rightarrow> path \<Rightarrow> manifest \<Rightarrow> string" where
  "received d p m = take (mf_bytes m) (case content d (p @ ''.data'') of Some s \<Rightarrow> s | None \<Rightarrow> [])"

definition next_manifest :: "env \<Rightarrow> manifest \<Rightarrow> string \<Rightarrow> manifest" where
  "next_manifest E m x =
     m\<lparr>mf_bytes := mf_bytes m + length x, mf_next := mf_next m + 1, mf_last := Sha256 E x\<rparr>"

definition same_files :: "disk \<Rightarrow> disk \<Rightarrow> bool" where
  "same_files d d' \<longleftrightarrow> files d' = files d"

text \<open>
  A chunk was attempted: the transfer is as before (perhaps with bytes beyond the acknowledged
  ones), or the chunk has been appended to the acknowledged bytes.
\<close>

definition attempted :: "env \<Rightarrow> path \<Rightarrow> disk \<Rightarrow> manifest \<Rightarrow> string \<Rightarrow> status \<Rightarrow> disk \<Rightarrow> bool" where
  "attempted E p d m x s d' \<longleftrightarrow>
     (stored E d' p m \<and> transfer_ok E d' p m \<and> received d' p m = received d p m \<and> \<not> st_ok s) \<or>
     (stored E d' p (next_manifest E m x) \<and> transfer_ok E d' p (next_manifest E m x) \<and>
      received d' p (next_manifest E m x) = received d p m @ x)"

lemma kUploadBytes_small: "kUploadBytes < 2 ^ 63"
  by (simp add: kUploadBytes_def)

lemma transfer_ok_bounds:
  assumes "transfer_ok E d p m"
  shows "mf_next m \<le> mf_bytes m" "mf_bytes m \<le> mf_total m" "mf_total m \<le> kUploadBytes"
    "get_uint64 (JUint (mf_next m)) = Some (mf_next m)" "get_uint64 (JUint (mf_bytes m)) = Some (mf_bytes m)"
    "get_uint64 (JUint (mf_total m)) = Some (mf_total m)"
    "get_int64 (JUint (mf_expires m)) = Some (int (mf_expires m))"
  using assms by (auto simp: transfer_ok_def text_ok_def)

lemma next_manifest_ok:
  assumes "transfer_ok E d p m" and "\<not> mf_committed m" and "mf_bytes m + length x \<le> mf_total m" "x \<noteq> []"
    and "content d' (p @ ''.data'') = Some s" "length s = mf_bytes m + length x"
  shows "transfer_ok E d' p (next_manifest E m x)"
proof -
  have "Suc (mf_next m) \<le> mf_bytes m + length x"
    using assms(1,4) by (cases x) (auto simp: transfer_ok_def)
  then show ?thesis
    using assms(1-3,5,6) kUploadBytes_small
    by (auto simp: transfer_ok_def text_ok_def next_manifest_def data_ok_def)
qed

lemma same_files_content: "same_files d d' \<Longrightarrow> content d' q = content d q"
  by (simp add: same_files_def content_def)

lemma stored_cong: "content d' (p @ ''.json'') = content d (p @ ''.json'') \<Longrightarrow> stored E d' p m = stored E d p m"
  by (simp add: stored_def ReadManifest_def)

lemma append_chunk_attempted:
  assumes E: "json_codec E" and m: "stored E d p m" "transfer_ok E d p m" "\<not> mf_committed m"
    and x: "x \<noteq> []" "mf_bytes m + length x \<le> mf_total m"
  shows "\<exists>s j d'. append_chunk E d p tid (manifest_json m) (mf_next m) (mf_bytes m) x = Some (s, j, d') \<and>
    touches_only p d d' \<and> attempted E p d m x s d'"
proof (cases "content d (p @ ''.data'') \<noteq> None \<and> sys_ok d")
  case False
  have "transfer_ok E (next_call d) p m" "stored E (next_call d) p m" "received (next_call d) p m = received d p m"
    using m by (simp_all add: transfer_ok_def stored_def ReadManifest_def received_def io_simps)
  with False show ?thesis
    by (simp add: append_chunk_def open_existing_def attempted_def)
next
  case True
  then obtain s where s: "content (next_call d) (p @ ''.data'') = Some s" by (auto simp: io_simps)
  have le: "mf_bytes m \<le> length s" using m(2) s by (auto simp: transfer_ok_def data_ok_def io_simps)
  obtain ok d2 where w: "write_chunk (next_call d) (p @ ''.data'') (mf_bytes m) x = (ok, d2)" by force
  obtain s2 where s2: "content d2 (p @ ''.data'') = Some s2" "take (mf_bytes m) s2 = take (mf_bytes m) s"
    "mf_bytes m \<le> length s2" "ok \<longrightarrow> s2 = take (mf_bytes m) s @ x"
    using write_chunk_written [OF w s le x(1)] s by (auto simp: chunk_written_def)
  have touch: "touches_only p d d2"
    using touches_only_trans [OF touches_only_calls(1) touches_only_write_chunk [OF w]] .
  have "content d2 (p @ ''.json'') = content d (p @ ''.json'')"
    using write_chunk_json [OF w] by (simp add: io_simps)
  then have json: "stored E d2 p m" using stored_cong m(1) by blast
  have small: "mf_bytes m < mf_total m" using x by (cases x) auto
  have old: "transfer_ok E d2 p m" "received d2 p m = received d p m"
    using m s2 s small by (auto simp: transfer_ok_def data_ok_def received_def io_simps)
  show ?thesis
  proof (cases ok)
    case False
    with True w touch json old show ?thesis
      by (simp add: append_chunk_def open_existing_def attempted_def)
  next
    case ok: True
    let ?m = "next_manifest E m x"
    have len: "length s2 = mf_bytes m + length x" using ok s2(4) le by simp
    have tok: "transfer_ok E d2 p ?m" by (rule next_manifest_ok [OF m(2,3) x(2,1) s2(1) len])
    have doc: "document (manifest_json ?m)"
      using tok by (auto simp: transfer_ok_def intro: document_manifest)
    have r: "append_chunk E d p tid (manifest_json m) (mf_next m) (mf_bytes m) x =
        save_manifest E d2 p tid (manifest_json ?m)"
      using True w ok by (simp add: append_chunk_def open_existing_def next_manifest_def)
    obtain st j d' where u: "save_manifest E d2 p tid (manifest_json ?m) = Some (st, j, d')"
        "touches_only p d2 d'" "content d' (p @ ''.data'') = Some s2"
        "content d' (p @ ''.json'') = content d2 (p @ ''.json'') \<or> stored E d' p ?m" "st_ok st \<longrightarrow> stored E d' p ?m"
      using save_manifest_updated [OF E doc norm_manifest] s2(1) by (fastforce simp: updated_def same_data_def)
    have keep: "transfer_ok E d' p m" "received d' p m = received d p m"
        "transfer_ok E d' p ?m" "received d' p ?m = received d p m @ x"
      using old tok u(3) s2 s ok len by (auto simp: transfer_ok_def received_def next_manifest_def io_simps)
    have "content d' (p @ ''.json'') = content d2 (p @ ''.json'') \<Longrightarrow> stored E d' p m"
      using stored_cong json by blast
    then have "attempted E p d m x st d'" using u(4,5) keep by (auto simp: attempted_def)
    then show ?thesis using r u(1) touches_only_trans [OF touch u(2)] by simp
  qed
qed

subsection \<open>How a transfer can change\<close>

text \<open>
  What one request may do to a transfer: leave its manifest and acknowledged bytes alone (all of
  its data when it is committed), append one chunk in sequence to an uncommitted transfer, or
  commit it once every announced byte has arrived and the digest agrees.
\<close>

inductive evolves :: "env \<Rightarrow> path \<Rightarrow> disk \<Rightarrow> manifest \<Rightarrow> disk \<Rightarrow> manifest \<Rightarrow> bool"
  for E p d m d' where
  same: "received d' p m = received d p m \<Longrightarrow> (mf_committed m \<Longrightarrow> same_data p d d') \<Longrightarrow> evolves E p d m d' m"
| chunk: "\<not> mf_committed m \<Longrightarrow> x \<noteq> [] \<Longrightarrow> mf_bytes m + length x \<le> mf_total m \<Longrightarrow>
    received d' p (next_manifest E m x) = received d p m @ x \<Longrightarrow> evolves E p d m d' (next_manifest E m x)"
| commit: "mf_bytes m = mf_total m \<Longrightarrow> FileHash E d (p @ ''.data'') = mf_sha m \<Longrightarrow> same_data p d d' \<Longrightarrow>
    evolves E p d m d' (m\<lparr>mf_committed := True\<rparr>)"

lemma evolves_files: "(\<And>q. content d' q = content d q) \<Longrightarrow> evolves E p d m d' m"
  by (rule evolves.same) (simp_all add: received_def same_data_def)

text \<open>A handler ran on the transfer at \<open>p\<close> with manifest \<open>m\<close>.\<close>

definition handled :: "env \<Rightarrow> path \<Rightarrow> disk \<Rightarrow> manifest \<Rightarrow> reply \<Rightarrow> bool" where
  "handled E p d m r \<longleftrightarrow> (\<exists>s j d' m'. r = Some (s, j, d') \<and> touches_only p d d' \<and>
     stored E d' p m' \<and> transfer_ok E d' p m' \<and> evolves E p d m d' m')"

lemma handled_same: "stored E d p m \<Longrightarrow> transfer_ok E d p m \<Longrightarrow> handled E p d m (Some (s, j, d))"
  unfolding handled_def using evolves_files touches_only_refl by blast

lemma handled_attempted:
  assumes "r = Some (s, j, d')" and "touches_only p d d'" and "attempted E p d m x s d'"
    and "\<not> mf_committed m" "x \<noteq> []" "mf_bytes m + length x \<le> mf_total m"
  shows "handled E p d m r"
  using assms evolves.same [of d' p m d] evolves.chunk [of m x d' p E d]
  unfolding handled_def attempted_def by blast

lemma handled_updated:
  assumes "updated E p d m' (save_manifest E d p tid j)" and "stored E d p m" "transfer_ok E d p m"
    and "\<And>d'. same_data p d d' \<Longrightarrow> evolves E p d m d' m' \<and> transfer_ok E d' p m'"
  shows "handled E p d m (save_manifest E d p tid j)"
proof -
  obtain s k d' where u: "save_manifest E d p tid j = Some (s, k, d')" "touches_only p d d'" "same_data p d d'"
      "content d' (p @ ''.json'') = content d (p @ ''.json'') \<or> stored E d' p m'"
    using assms(1) by (auto simp: updated_def)
  have "evolves E p d m d' m"
    by (rule evolves.same) (use u(3) in \<open>simp_all add: received_def same_data_def\<close>)
  moreover have "transfer_ok E d' p m" using assms(3) u(3) by (simp add: transfer_ok_def same_data_def)
  moreover have "content d' (p @ ''.json'') = content d (p @ ''.json'') \<Longrightarrow> stored E d' p m"
    using stored_cong assms(2) by blast
  ultimately show ?thesis using u assms(4) unfolding handled_def by blast
qed

lemma handle_chunk_handled:
  assumes E: "json_codec E" and m: "stored E d p m" "transfer_ok E d p m"
    and memory: "length (jtext (jat params ''data'')) < 2 ^ 63"
  shows "handled E p d m (handle_chunk E d p tid (manifest_json m) params)"
proof -
  note same = handled_same [OF m]
  note b = transfer_ok_bounds [OF m(2)]
  define x where "x = jtext (jat params ''data'')"
  show ?thesis
  proof (cases "\<not> mf_committed m \<and> x \<noteq> [] \<and> mf_bytes m + length x \<le> mf_total m")
    case True
    then obtain s j d' where a: "append_chunk E d p tid (manifest_json m) (mf_next m) (mf_bytes m) x = Some (s, j, d')"
        "touches_only p d d'" "attempted E p d m x s d'"
      using append_chunk_attempted [OF E m] by blast
    have "handled E p d m (append_chunk E d p tid (manifest_json m) (mf_next m) (mf_bytes m) x)"
      using handled_attempted [OF a] True by blast
    then show ?thesis using same b(4-6) by (auto simp: handle_chunk_def x_def [symmetric] Let_def)
  next
    case False
    have "(mf_bytes m + length x) mod 2 ^ 64 = mf_bytes m + length x"
      using memory b(2,3) kUploadBytes_small by (simp add: x_def)
    then show ?thesis using same b(4-6) False
      by (auto simp: handle_chunk_def x_def [symmetric] Let_def)
  qed
qed

lemma handle_commit_handled:
  assumes E: "json_codec E" and m: "stored E d p m" "transfer_ok E d p m"
  shows "handled E p d m (handle_commit E d p tid (manifest_json m) params)"
proof -
  let ?m = "m\<lparr>mf_committed := True\<rparr>"
  have doc: "document (manifest_json ?m)"
    using m(2) by (auto simp: transfer_ok_def text_ok_def intro: document_manifest)
  have "handled E p d m (save_manifest E d p tid (manifest_json ?m))"
    if c: "mf_bytes m = mf_total m" "FileHash E d (p @ ''.data'') = mf_sha m"
  proof (rule handled_updated [OF save_manifest_updated [OF E doc norm_manifest] m])
    fix d' assume "same_data p d d'"
    then show "evolves E p d m d' ?m \<and> transfer_ok E d' p ?m"
      using evolves.commit [OF c] m(2) c
      by (auto simp: transfer_ok_def text_ok_def data_ok_def same_data_def FileHash_def)
  qed
  then show ?thesis using handled_same [OF m] by (auto simp: handle_commit_def)
qed

lemma handle_status_handled:
  assumes E: "json_codec E" and m: "stored E d p m" "transfer_ok E d p m"
  shows "handled E p d m (save_manifest E d p tid (manifest_json m))"
proof -
  have doc: "document (manifest_json m)" using m(2) by (auto simp: transfer_ok_def intro: document_manifest)
  show ?thesis
  proof (rule handled_updated [OF save_manifest_updated [OF E doc norm_manifest] m])
    fix d' assume "same_data p d d'"
    then show "evolves E p d m d' m \<and> transfer_ok E d' p m"
      using m(2) evolves.same [of d' p m d] by (simp add: transfer_ok_def received_def same_data_def)
  qed
qed

subsection \<open>Reservations\<close>

definition json_files :: "path \<Rightarrow> disk \<Rightarrow> path set" where
  "json_files dir d = {q. content d q \<noteq> None \<and> ParentDirectory q = dir \<and> ends_with q ''.json''}"

definition reserved_by :: "env \<Rightarrow> disk \<Rightarrow> path \<Rightarrow> nat" where
  "reserved_by E d q = juint (jat (ReadManifest E d q) ''total'')"

definition owned_by :: "env \<Rightarrow> disk \<Rightarrow> string \<Rightarrow> path \<Rightarrow> bool" where
  "owned_by E d session q \<longleftrightarrow> jat (ReadManifest E d q) ''session'' = JString session"

definition reserved_bytes :: "env \<Rightarrow> path \<Rightarrow> disk \<Rightarrow> nat" where
  "reserved_bytes E dir d = (\<Sum>q \<in> json_files dir d. reserved_by E d q)"

definition session_transfers :: "env \<Rightarrow> path \<Rightarrow> disk \<Rightarrow> string \<Rightarrow> nat" where
  "session_transfers E dir d session = card {q \<in> json_files dir d. owned_by E d session q}"

definition quota_inv :: "env \<Rightarrow> path \<Rightarrow> disk \<Rightarrow> bool" where
  "quota_inv E dir d \<longleftrightarrow> reserved_bytes E dir d \<le> kTransferQuota \<and> (\<forall>session. session_transfers E dir d session \<le> 4)"

lemma content_dom: "{q. content d q \<noteq> None} = set (map fst (files d))"
  by (force simp: content_def map_of_eq_None_iff)

lemma finite_json_files [simp]: "finite (json_files dir d)"
proof -
  have "json_files dir d \<subseteq> {q. content d q \<noteq> None}" by (auto simp: json_files_def)
  then show ?thesis unfolding content_dom using finite_subset by blast
qed

lemma ListFiles_entries:
  assumes "ListFiles d dir = (s, entries, d1)" and "wf_disk d" and "st_ok s"
  shows "same_files d d1" and "distinct entries" and "set (filter (\<lambda>q. ends_with q ''.json'') entries) = json_files dir d"
proof -
  have e: "entries = filter (\<lambda>p. ParentDirectory p = dir) (map fst (files d))" and "same_files d d1"
    using assms(1,3) by (auto simp: ListFiles_def io_simps same_files_def Let_def split: if_splits)
  then show "same_files d d1" "distinct entries" using assms(2) by simp_all
  show "set (filter (\<lambda>q. ends_with q ''.json'') entries) = json_files dir d"
    using content_dom [of d] by (auto simp: e json_files_def)
qed

lemma count_reserved_sum:
  assumes "\<forall>q \<in> set entries. ends_with q ''.json'' \<longrightarrow> (\<exists>m. ReadManifest E d q = manifest_json m \<and> text_ok m)"
    and "r < 2 ^ 64"
  shows "count_reserved E d session entries r c =
    Some ((r + (\<Sum>q \<leftarrow> filter (\<lambda>q. ends_with q ''.json'') entries. reserved_by E d q)) mod 2 ^ 64,
          c + length (filter (\<lambda>q. ends_with q ''.json'' \<and> owned_by E d session q) entries))"
  using assms
proof (induction entries arbitrary: r c)
  case (Cons q entries)
  show ?case
  proof (cases "ends_with q ''.json''")
    case False
    with Cons show ?thesis by simp
  next
    case True
    then obtain m where m: "ReadManifest E d q = manifest_json m" "text_ok m" using Cons.prems by auto
    have "get_uint64 (jat (manifest_json m) ''total'') = Some (mf_total m)" "reserved_by E d q = mf_total m"
      using m by (simp_all add: text_ok_def reserved_by_def)
    moreover have "(r + mf_total m) mod 2 ^ 64 < 2 ^ 64" by simp
    ultimately show ?thesis
      using Cons.IH [of "(r + mf_total m) mod 2 ^ 64"] Cons.prems True m
      by (simp add: owned_by_def mod_add_left_eq add.assoc)
  qed
qed simp

lemma uploads_inv_json:
  assumes "uploads_inv E dir d" and "q \<in> json_files dir d"
  shows "\<exists>p m. q = p @ ''.json'' \<and> stored E d p m \<and> transfer_ok E d p m"
  using assms by (auto simp: uploads_inv_def json_files_def)

lemma same_files_read: "same_files d d1 \<Longrightarrow> ReadManifest E d1 = ReadManifest E d"
  by (simp add: ReadManifest_def same_files_content fun_eq_iff)

lemma begin_counts:
  assumes inv: "uploads_inv E dir d" and l: "ListFiles d dir = (s, entries, d1)" "st_ok s"
  shows "count_reserved E d1 session entries 0 0 =
    Some (reserved_bytes E dir d mod 2 ^ 64, session_transfers E dir d session)"
proof -
  have wf: "wf_disk d" using inv by (simp add: uploads_inv_def)
  note e = ListFiles_entries [OF l(1) wf l(2)]
  let ?J = "filter (\<lambda>q. ends_with q ''.json'') entries"
  have mem: "q \<in> json_files dir d \<longleftrightarrow> q \<in> set entries \<and> ends_with q ''.json''" for q
    using e(3) by auto
  have "\<forall>q \<in> set entries. ends_with q ''.json'' \<longrightarrow> (\<exists>m. ReadManifest E d1 q = manifest_json m \<and> text_ok m)"
    using uploads_inv_json [OF inv] mem
    by (fastforce simp: same_files_read [OF e(1)] stored_def transfer_ok_def)
  note sum = count_reserved_sum [OF this, of 0 session 0]
  have "reserved_by E d1 = reserved_by E d"
    by (simp add: reserved_by_def fun_eq_iff same_files_read [OF e(1)])
  then have "(\<Sum>q \<leftarrow> ?J. reserved_by E d1 q) = reserved_bytes E dir d"
    using sum_list_distinct_conv_sum_set [of ?J "reserved_by E d"] e by (simp add: reserved_bytes_def)
  moreover have "length (filter (\<lambda>q. ends_with q ''.json'' \<and> owned_by E d1 session q) entries) =
      session_transfers E dir d session"
  proof -
    have dist: "distinct (filter (\<lambda>q. ends_with q ''.json'' \<and> owned_by E d1 session q) entries)" using e(2) by simp
    have "set (filter (\<lambda>q. ends_with q ''.json'' \<and> owned_by E d1 session q) entries) =
        {q \<in> json_files dir d. owned_by E d session q}"
      using mem by (auto simp: owned_by_def same_files_read [OF e(1)])
    then show ?thesis using distinct_card [OF dist] by (simp only: session_transfers_def)
  qed
  ultimately show ?thesis using sum by simp
qed

subsection \<open>Starting a transfer\<close>

lemma absent_manifest:
  assumes "uploads_inv E dir d" and "dir \<noteq> []" and p: "p = Path E dir session tid"
    and "\<not> is_object (ReadManifest E d (p @ ''.json''))"
  shows "content d (p @ ''.json'') = None"
proof (rule ccontr)
  assume c: "content d (p @ ''.json'') \<noteq> None"
  have "ParentDirectory (p @ ''.json'') = dir" using Path_parent [OF assms(2)] by (simp add: p)
  then have "p @ ''.json'' \<in> json_files dir d" using c by (simp add: json_files_def)
  from uploads_inv_json [OF assms(1) this] show False using assms(4) by (auto simp: stored_def)
qed

text \<open>A new transfer is in place at \<open>p\<close>: no bytes yet, and its reservation was admitted.\<close>

definition started :: "env \<Rightarrow> int \<Rightarrow> path \<Rightarrow> string \<Rightarrow> path \<Rightarrow> disk \<Rightarrow> disk \<Rightarrow> bool" where
  "started E now dir session p d d' \<longleftrightarrow> content d (p @ ''.json'') = None \<and>
     content d' (p @ ''.data'') = Some [] \<and> session_transfers E dir d session < 4 \<and>
     (\<exists>n sha. stored E d' p (fresh_manifest now session n sha) \<and> n \<le> kUploadBytes \<and> ascii sha \<and>
        length sha = 64 \<and> (reserved_bytes E dir d mod 2 ^ 64 + n) mod 2 ^ 64 \<le> kTransferQuota)"

definition begun :: "env \<Rightarrow> int \<Rightarrow> path \<Rightarrow> string \<Rightarrow> path \<Rightarrow> disk \<Rightarrow> reply \<Rightarrow> bool" where
  "begun E now dir session p d r \<longleftrightarrow> (\<exists>s j d'. r = Some (s, j, d') \<and> touches_only p d d' \<and>
     (content d' (p @ ''.json'') = content d (p @ ''.json'') \<and>
       (content d (p @ ''.json'') \<noteq> None \<longrightarrow> same_data p d d') \<or>
      started E now dir session p d d'))"

lemma begun_same: "begun E now dir session p d (Some (s, j, d))"
  by (simp add: begun_def same_data_def)

lemma begun_absent:
  assumes "content d (p @ ''.json'') = None" "content d' (p @ ''.json'') = None" "touches_only p d d'"
  shows "begun E now dir session p d (Some (s, j, d'))"
  using assms by (simp add: begun_def)

lemma begin_save_begun:
  assumes E: "json_codec E" and now: "0 \<le> now" "now + 600 < 2 ^ 63" and sess: "ascii session"
    and n: "n \<le> kUploadBytes" and sha: "ascii sha" "length sha = 64"
    and adm: "session_transfers E dir d session < 4"
      "(reserved_bytes E dir d mod 2 ^ 64 + n) mod 2 ^ 64 \<le> kTransferQuota"
    and none: "content d (p @ ''.json'') = None" and touch: "touches_only p d d2"
    and d2: "content d2 (p @ ''.json'') = None" "content d2 (p @ ''.data'') = Some []"
  shows "begun E now dir session p d (save_manifest E d2 p tid (begin_json now session n sha))"
proof -
  let ?m = "fresh_manifest now session n sha"
  have "n < 2 ^ 63" using n kUploadBytes_small by simp
  note doc = document_begin [OF sess sha(1) this now]
  obtain s j d' where u: "save_manifest E d2 p tid (begin_json now session n sha) = Some (s, j, d')"
      "touches_only p d2 d'" "same_data p d2 d'" "content d' (p @ ''.json'') = None \<or> stored E d' p ?m"
    using save_manifest_updated [OF E, of "begin_json now session n sha" ?m p d2 tid] doc d2(1)
    by (auto simp: updated_def)
  have t: "touches_only p d d'" using touches_only_trans [OF touch u(2)] .
  show ?thesis
  proof (cases "stored E d' p ?m")
    case True
    then have "started E now dir session p d d'"
      using u(3) d2(2) adm none n sha by (auto simp: started_def same_data_def)
    then show ?thesis using u(1) t by (auto simp: begun_def)
  next
    case False
    then show ?thesis using u(1,4) t none begun_absent by simp
  qed
qed

lemma handle_begin_begun:
  assumes E: "json_codec E" and inv: "uploads_inv E dir d" and dir: "dir \<noteq> []"
    and now: "0 \<le> now" "now + 600 < 2 ^ 63" and sess: "ascii session"
  shows "begun E now dir session (Path E dir session tid) d (handle_begin E now dir d session tid params)"
proof -
  define p where "p = Path E dir session tid"
  obtain s entries d1 where l: "ListFiles d dir = (s, entries, d1)" by (metis prod_cases3)
  have same: "same_files d d1"
    using l by (auto simp: ListFiles_def same_files_def io_simps Let_def split: if_splits)
  have t1: "touches_only p d d1" using same by (simp add: touches_only_def same_files_def content_def)
  obtain s2 d2 where w: "WriteAtomic d1 (p @ ''.data'') [] = (s2, d2)" by force
  have t2: "touches_only p d d2"
    by (rule touches_only_trans [OF t1 touches_only_WriteAtomic [OF w]]) simp
  have j2: "content d2 (p @ ''.json'') = content d (p @ ''.json'')"
    using write_atomic_frame(3) [OF w, of "p @ ''.json''"] same_files_content [OF same] by simp
  have final: "begun E now dir session p d (handle_begin E now dir d session tid params)"
    if none: "content d (p @ ''.json'') = None" and no: "\<not> is_object (ReadManifest E d (p @ ''.json''))"
      and bytes: "jat params ''bytes'' = JUint n" "n \<le> kUploadBytes"
      and sha: "length (jtext (jat params ''sha256'')) = 64" "list_all (\<lambda>c. c \<in> set kHex) (jtext (jat params ''sha256''))" for n
  proof (cases "st_ok s")
    case False
    then show ?thesis
      using none no begun_same begun_absent [OF none _ t1] l same_files_content [OF same]
      by (simp add: handle_begin_def p_def [symmetric] Let_def)
  next
    case True
    have "begun E now dir session p d (save_manifest E d2 p tid (begin_json now session n (jtext (jat params ''sha256''))))"
      if "st_ok s2" "session_transfers E dir d session < 4"
        "(reserved_bytes E dir d mod 2 ^ 64 + n) mod 2 ^ 64 \<le> kTransferQuota"
      by (rule begin_save_begun [OF E now sess bytes(2) hex_ascii [OF sha(2)] sha(1) that(2,3) none t2])
        (use j2 none write_atomic_frame(2) [OF w that(1)] in simp_all)
    then show ?thesis
      using none no bytes True l w begun_same begun_absent [OF none _ t1] begun_absent [OF none _ t2] j2
        same_files_content [OF same] begin_counts [OF inv l True]
      by (simp add: handle_begin_def p_def [symmetric] Let_def not_le)
  qed
  show ?thesis
    using final absent_manifest [OF inv dir p_def] begun_same
    unfolding p_def [symmetric]
    by (auto simp: handle_begin_def p_def [symmetric] Let_def IsUnsigned_iff)
qed

subsection \<open>Every request keeps the directory sound\<close>

text \<open>
  The circumstances of a request: the JSON codec works on the gateway's own documents, the clock is
  in range, session tokens are ASCII (they are hexadecimal), and the chunk fits in memory.
\<close>

definition upload_call :: "env \<Rightarrow> int \<Rightarrow> path \<Rightarrow> string \<Rightarrow> json \<Rightarrow> bool" where
  "upload_call E now dir session params \<longleftrightarrow> json_codec E \<and> 0 \<le> now \<and> now + 600 < 2 ^ 63 \<and> dir \<noteq> [] \<and>
     ascii session \<and> length (jtext (jat params ''data'')) < 2 ^ 63"

definition transfer_path :: "env \<Rightarrow> path \<Rightarrow> string \<Rightarrow> json \<Rightarrow> path" where
  "transfer_path E dir session params = Path E dir session (jtext (jat params ''transfer''))"

lemma present_manifest:
  assumes "uploads_inv E dir d" and "dir \<noteq> []" and p: "p = Path E dir session tid"
    and "is_object (ReadManifest E d (p @ ''.json''))"
  shows "\<exists>m. stored E d p m \<and> transfer_ok E d p m"
proof -
  have "ParentDirectory (p @ ''.json'') = dir" using Path_parent [OF assms(2)] by (simp add: p)
  then have "p @ ''.json'' \<in> json_files dir d"
    using assms(4) by (auto simp: json_files_def ReadManifest_def split: option.splits)
  from uploads_inv_json [OF assms(1) this] show ?thesis by auto
qed

text \<open>What a request does at the path \<open>p\<close> of its transfer.\<close>

inductive request_effect :: "env \<Rightarrow> int \<Rightarrow> path \<Rightarrow> string \<Rightarrow> path \<Rightarrow> disk \<Rightarrow> disk \<Rightarrow> bool"
  for E now dir session p d d' where
  untouched: "same_files d d' \<Longrightarrow> request_effect E now dir session p d d'"
| absent: "content d (p @ ''.json'') = None \<Longrightarrow> content d' (p @ ''.json'') = None \<Longrightarrow>
    touches_only p d d' \<Longrightarrow> request_effect E now dir session p d d'"
| start: "started E now dir session p d d' \<Longrightarrow> touches_only p d d' \<Longrightarrow>
    request_effect E now dir session p d d'"
| evolve: "stored E d p m \<Longrightarrow> transfer_ok E d p m \<Longrightarrow> stored E d' p m' \<Longrightarrow> transfer_ok E d' p m' \<Longrightarrow>
    evolves E p d m d' m' \<Longrightarrow> touches_only p d d' \<Longrightarrow> request_effect E now dir session p d d'"

lemma handled_effect:
  assumes "handled E p d m r" and "stored E d p m" "transfer_ok E d p m"
  shows "\<exists>s j d'. r = Some (s, j, d') \<and> request_effect E now dir session p d d'"
  using assms request_effect.evolve unfolding handled_def by blast

lemma begun_effect:
  assumes inv: "uploads_inv E dir d" and dir: "dir \<noteq> []" and p: "p = Path E dir session tid"
    and b: "begun E now dir session p d r"
  shows "\<exists>s j d'. r = Some (s, j, d') \<and> request_effect E now dir session p d d'"
proof -
  obtain s j d' where d': "r = Some (s, j, d')" "touches_only p d d'"
      "content d' (p @ ''.json'') = content d (p @ ''.json'') \<and>
        (content d (p @ ''.json'') \<noteq> None \<longrightarrow> same_data p d d') \<or> started E now dir session p d d'"
    using b by (auto simp: begun_def)
  have "request_effect E now dir session p d d'"
  proof (cases "started E now dir session p d d' \<or> content d (p @ ''.json'') = None")
    case True
    then show ?thesis using d'(2,3) request_effect.absent request_effect.start by metis
  next
    case False
    then have c: "content d' (p @ ''.json'') = content d (p @ ''.json'')" "same_data p d d'" using d'(3) by auto
    obtain m where m: "stored E d p m" "transfer_ok E d p m"
      using absent_manifest [OF inv dir p] present_manifest [OF inv dir p] False by blast
    have "evolves E p d m d' m"
      by (rule evolves.same) (use c(2) in \<open>simp_all add: received_def same_data_def\<close>)
    moreover have "transfer_ok E d' p m" using m(2) c(2) by (simp add: transfer_ok_def same_data_def)
    moreover have "stored E d' p m" using m(1) stored_cong [OF c(1)] by blast
    ultimately show ?thesis using m d'(2) request_effect.evolve by blast
  qed
  then show ?thesis using d'(1) by blast
qed

lemma Handle_effect:
  assumes call: "upload_call E now dir session params" and inv: "uploads_inv E dir d"
  shows "\<exists>s j d'. Handle E now dir d session method params = Some (s, j, d') \<and>
    request_effect E now dir session (transfer_path E dir session params) d d'"
proof -
  have c: "json_codec E" "0 \<le> now" "now + 600 < 2 ^ 63" "dir \<noteq> []" "ascii session"
      "length (jtext (jat params ''data'')) < 2 ^ 63"
    using call by (auto simp: upload_call_def)
  define tid where "tid = jtext (jat params ''transfer'')"
  define p where "p = Path E dir session tid"
  have tp: "transfer_path E dir session params = p" by (simp add: transfer_path_def p_def tid_def)
  have same: "request_effect E now dir session p d d" by (rule request_effect.untouched) (simp add: same_files_def)
  have b: "\<exists>s j d'. handle_begin E now dir d session tid params = Some (s, j, d') \<and> request_effect E now dir session p d d'"
    using begun_effect [OF inv c(4) p_def] handle_begin_begun [OF c(1) inv c(4,2,3,5)] by (simp add: p_def)
  show ?thesis
  proof (cases "is_object (ReadManifest E d (p @ ''.json''))")
    case False
    then show ?thesis unfolding tp Handle_def Load_def
      using same b by (simp add: tid_def [symmetric] p_def [symmetric] Let_def)
  next
    case True
    then obtain m where m: "stored E d p m" "transfer_ok E d p m" using present_manifest [OF inv c(4) p_def] by blast
    then have r: "ReadManifest E d (p @ ''.json'') = manifest_json m" by (simp add: stored_def)
    note h = handled_effect [OF handle_chunk_handled [OF c(1) m c(6)] m]
      handled_effect [OF handle_commit_handled [OF c(1) m] m] handled_effect [OF handle_status_handled [OF c(1) m] m]
    show ?thesis unfolding tp Handle_def Load_def
      using same b h transfer_ok_bounds(7) [OF m(2)]
      by (simp add: tid_def [symmetric] p_def [symmetric] Let_def r)
  qed
qed

end
