(* ===== verification/Uploads_Correct.thy ===== *)
theory Uploads_Correct
  imports Uploads_Props
begin

text \<open>
  The promises of the upload manager: a sound directory under every request and every failing
  system call, isolation of transfers, reservation quotas, chunks applied exactly once, and the
  whole upload.
\<close>

subsection \<open>Invariant, progress and isolation\<close>

lemma stored_some: "stored E d p m \<Longrightarrow> content d (p @ ''.json'') \<noteq> None"
  by (cases "content d (p @ ''.json'')") (simp_all add: stored_def ReadManifest_def manifest_json_def)

lemma effect_touches: "request_effect E now dir session p d d' \<Longrightarrow> touches_only p d d'"
  by (cases rule: request_effect.cases) (auto simp: touches_only_def same_files_def content_def)

lemma started_ok:
  assumes "started E now dir session p d d'" and "ascii session" and "0 \<le> now" "now + 600 < 2 ^ 63"
  shows "\<exists>m. stored E d' p m \<and> transfer_ok E d' p m \<and> mf_session m = session \<and> mf_bytes m = 0 \<and> \<not> mf_committed m"
proof -
  obtain n sha where n: "stored E d' p (fresh_manifest now session n sha)" "n \<le> kUploadBytes" "ascii sha"
    using assms(1) by (auto simp: started_def)
  have "transfer_ok E d' p (fresh_manifest now session n sha)"
    using assms n(2,3) kUploadBytes_small
    by (auto simp: transfer_ok_def text_ok_def fresh_manifest_def data_ok_def started_def)
  then show ?thesis using n(1) by (intro exI [of _ "fresh_manifest now session n sha"]) (simp add: fresh_manifest_def)
qed

lemma effect_inv:
  assumes e: "request_effect E now dir session p d d'" and inv: "uploads_inv E dir d" and dir: "dir \<noteq> []"
    and p: "p = Path E dir session tid" and s: "ascii session" "0 \<le> now" "now + 600 < 2 ^ 63"
  shows "uploads_inv E dir d'"
proof (rule uploads_inv_frame [OF inv effect_touches [OF e]])
  assume c: "content d' (p @ ''.json'') \<noteq> None"
  from e show "\<exists>m. stored E d' p m \<and> transfer_ok E d' p m"
  proof cases
    case untouched
    then have same: "content d' q = content d q" for q by (rule same_files_content)
    obtain m where "stored E d p m" "transfer_ok E d p m"
      using absent_manifest [OF inv dir p] present_manifest [OF inv dir p] c same by metis
    then show ?thesis using same by (auto simp: stored_def ReadManifest_def transfer_ok_def)
  next
    case start
    then show ?thesis using started_ok [OF _ s] by blast
  qed (use c in auto)
qed

lemma effect_evolves:
  assumes e: "request_effect E now dir session p d d'" and m: "stored E d q m"
  shows "\<exists>m'. stored E d' q m' \<and> evolves E q d m d' m'"
proof (cases "q = p")
  case False
  have "content d' (q @ ''.json'') = content d (q @ ''.json'')" "content d' (q @ ''.data'') = content d (q @ ''.data'')"
    using effect_touches [OF e] own_files_disjoint [OF False] by (simp_all add: touches_only_def)
  then have "stored E d' q m" "evolves E q d m d' m"
    using m by (auto simp: stored_def ReadManifest_def received_def same_data_def intro: evolves.same)
  then show ?thesis by blast
next
  case True
  have some: "content d (p @ ''.json'') \<noteq> None"
    using m True stored_some by blast
  from e show ?thesis
  proof cases
    case untouched
    then have same: "content d' x = content d x" for x by (rule same_files_content)
    show ?thesis using m evolves_files [OF same, where m = m] stored_cong [OF same] by blast
  next
    case (evolve m0 m')
    then have "m0 = m" using m True by (simp add: stored_def)
    then show ?thesis using evolve True by blast
  qed (use some in \<open>auto simp: started_def\<close>)
qed


lemma uploads_inv_clean: "uploads_inv E dir clean_disk"
  by (simp add: uploads_inv_def clean_disk_def content_def)


subsection \<open>Quotas\<close>

lemma json_file_kept:
  assumes "touches_only p d d'" and "ends_with q ''.json''" "q \<noteq> p @ ''.json''"
  shows "content d' q = content d q" "ReadManifest E d' q = ReadManifest E d q"
    "q \<in> json_files dir d' \<longleftrightarrow> q \<in> json_files dir d"
proof -
  have "q \<notin> own_files p" using assms(2,3) by (auto simp: own_files_def)
  then show "content d' q = content d q" using assms(1) by (simp add: touches_only_def)
  then show "ReadManifest E d' q = ReadManifest E d q" "q \<in> json_files dir d' \<longleftrightarrow> q \<in> json_files dir d"
    by (simp_all add: ReadManifest_def json_files_def)
qed

lemma quota_inv_cong:
  assumes "json_files dir d' = json_files dir d"
    and "\<And>q. q \<in> json_files dir d \<Longrightarrow> reserved_by E d' q = reserved_by E d q"
    and "\<And>q s. q \<in> json_files dir d \<Longrightarrow> owned_by E d' s q = owned_by E d s q"
  shows "quota_inv E dir d' = quota_inv E dir d"
proof -
  have "session_transfers E dir d' = session_transfers E dir d"
    using assms(1,3) by (auto simp: session_transfers_def fun_eq_iff intro!: arg_cong [where f = card])
  moreover have "reserved_bytes E dir d' = reserved_bytes E dir d"
    using assms(1,2) by (simp add: reserved_bytes_def)
  ultimately show ?thesis by (simp add: quota_inv_def)
qed

lemma json_files_ends: "q \<in> json_files dir d \<Longrightarrow> ends_with q ''.json''"
  by (simp add: json_files_def)

lemma quota_evolves:
  assumes t: "touches_only p d d'" and m: "stored E d p m" "stored E d' p m'"
    and e: "evolves E p d m d' m'"
  shows "quota_inv E dir d' = quota_inv E dir d"
proof -
  let ?q = "p @ ''.json''"
  have some: "content d ?q \<noteq> None" "content d' ?q \<noteq> None"
    using m stored_some by blast+
  have "mf_total m' = mf_total m" "mf_session m' = mf_session m"
    using e by (auto elim!: evolves.cases simp: next_manifest_def)
  then have r: "reserved_by E d' ?q = reserved_by E d ?q" "owned_by E d' s ?q = owned_by E d s ?q" for s
    using m by (simp_all add: reserved_by_def owned_by_def stored_def)
  have files: "json_files dir d' = json_files dir d"
  proof (intro set_eqI)
    fix q show "q \<in> json_files dir d' \<longleftrightarrow> q \<in> json_files dir d"
      using json_file_kept(3) [OF t, of q] some by (cases "q = ?q") (auto simp: json_files_def)
  qed
  show ?thesis
  proof (rule quota_inv_cong [OF files])
    fix q assume "q \<in> json_files dir d"
    note k = json_file_kept(2) [OF t json_files_ends [OF this]]
    show "reserved_by E d' q = reserved_by E d q" using k [of E] r by (cases "q = ?q") (auto simp: reserved_by_def)
    show "owned_by E d' s q = owned_by E d s q" for s using k [of E] r by (cases "q = ?q") (auto simp: owned_by_def)
  qed
qed

lemma quota_absent:
  assumes t: "touches_only p d d'" and "content d (p @ ''.json'') = None" "content d' (p @ ''.json'') = None"
  shows "quota_inv E dir d' = quota_inv E dir d"
proof (rule quota_inv_cong)
  show "json_files dir d' = json_files dir d"
  proof (intro set_eqI)
    fix q show "q \<in> json_files dir d' \<longleftrightarrow> q \<in> json_files dir d"
      using json_file_kept(3) [OF t, of q] assms(2,3) by (cases "q = p @ ''.json''") (auto simp: json_files_def)
  qed
next
  fix q assume q: "q \<in> json_files dir d"
  then have "q \<noteq> p @ ''.json''" using assms(2) by (auto simp: json_files_def)
  note k = json_file_kept(2) [OF t json_files_ends [OF q] this]
  show "reserved_by E d' q = reserved_by E d q" "owned_by E d' s q = owned_by E d s q" for s
    using k by (auto simp: reserved_by_def owned_by_def)
qed

lemma quota_started:
  assumes t: "touches_only p d d'" and st: "started E now dir session p d d'"
    and p: "ParentDirectory (p @ ''.json'') = dir" and q: "quota_inv E dir d"
  shows "quota_inv E dir d'"
proof -
  let ?q = "p @ ''.json''"
  obtain n sha where n: "stored E d' p (fresh_manifest now session n sha)" "n \<le> kUploadBytes"
      "(reserved_bytes E dir d mod 2 ^ 64 + n) mod 2 ^ 64 \<le> kTransferQuota"
    using st by (auto simp: started_def)
  have none: "content d ?q = None" and less: "session_transfers E dir d session < 4"
    using st by (auto simp: started_def)
  have r: "reserved_by E d' ?q = n" "owned_by E d' s ?q \<longleftrightarrow> session = s" for s
    using n(1) by (auto simp: reserved_by_def owned_by_def stored_def fresh_manifest_def)
  have some: "content d' ?q \<noteq> None" using n(1) stored_some by blast
  have new: "?q \<notin> json_files dir d" using none by (simp add: json_files_def)
  have files: "json_files dir d' = insert ?q (json_files dir d)"
  proof (intro set_eqI)
    fix x show "x \<in> json_files dir d' \<longleftrightarrow> x \<in> insert ?q (json_files dir d)"
      using json_file_kept(3) [OF t, of x] some p by (cases "x = ?q") (auto simp: json_files_def)
  qed
  have keep: "reserved_by E d' x = reserved_by E d x" "owned_by E d' s x = owned_by E d s x"
    if x: "x \<in> json_files dir d" for x s
  proof -
    have "x \<noteq> ?q" using x new by blast
    note k = json_file_kept(2) [OF t json_files_ends [OF x] this, of E]
    show "reserved_by E d' x = reserved_by E d x" "owned_by E d' s x = owned_by E d s x"
      using k by (simp_all add: reserved_by_def owned_by_def)
  qed
  have "reserved_bytes E dir d \<le> kTransferQuota" using q by (simp add: quota_inv_def)
  then have "reserved_bytes E dir d + n \<le> kTransferQuota"
    using n(2,3) by (simp add: kTransferQuota_def kUploadBytes_def)
  moreover have "reserved_bytes E dir d' = n + reserved_bytes E dir d"
    using new keep(1) r(1) by (simp add: reserved_bytes_def files)
  moreover have "session_transfers E dir d' s \<le> 4" for s
  proof -
    have "{x \<in> json_files dir d'. owned_by E d' s x} =
        (if session = s then insert ?q else (\<lambda>X. X)) {x \<in> json_files dir d. owned_by E d s x}"
      using keep(2) r(2) new by (auto simp: files)
    then have "session_transfers E dir d' s = (if session = s then Suc else (\<lambda>k. k)) (session_transfers E dir d s)"
      using new by (simp add: session_transfers_def)
    then show ?thesis using q less by (auto simp: quota_inv_def split: if_splits)
  qed
  ultimately show ?thesis by (simp add: quota_inv_def)
qed


definition begin_params :: "string \<Rightarrow> nat \<Rightarrow> string \<Rightarrow> json" where
  "begin_params tid n sha = JObject [(''bytes'', JUint n), (''sha256'', JString sha), (''transfer'', JString tid)]"

definition chunk_params :: "string \<Rightarrow> nat \<Rightarrow> string \<Rightarrow> json" where
  "chunk_params tid seq x = JObject [(''data'', JString x), (''seq'', JUint seq), (''transfer'', JString tid)]"

definition only_params :: "string \<Rightarrow> json" where
  "only_params tid = JObject [(''transfer'', JString tid)]"

lemmas params_defs = begin_params_def chunk_params_def only_params_def

lemma params_sel [simp]:
  "contains (begin_params tid n sha) ''transfer''" "jat (begin_params tid n sha) ''transfer'' = JString tid"
  "contains (begin_params tid n sha) ''bytes''" "jat (begin_params tid n sha) ''bytes'' = JUint n"
  "contains (begin_params tid n sha) ''sha256''" "jat (begin_params tid n sha) ''sha256'' = JString sha"
  "contains (chunk_params tid k x) ''transfer''" "jat (chunk_params tid k x) ''transfer'' = JString tid"
  "contains (chunk_params tid k x) ''seq''" "jat (chunk_params tid k x) ''seq'' = JUint k"
  "contains (chunk_params tid k x) ''data''" "jat (chunk_params tid k x) ''data'' = JString x"
  "contains (only_params tid) ''transfer''" "jat (only_params tid) ''transfer'' = JString tid"
  "jsize (begin_params tid n sha) = 3" "jsize (chunk_params tid k x) = 3" "jsize (only_params tid) = 1"
  "jat (begin_params tid n sha) ''data'' = JNull" "jat (only_params tid) ''data'' = JNull"
  by (simp_all add: params_defs contains_def jat_def)

definition kSampleSha :: string where "kSampleSha = replicate 64 (CHR ''0'')"


subsection \<open>Chunks are applied exactly once\<close>

lemma Load_stored:
  assumes "stored E d (Path E dir session tid) m" and "transfer_ok E d p m" and "now < int (mf_expires m)"
  shows "Load E now dir d session tid = Some (Ok, Path E dir session tid, manifest_json m)"
  using assms transfer_ok_bounds(7) [OF assms(2)] by (simp add: Load_def stored_def Let_def)

lemma uploads_inv_transfer:
  assumes "uploads_inv E dir d" "dir \<noteq> []" "stored E d (Path E dir session tid) m"
  shows "transfer_ok E d (Path E dir session tid) m"
  using present_manifest [OF assms(1,2) refl, of session tid] assms(3) by (auto simp: stored_def)

text \<open>The states the acknowledged bytes can be in while one chunk is sent again and again.\<close>

definition chunk_state :: "env \<Rightarrow> path \<Rightarrow> manifest \<Rightarrow> string \<Rightarrow> string \<Rightarrow> disk \<Rightarrow> bool \<Rightarrow> bool" where
  "chunk_state E p m old x d finished \<longleftrightarrow>
     (stored E d p m \<and> transfer_ok E d p m \<and> received d p m = old \<and> \<not> finished) \<or>
     (stored E d p (next_manifest E m x) \<and> transfer_ok E d p (next_manifest E m x) \<and>
      received d p (next_manifest E m x) = old @ x)"

lemma chunk_once:
  assumes E: "json_codec E" and tid: "IsId (JString tid)" and x: "x \<noteq> []" "mf_bytes m + length x \<le> mf_total m"
    and m: "\<not> mf_committed m" "now < int (mf_expires m)" "mf_next m \<le> UINT32_MAX"
    and st: "chunk_state E (Path E dir session tid) m old x d b"
    and h: "Handle E now dir d session ''transfer.chunk'' (chunk_params tid (mf_next m) x) = Some (s, j, d')"
  shows "chunk_state E (Path E dir session tid) m old x d' (st_ok s)"
proof -
  let ?p = "Path E dir session tid" and ?m = "next_manifest E m x"
  have u: "IsUnsigned (JUint (mf_next m)) UINT32_MAX" using m(3) by (simp add: IsUnsigned_iff)
  from st consider "stored E d ?p m" "transfer_ok E d ?p m" "received d ?p m = old" |
    "stored E d ?p ?m" "transfer_ok E d ?p ?m" "received d ?p ?m = old @ x"
    by (auto simp: chunk_state_def)
  then show ?thesis
  proof cases
    case 1
    note b = transfer_ok_bounds [OF 1(2)]
    have "(mf_bytes m + length x) mod 2 ^ 64 = mf_bytes m + length x"
      using x(2) b(3) kUploadBytes_small by simp
    then have "Handle E now dir d session ''transfer.chunk'' (chunk_params tid (mf_next m) x) =
        append_chunk E d ?p tid (manifest_json m) (mf_next m) (mf_bytes m) x"
      using tid x m(1) u Load_stored [OF 1(1,2) m(2)] b(4-6)
      by (auto simp: Handle_def handle_chunk_def Let_def)
    then have "attempted E ?p d m x s d'"
      using append_chunk_attempted [OF E 1(1,2) m(1) x, of tid] h by auto
    then show ?thesis using 1(3) by (auto simp: attempted_def chunk_state_def)
  next
    case 2
    note b = transfer_ok_bounds [OF 2(2)]
    have "now < int (mf_expires ?m)" using m(2) by (simp add: next_manifest_def)
    then have "Handle E now dir d session ''transfer.chunk'' (chunk_params tid (mf_next m) x) =
        Some (Ok, jobj [(''transfer'', JString tid), (''next_seq'', JUint (mf_next ?m))], d)"
      using tid x(1) u Load_stored [OF 2(1,2)] b(4)
      by (simp add: Handle_def handle_chunk_def Let_def next_manifest_def)
    then show ?thesis using h 2 by (simp add: chunk_state_def)
  qed
qed

text \<open>One request sent one or more times; every answer but the last may be lost.\<close>

inductive sent :: "env \<Rightarrow> path \<Rightarrow> string \<Rightarrow> string \<Rightarrow> json \<Rightarrow> int \<Rightarrow> disk \<Rightarrow> status \<Rightarrow> disk \<Rightarrow> bool"
  for E dir session m params deadline where
  first: "now < deadline \<Longrightarrow> Handle E now dir d session m params = Some (s, j, d') \<Longrightarrow>
    sent E dir session m params deadline d s d'"
| again: "sent E dir session m params deadline d s1 d1 \<Longrightarrow> now < deadline \<Longrightarrow>
    Handle E now dir d1 session m params = Some (s, j, d') \<Longrightarrow>
    sent E dir session m params deadline d s d'"

lemma sent_chunk_state:
  assumes "sent E dir session ''transfer.chunk'' (chunk_params tid (mf_next m) x) (int (mf_expires m)) d s d'"
    and E: "json_codec E" and tid: "IsId (JString tid)" and x: "x \<noteq> []" "mf_bytes m + length x \<le> mf_total m"
    and m: "\<not> mf_committed m" "mf_next m \<le> UINT32_MAX"
    and st: "chunk_state E (Path E dir session tid) m old x d b"
  shows "chunk_state E (Path E dir session tid) m old x d' (st_ok s)"
  using assms(1) st
proof (induction arbitrary: b rule: sent.induct)
  case (first now d s j d')
  then show ?case using chunk_once [OF E tid x m(1) _ m(2)] by blast
next
  case (again d s1 d1 now s j d')
  then show ?case using chunk_once [OF E tid x m(1) _ m(2)] by blast
qed

text \<open>
  C12. A chunk sent any number of times, with system calls failing and answers lost in between, is
  in the end applied exactly once: when the last answer is a success, the acknowledged bytes are the
  old ones followed by one copy of the chunk and the sequence number has advanced by one.
\<close>

theorem chunk_exactly_once:
  assumes "json_codec E" and "uploads_inv E dir d" and "dir \<noteq> []" and "IsId (JString tid)"
    and "stored E d (Path E dir session tid) m" and "\<not> mf_committed m" and "mf_next m \<le> UINT32_MAX"
    and "x \<noteq> []" and "mf_bytes m + length x \<le> mf_total m"
    and "sent E dir session ''transfer.chunk'' (chunk_params tid (mf_next m) x) (int (mf_expires m)) d s d'"
    and "st_ok s"
  shows "stored E d' (Path E dir session tid) (next_manifest E m x) \<and>
    received d' (Path E dir session tid) (next_manifest E m x) = received d (Path E dir session tid) m @ x"
proof -
  have "chunk_state E (Path E dir session tid) m (received d (Path E dir session tid) m) x d False"
    using uploads_inv_transfer [OF assms(2,3,5)] assms(5) by (simp add: chunk_state_def)
  from sent_chunk_state [OF assms(10,1,4,8,9,6,7) this] assms(11) show ?thesis
    by (simp add: chunk_state_def)
qed

subsection \<open>Uploads on a disk without faults\<close>

definition no_faults :: "disk \<Rightarrow> bool" where
  "no_faults d \<longleftrightarrow> fault d = (\<lambda>_. None)"

lemma no_faults_calls [simp]:
  "no_faults d \<Longrightarrow> no_faults (next_call d)" "no_faults d \<Longrightarrow> no_faults (set_file d p s)"
  "no_faults d \<Longrightarrow> no_faults (del_file d p)" "no_faults d \<Longrightarrow> sys_ok d"
  by (simp_all add: no_faults_def next_call_def set_file_def del_file_def sys_ok_def)

lemma no_faults_fault: "no_faults d \<Longrightarrow> fault d n = None"
  by (simp add: no_faults_def)

lemma WriteAtomic_no_faults:
  assumes "no_faults d"
  shows "\<exists>d'. WriteAtomic d p x = (Ok, d') \<and> no_faults d'"
  using assms
  by (auto simp: WriteAtomic_def io_defs io_simps no_faults_fault Let_def)

lemma write_chunk_no_faults:
  assumes "no_faults d"
  shows "\<exists>d'. write_chunk d p n x = (True, d') \<and> no_faults d'"
  using assms
  by (auto simp: write_chunk_def pwrite_all_def ftruncate_file_def sync_call_def io_simps no_faults_fault Let_def)

lemma save_manifest_no_faults:
  assumes "json_codec E" and "document j" and "no_faults d"
  shows "\<exists>k d'. save_manifest E d p tid j = Some (Ok, k, d') \<and> no_faults d'"
proof -
  obtain t where t: "dump E j = Some t" using assms(1,2) by (auto simp: json_codec_def)
  obtain d' where "WriteAtomic d (p @ ''.json'') t = (Ok, d')" "no_faults d'"
    using WriteAtomic_no_faults [OF assms(3)] by blast
  then show ?thesis using t by (simp add: save_manifest_def)
qed

lemma chunk_no_faults:
  assumes E: "json_codec E" and tid: "IsId (JString tid)" and x: "x \<noteq> []" "mf_bytes m + length x \<le> mf_total m"
    and m: "\<not> mf_committed m" "now < int (mf_expires m)"
    and st: "stored E d (Path E dir session tid) m" "transfer_ok E d (Path E dir session tid) m"
    and d: "no_faults d" "content d (Path E dir session tid @ ''.data'') \<noteq> None"
  shows "\<exists>j d'. Handle E now dir d session ''transfer.chunk'' (chunk_params tid (mf_next m) x) = Some (Ok, j, d') \<and>
    no_faults d' \<and> content d' (Path E dir session tid @ ''.data'') \<noteq> None"
proof -
  let ?p = "Path E dir session tid"
  note b = transfer_ok_bounds [OF st(2)]
  have "mf_next m \<le> UINT32_MAX" using b(1-3) by (simp add: kUploadBytes_def UINT32_MAX_def)
  then have u: "IsUnsigned (JUint (mf_next m)) UINT32_MAX" by (simp add: IsUnsigned_iff)
  obtain s where s: "content (next_call d) (?p @ ''.data'') = Some s" using d(2) by (auto simp: io_simps)
  have le: "mf_bytes m \<le> length s" using st(2) s by (auto simp: transfer_ok_def data_ok_def io_simps)
  obtain d2 where w: "write_chunk (next_call d) (?p @ ''.data'') (mf_bytes m) x = (True, d2)" "no_faults d2"
    using write_chunk_no_faults d(1) no_faults_calls(1) by blast
  have c2: "content d2 (?p @ ''.data'') = Some (take (mf_bytes m) s @ x)"
    using write_chunk_written [OF w(1) s le x(1)] s by (auto simp: chunk_written_def)
  have "transfer_ok E d2 ?p (next_manifest E m x)"
    by (rule next_manifest_ok [OF st(2) m(1) x(2,1) c2]) (use le in simp)
  then have doc: "document (manifest_json (next_manifest E m x))"
    by (auto simp: transfer_ok_def intro: document_manifest)
  obtain j d' where sv: "save_manifest E d2 ?p tid (manifest_json (next_manifest E m x)) = Some (Ok, j, d')" "no_faults d'"
    using save_manifest_no_faults [OF E doc w(2)] by blast
  have "content d' (?p @ ''.data'') = content d2 (?p @ ''.data'')"
    using save_manifest_updated [OF E doc norm_manifest, of ?p d2 tid] sv(1) by (auto simp: updated_def same_data_def)
  moreover have "(mf_bytes m + length x) mod 2 ^ 64 = mf_bytes m + length x"
    using x(2) b(3) kUploadBytes_small by simp
  ultimately show ?thesis
    using tid x m(1) u Load_stored [OF st m(2)] b(4-6) w(1) sv d c2
    by (auto simp: Handle_def handle_chunk_def Let_def append_chunk_def open_existing_def next_manifest_def)
qed

fun run_requests :: "env \<Rightarrow> int \<Rightarrow> path \<Rightarrow> string \<Rightarrow> disk \<Rightarrow> (string \<times> json) list \<Rightarrow> (status list \<times> disk) option" where
  "run_requests E now dir session d [] = Some ([], d)"
| "run_requests E now dir session d ((method, params) # rs) =
     (case Handle E now dir d session method params of
        None \<Rightarrow> None
      | Some (s, j, d1) \<Rightarrow> map_option (\<lambda>(ss, d2). (s # ss, d2)) (run_requests E now dir session d1 rs))"

fun chunk_requests :: "string \<Rightarrow> nat \<Rightarrow> string list \<Rightarrow> (string \<times> json) list" where
  "chunk_requests tid k [] = []"
| "chunk_requests tid k (x # xs) = (''transfer.chunk'', chunk_params tid k x) # chunk_requests tid (Suc k) xs"

definition upload_requests :: "string \<Rightarrow> string \<Rightarrow> string list \<Rightarrow> (string \<times> json) list" where
  "upload_requests tid sha xs =
     (''transfer.begin'', begin_params tid (length (concat xs)) sha) #
     chunk_requests tid 0 xs @ [(''transfer.commit'', only_params tid)]"

lemma run_requests_append:
  "run_requests E now dir session d rs = Some (ss, d1) \<Longrightarrow>
   run_requests E now dir session d1 rs' = Some (ss', d2) \<Longrightarrow>
   run_requests E now dir session d (rs @ rs') = Some (ss @ ss', d2)"
proof (induction rs arbitrary: d ss)
  case (Cons r rs)
  then show ?case by (cases r) (force split: option.splits)
qed simp

text \<open>An uncommitted transfer with the bytes \<open>got\<close> after \<open>k\<close> chunks.\<close>

definition holding :: "env \<Rightarrow> path \<Rightarrow> disk \<Rightarrow> manifest \<Rightarrow> nat \<Rightarrow> string \<Rightarrow> bool" where
  "holding E p d m k got \<longleftrightarrow> stored E d p m \<and> transfer_ok E d p m \<and> \<not> mf_committed m \<and> mf_next m = k \<and>
     mf_bytes m = length got \<and> received d p m = got \<and> no_faults d \<and> content d (p @ ''.data'') \<noteq> None"

lemma chunk_run:
  assumes E: "json_codec E" and tid: "IsId (JString tid)" and now: "now < int (mf_expires m)"
    and xs: "\<forall>x \<in> set xs. x \<noteq> []" and "holding E (Path E dir session tid) d m k got"
    and "length got + length (concat xs) \<le> mf_total m"
  shows "\<exists>m' d'. run_requests E now dir session d (chunk_requests tid k xs) = Some (map (\<lambda>_. Ok) xs, d') \<and>
    holding E (Path E dir session tid) d' m' (k + length xs) (got @ concat xs) \<and>
    mf_total m' = mf_total m \<and> mf_sha m' = mf_sha m \<and> mf_expires m' = mf_expires m"
  using assms(3-6)
proof (induction xs arbitrary: d m k got)
  case Nil
  then show ?case by auto
next
  case (Cons x xs)
  let ?p = "Path E dir session tid" and ?m = "next_manifest E m x"
  have x: "x \<noteq> []" "mf_bytes m + length x \<le> mf_total m"
    using Cons.prems by (auto simp: holding_def)
  have h: "stored E d ?p m" "transfer_ok E d ?p m" "\<not> mf_committed m" "mf_next m = k" "received d ?p m = got"
      "mf_bytes m = length got" "no_faults d" "content d (?p @ ''.data'') \<noteq> None"
    using Cons.prems(3) by (auto simp: holding_def)
  obtain j d1 where d1: "Handle E now dir d session ''transfer.chunk'' (chunk_params tid k x) = Some (Ok, j, d1)"
      "no_faults d1" "content d1 (?p @ ''.data'') \<noteq> None"
    using chunk_no_faults [OF E tid x h(3) Cons.prems(1) h(1,2,7,8)] h(4) by blast
  have "mf_next m \<le> UINT32_MAX"
    using transfer_ok_bounds(1-3) [OF h(2)] by (simp add: kUploadBytes_def UINT32_MAX_def)
  moreover have "chunk_state E ?p m got x d False" using h by (simp add: chunk_state_def)
  ultimately have "chunk_state E ?p m got x d1 True"
    using chunk_once [OF E tid x h(3) Cons.prems(1)] d1(1) h(4) by force
  then have "holding E ?p d1 ?m (Suc k) (got @ x)"
    using h d1 by (auto simp: chunk_state_def holding_def next_manifest_def)
  moreover have "now < int (mf_expires ?m)" "length (got @ x) + length (concat xs) \<le> mf_total ?m"
    using Cons.prems(1,4) by (simp_all add: next_manifest_def)
  moreover have "\<forall>x \<in> set xs. x \<noteq> []" using Cons.prems(2) by simp
  ultimately obtain m' d' where
      "run_requests E now dir session d1 (chunk_requests tid (Suc k) xs) = Some (map (\<lambda>_. Ok) xs, d')"
      "holding E ?p d' m' (Suc k + length xs) ((got @ x) @ concat xs)"
      "mf_total m' = mf_total ?m" "mf_sha m' = mf_sha ?m" "mf_expires m' = mf_expires ?m"
    using Cons.IH by blast
  then show ?case using d1(1) by (auto simp: next_manifest_def intro!: exI [of _ m'])
qed

lemma ListFiles_no_faults:
  assumes "no_faults d"
  shows "\<exists>entries d1. ListFiles d dir = (Ok, entries, d1) \<and> no_faults d1 \<and> same_files d d1"
  using assms by (simp add: ListFiles_def Let_def same_files_def io_simps)

text \<open>The directory has room for a transfer of \<open>n\<close> bytes.\<close>

definition admits :: "env \<Rightarrow> path \<Rightarrow> disk \<Rightarrow> string \<Rightarrow> nat \<Rightarrow> bool" where
  "admits E dir d session n \<longleftrightarrow> n \<le> kUploadBytes \<and> reserved_bytes E dir d + n \<le> kTransferQuota \<and>
     session_transfers E dir d session < 4"

lemma begin_no_faults:
  assumes call: "upload_call E now dir session (begin_params tid n sha)" and inv: "uploads_inv E dir d"
    and tid: "IsId (JString tid)" and d: "no_faults d" "content d (Path E dir session tid @ ''.json'') = None"
    and adm: "admits E dir d session n" and sha: "length sha = 64" "list_all (\<lambda>c. c \<in> set kHex) sha"
  shows "\<exists>j d'. Handle E now dir d session ''transfer.begin'' (begin_params tid n sha) = Some (Ok, j, d') \<and>
    holding E (Path E dir session tid) d' (fresh_manifest now session n sha) 0 []"
proof -
  let ?p = "Path E dir session tid" and ?m = "fresh_manifest now session n sha"
  have c: "json_codec E" "0 \<le> now" "now + 600 < 2 ^ 63" "ascii session"
    using call by (auto simp: upload_call_def)
  have n: "n \<le> kUploadBytes" "n < 2 ^ 63" using adm kUploadBytes_small by (auto simp: admits_def)
  note doc = document_begin [OF c(4) hex_ascii [OF sha(2)] n(2) c(2,3)]
  obtain entries d1 where l: "ListFiles d dir = (Ok, entries, d1)" "no_faults d1" "same_files d d1"
    using ListFiles_no_faults [OF d(1)] by blast
  obtain d2 where w: "WriteAtomic d1 (?p @ ''.data'') [] = (Ok, d2)" "no_faults d2"
    using WriteAtomic_no_faults [OF l(2)] by blast
  have c2: "content d2 (?p @ ''.data'') = Some []" using write_atomic_frame(2) [OF w(1)] by simp
  obtain j d' where sv: "save_manifest E d2 ?p tid (begin_json now session n sha) = Some (Ok, j, d')" "no_faults d'"
    using save_manifest_no_faults [OF c(1) _ w(2)] doc by blast
  have u: "stored E d' ?p ?m" "content d' (?p @ ''.data'') = Some []"
    using save_manifest_updated [OF c(1), of "begin_json now session n sha" ?m ?p d2 tid] doc sv(1) c2
    by (auto simp: updated_def same_data_def)
  have "transfer_ok E d' ?p ?m"
    using c n hex_ascii [OF sha(2)] u(2)
    by (auto simp: transfer_ok_def text_ok_def fresh_manifest_def data_ok_def)
  then have "holding E ?p d' ?m 0 []"
    using u sv(2) by (simp add: holding_def fresh_manifest_def received_def)
  moreover have "count_reserved E d1 session entries 0 0 = Some (reserved_bytes E dir d, session_transfers E dir d session)"
    using begin_counts [OF inv l(1) st_ok_Ok] adm by (simp add: admits_def kTransferQuota_def)
  moreover have "Handle E now dir d session ''transfer.begin'' (begin_params tid n sha) = Some (Ok, j, d')"
    using tid n sha d(2) l(1) w(1) sv(1) adm calculation(2)
    by (simp add: Handle_def handle_begin_def Let_def IsUnsigned_iff ReadManifest_def admits_def kTransferQuota_def)
  ultimately show ?thesis by blast
qed

lemma commit_no_faults:
  assumes E: "json_codec E" and tid: "IsId (JString tid)" and now: "now < int (mf_expires m)"
    and h: "holding E (Path E dir session tid) d m k got" and sha: "mf_sha m = Sha256 E got" "mf_total m = length got"
  shows "\<exists>j d'. Handle E now dir d session ''transfer.commit'' (only_params tid) = Some (Ok, j, d') \<and>
    stored E d' (Path E dir session tid) (m\<lparr>mf_committed := True\<rparr>) \<and>
    content d' (Path E dir session tid @ ''.data'') = Some got \<and> no_faults d'"
proof -
  let ?p = "Path E dir session tid" and ?m = "m\<lparr>mf_committed := True\<rparr>"
  have h': "stored E d ?p m" "transfer_ok E d ?p m" "mf_bytes m = length got" "received d ?p m = got" "no_faults d"
    using h by (auto simp: holding_def)
  obtain s where s: "content d (?p @ ''.data'') = Some s" using h by (auto simp: holding_def)
  have "length s = length got" using h'(2,3) s sha(2) by (auto simp: transfer_ok_def data_ok_def)
  then have got: "content d (?p @ ''.data'') = Some got" using h'(3,4) s by (simp add: received_def)
  have doc: "document (manifest_json ?m)"
    using h'(2) by (auto simp: transfer_ok_def text_ok_def intro: document_manifest)
  obtain j d' where sv: "save_manifest E d ?p tid (manifest_json ?m) = Some (Ok, j, d')" "no_faults d'"
    using save_manifest_no_faults [OF E doc h'(5)] by blast
  have "stored E d' ?p ?m" "content d' (?p @ ''.data'') = Some got"
    using save_manifest_updated [OF E doc norm_manifest, of ?p d tid] sv(1) got
    by (auto simp: updated_def same_data_def)
  moreover have "FileHash E d (?p @ ''.data'') = Sha256 E got" by (simp add: FileHash_def got)
  ultimately show ?thesis
    using tid Load_stored [OF h'(1,2) now] h'(3) sha sv
    by (simp add: Handle_def handle_commit_def Let_def)
qed

text \<open>What a request that refers to a committed transfer gets: the parameters its text holds.\<close>

definition resolved :: "env \<Rightarrow> string \<Rightarrow> (status \<times> json) option" where
  "resolved E body =
     (let (s, envelope) = ParseRequest E (resolve_text body) (kParamsBytes + 128) in
      Some (if st_ok s then (Ok, jat envelope ''params'')
            else (mk_status ''invalid_params''
                    ''Transfer must contain a JSON parameter object within the adapter limit'', JNull)))"

lemma Resolve_committed:
  assumes "stored E d (Path E dir session tid) m" and "text_ok m" and "mf_committed m"
    and "now < int (mf_expires m)" and "mf_total m \<le> kParamsBytes"
    and "content d (Path E dir session tid @ ''.data'') = Some body"
  shows "Resolve E now dir d session tid = resolved E body"
  using assms by (simp add: Resolve_def Load_def stored_def resolved_def text_ok_def Let_def case_prod_beta)


lemma clean_disk_simps [simp]:
  "no_faults clean_disk" "content clean_disk q = None" "json_files dir clean_disk = {}"
  by (simp_all add: no_faults_def clean_disk_def content_def json_files_def)

lemma admits_clean: "n \<le> kUploadBytes \<Longrightarrow> admits E dir clean_disk session n"
  by (simp add: admits_def reserved_bytes_def session_transfers_def kUploadBytes_def kTransferQuota_def)

lemma sample_id: "IsId (JString ''t1'')"
  by code_simp

lemma sample_call: "upload_call coded_env 5 ''/t'' ''ab'' (only_params ''t1'')"
  by (simp add: upload_call_def json_codec_coded ascii_def)


theorem chunk_exactly_once_witness:
  "\<exists>d m s d'. \<not> mf_committed m \<and>
     sent coded_env ''/t'' ''ab'' ''transfer.chunk'' (chunk_params ''t1'' (mf_next m) ''hi'') (int (mf_expires m)) d s d' \<and>
     received d' (Path coded_env ''/t'' ''ab'' ''t1'') (next_manifest coded_env m ''hi'') =
       received d (Path coded_env ''/t'' ''ab'' ''t1'') m @ ''hi''"
proof -
  let ?E = coded_env and ?p = "Path coded_env ''/t'' ''ab'' ''t1''"
  have call: "upload_call ?E 5 ''/t'' ''ab'' (begin_params ''t1'' 10 kSampleSha)"
    by (simp add: upload_call_def json_codec_coded ascii_def)
  have adm: "admits ?E ''/t'' clean_disk ''ab'' 10" by (rule admits_clean) (simp add: kUploadBytes_def)
  let ?m = "fresh_manifest 5 ''ab'' 10 kSampleSha"
  obtain j d where d: "Handle ?E 5 ''/t'' clean_disk ''ab'' ''transfer.begin'' (begin_params ''t1'' 10 kSampleSha) = Some (Ok, j, d)"
      "holding ?E ?p d ?m 0 []"
    using begin_no_faults [OF call uploads_inv_clean sample_id _ _ adm] by (auto simp: kSampleSha_def kHex_def list_all_iff)
  have inv: "uploads_inv ?E ''/t'' d"
    using Handle_effect [OF call uploads_inv_clean, of "''transfer.begin''"] d(1)
      effect_inv [OF _ uploads_inv_clean _ transfer_path_def, of ?E 5 "''/t''" "''ab''" _ d]
    by (auto simp: ascii_def)
  have h: "stored ?E d ?p ?m" "transfer_ok ?E d ?p ?m" "no_faults d" "content d (?p @ ''.data'') \<noteq> None"
      "\<not> mf_committed ?m" using d(2) by (auto simp: holding_def)
  obtain k d' where d': "Handle ?E 5 ''/t'' d ''ab'' ''transfer.chunk'' (chunk_params ''t1'' (mf_next ?m) ''hi'') = Some (Ok, k, d')"
    using chunk_no_faults [OF json_codec_coded sample_id _ _ h(5) _ h(1,2,3,4), of "''hi''" 5] by (auto simp: fresh_manifest_def)
  have "sent ?E ''/t'' ''ab'' ''transfer.chunk'' (chunk_params ''t1'' (mf_next ?m) ''hi'') (int (mf_expires ?m)) d Ok d'"
    by (rule sent.first [OF _ d']) (simp add: fresh_manifest_def)
  with chunk_exactly_once [OF json_codec_coded inv _ sample_id h(1,5) _ _ _ this] h(5) show ?thesis
    by (fastforce simp: fresh_manifest_def UINT32_MAX_def)
qed

subsection \<open>Expiry\<close>

lemma unlink_content:
  assumes "unlink_file d q = (r, d')"
  shows "x \<noteq> q \<Longrightarrow> content d' x = content d x" and "content d' q \<in> {content d q, None}"
    and "no_faults d \<Longrightarrow> no_faults d' \<and> content d' q = None" and "wf_disk d \<Longrightarrow> wf_disk d'"
  using assms by (auto simp: unlink_file_def io_simps distinct_delete split: if_splits)

text \<open>Files only disappear, and only the files of expired transfers.\<close>

definition expired_only :: "env \<Rightarrow> int \<Rightarrow> disk \<Rightarrow> disk \<Rightarrow> bool" where
  "expired_only E now d d' \<longleftrightarrow>
     (\<forall>q. content d' q = content d q \<or> content d' q = None \<and>
        (\<exists>p m. stored E d p m \<and> int (mf_expires m) \<le> now \<and> q \<in> {p @ ''.json'', p @ ''.data''}))"

lemma expired_only_refl [simp]: "expired_only E now d d"
  by (simp add: expired_only_def)

lemma stored_mono: "expired_only E now d d' \<Longrightarrow> stored E d' p m \<Longrightarrow> stored E d p m"
  using stored_some [of E d' p m] stored_cong [of d' p d E m] unfolding expired_only_def by metis

lemma expired_only_trans:
  assumes "expired_only E now d d1" and "expired_only E now d1 d2"
  shows "expired_only E now d d2"
  unfolding expired_only_def
proof
  fix q
  from assms(2) consider "content d2 q = content d1 q" |
    p m where "content d2 q = None" "stored E d p m" "int (mf_expires m) \<le> now" "q \<in> {p @ ''.json'', p @ ''.data''}"
    unfolding expired_only_def using stored_mono [OF assms(1)] by metis
  then show "content d2 q = content d q \<or> content d2 q = None \<and>
      (\<exists>p m. stored E d p m \<and> int (mf_expires m) \<le> now \<and> q \<in> {p @ ''.json'', p @ ''.data''})"
    using assms(1) unfolding expired_only_def by cases metis+
qed

lemma expire_one:
  assumes inv: "uploads_inv E dir d" and m: "stored E d p m" "transfer_ok E d p m" "int (mf_expires m) \<le> now"
    and u: "unlink_file d (p @ ''.data'') = (r1, d1)" "unlink_file d1 (p @ ''.json'') = (r2, d2)"
  shows "uploads_inv E dir d2" and "expired_only E now d d2"
    and "no_faults d \<Longrightarrow> no_faults d2 \<and> content d2 (p @ ''.json'') = None \<and> content d2 (p @ ''.data'') = None"
proof -
  note c1 = unlink_content [OF u(1)] and c2 = unlink_content [OF u(2)]
  have keep: "content d2 x = content d x" if "x \<notin> {p @ ''.json'', p @ ''.data''}" for x
    using c1(1) [of x] c2(1) [of x] that by simp
  have data: "content d2 (p @ ''.data'') \<in> {content d (p @ ''.data''), None}"
    using c1(2) c2(1) [of "p @ ''.data''"] by simp
  have json: "content d2 (p @ ''.json'') \<in> {content d (p @ ''.json''), None}"
    using c2(2) c1(1) [of "p @ ''.json''"] by simp
  have t: "touches_only p d d2"
    using keep c1(4) c2(4) by (auto simp: touches_only_def own_files_def)
  show "uploads_inv E dir d2"
  proof (rule uploads_inv_frame [OF inv t])
    assume "content d2 (p @ ''.json'') \<noteq> None"
    then have "content d2 (p @ ''.json'') = content d (p @ ''.json'')" using json by (simp only: insert_iff empty_iff) blast
    then have "stored E d2 p m" using m(1) stored_cong by blast
    moreover have "transfer_ok E d2 p m" using m(2) data by (auto simp: transfer_ok_def)
    ultimately show "\<exists>m. stored E d2 p m \<and> transfer_ok E d2 p m" by blast
  qed
  show "expired_only E now d d2"
    unfolding expired_only_def
  proof
    fix q
    show "content d2 q = content d q \<or> content d2 q = None \<and>
        (\<exists>p m. stored E d p m \<and> int (mf_expires m) \<le> now \<and> q \<in> {p @ ''.json'', p @ ''.data''})"
    proof (cases "q \<in> {p @ ''.json'', p @ ''.data''}")
      case True
      then have "content d2 q \<in> {content d q, None}"
        using data json by (auto simp only: insert_iff empty_iff)
      then show ?thesis using True m(1,3) by blast
    qed (use keep in blast)
  qed
  show "no_faults d \<Longrightarrow> no_faults d2 \<and> content d2 (p @ ''.json'') = None \<and> content d2 (p @ ''.data'') = None"
    using c1(3) c2(3) c2(1) [of "p @ ''.data''"] by simp
qed

definition cleared :: "env \<Rightarrow> int \<Rightarrow> path set \<Rightarrow> disk \<Rightarrow> disk \<Rightarrow> bool" where
  "cleared E now Q d d' \<longleftrightarrow>
     (\<forall>p m. p @ ''.json'' \<in> Q \<and> stored E d p m \<and> int (mf_expires m) \<le> now \<longrightarrow>
        content d' (p @ ''.json'') = None \<and> content d' (p @ ''.data'') = None)"

lemma cleared_insert:
  assumes "cleared E now Q d d'"
    and "\<And>p m. q = p @ ''.json'' \<Longrightarrow> stored E d p m \<Longrightarrow> int (mf_expires m) \<le> now \<Longrightarrow>
      content d' (p @ ''.json'') = None \<and> content d' (p @ ''.data'') = None"
  shows "cleared E now (insert q Q) d d'"
  using assms unfolding cleared_def by blast

lemma cleared_step:
  assumes "cleared E now Q d2 d'" and "expired_only E now d2 d'"
    and "\<And>p'. p' \<noteq> p \<Longrightarrow> content d2 (p' @ ''.json'') = content d (p' @ ''.json'')"
    and "content d2 (p @ ''.json'') = None" "content d2 (p @ ''.data'') = None"
  shows "cleared E now (insert (p @ ''.json'') Q) d d'"
  unfolding cleared_def
proof (intro allI impI, elim conjE)
  fix p' m assume a: "p' @ ''.json'' \<in> insert (p @ ''.json'') Q" "stored E d p' m" "int (mf_expires m) \<le> now"
  show "content d' (p' @ ''.json'') = None \<and> content d' (p' @ ''.data'') = None"
  proof (cases "p' = p")
    case True
    have gone: "content d' q = None" if "content d2 q = None" for q
      using assms(2) that unfolding expired_only_def by metis
    show ?thesis unfolding True using gone [OF assms(4)] gone [OF assms(5)] by (rule conjI)
  next
    case False
    then have "stored E d2 p' m" using a(2) stored_cong [OF assms(3)] by blast
    then show ?thesis using assms(1) a False unfolding cleared_def by auto
  qed
qed

lemma expire_entries_ok:
  assumes "uploads_inv E dir d" and "\<forall>q \<in> set entries. ParentDirectory q = dir"
  shows "\<exists>d'. expire_entries E now d entries = Some d' \<and> uploads_inv E dir d' \<and> expired_only E now d d' \<and>
    (no_faults d \<longrightarrow> cleared E now (set entries) d d')"
  using assms
proof (induction entries arbitrary: d)
  case (Cons q entries)
  have rest: "\<forall>q \<in> set entries. ParentDirectory q = dir" using Cons.prems(2) by simp
  obtain e1 where e1: "expire_entries E now d entries = Some e1" "uploads_inv E dir e1" "expired_only E now d e1"
      "no_faults d \<longrightarrow> cleared E now (set entries) d e1"
    using Cons.IH [OF Cons.prems(1) rest] by blast
  have skip: ?case if "expire_entries E now d (q # entries) = expire_entries E now d entries"
    "\<And>p m. q = p @ ''.json'' \<Longrightarrow> stored E d p m \<Longrightarrow> \<not> int (mf_expires m) \<le> now"
    unfolding that(1) using e1 cleared_insert [of E now "set entries" d e1 q] that(2) by auto
  show ?case
  proof (cases "ends_with q ''.json'' \<and> is_object (ReadManifest E d q)")
    case False
    then show ?thesis by (intro skip) (auto simp: stored_def)
  next
    case True
    then have "content d q \<noteq> None" by (auto simp: ReadManifest_def split: option.splits)
    then have "q \<in> json_files dir d" using True Cons.prems(2) by (simp add: json_files_def)
    then obtain p m where p: "q = p @ ''.json''" "stored E d p m" "transfer_ok E d p m"
      using uploads_inv_json [OF Cons.prems(1)] by blast
    note b = transfer_ok_bounds(7) [OF p(3)]
    show ?thesis
    proof (cases "now < int (mf_expires m)")
      case True
      then show ?thesis using p b by (intro skip) (auto simp: stored_def Let_def)
    next
      case False
      obtain r1 d1 r2 d2 where u: "unlink_file d (p @ ''.data'') = (r1, d1)" "unlink_file d1 (p @ ''.json'') = (r2, d2)"
        by (metis surj_pair)
      have step: "expire_entries E now d (q # entries) = expire_entries E now d2 entries"
        using p b False u by (simp add: stored_def Let_def)
      have "int (mf_expires m) \<le> now" using False by simp
      note e = expire_one [OF Cons.prems(1) p(2,3) this u]
      obtain d' where d': "expire_entries E now d2 entries = Some d'" "uploads_inv E dir d'" "expired_only E now d2 d'"
        "no_faults d2 \<longrightarrow> cleared E now (set entries) d2 d'"
        using Cons.IH [OF e(1) rest] by blast
      have "content d2 (p' @ ''.json'') = content d (p' @ ''.json'')" if "p' \<noteq> p" for p'
        using unlink_content(1) [OF u(1), of "p' @ ''.json''"] unlink_content(1) [OF u(2), of "p' @ ''.json''"] that by simp
      then have "cleared E now (set (q # entries)) d d'" if "no_faults d"
        using cleared_step [OF _ d'(3)] d'(4) e(3) [OF that] p(1) by simp
      then show ?thesis unfolding step using d'(1,2) expired_only_trans [OF e(2) d'(3)] by blast
    qed
  qed
qed (simp add: cleared_def)

text \<open>
  C14. Expiry returns, keeps the directory sound, and removes nothing but the two files of transfers
  whose time is over; when no system call fails, it removes all of those.
\<close>

theorem expire_safe:
  assumes "uploads_inv E dir d"
  shows "\<exists>d'. Expire E now dir d = Some d' \<and> uploads_inv E dir d' \<and> expired_only E now d d' \<and>
    (no_faults d \<longrightarrow> cleared E now (json_files dir d) d d')"
proof -
  obtain s entries d1 where l: "ListFiles d dir = (s, entries, d1)" by (metis prod_cases3)
  have wf: "wf_disk d" using assms by (simp add: uploads_inv_def)
  have same: "same_files d d1" and par: "\<forall>q \<in> set entries. ParentDirectory q = dir"
    and ok: "no_faults d \<Longrightarrow> st_ok s \<and> no_faults d1"
    using l by (auto simp: ListFiles_def same_files_def io_simps Let_def split: if_splits)
  have c: "content d1 q = content d q" "stored E d1 p m = stored E d p m" "transfer_ok E d1 p m = transfer_ok E d p m" for q p m
    using same_files_content [OF same] same_files_read [OF same] by (simp_all add: stored_def transfer_ok_def)
  have inv: "uploads_inv E dir d1" using assms same c unfolding uploads_inv_def same_files_def by simp
  have only: "expired_only E now d d' = expired_only E now d1 d'" for d' by (simp add: expired_only_def c)
  show ?thesis
  proof (cases "st_ok s")
    case False
    then have "Expire E now dir d = Some d1" using l by (simp add: Expire_def)
    then show ?thesis using inv ok False only by auto
  next
    case True
    then have "Expire E now dir d = expire_entries E now d1 entries" using l by (simp add: Expire_def)
    moreover have "q \<in> json_files dir d \<Longrightarrow> q \<in> set entries" for q
      using ListFiles_entries(3) [OF l wf True] by auto
    moreover obtain d' where d': "expire_entries E now d1 entries = Some d'" "uploads_inv E dir d'"
        "expired_only E now d1 d'" "no_faults d1 \<longrightarrow> cleared E now (set entries) d1 d'"
      using expire_entries_ok [OF inv par] by blast
    moreover have "cleared E now (json_files dir d) d d'" if "no_faults d"
      using d'(4) ok [OF that] calculation(2) unfolding cleared_def c(2) by blast
    ultimately show ?thesis using only by simp
  qed
qed

theorem expire_safe_witness:
  "\<exists>d'. Expire coded_env 700 ''/t'' clean_disk = Some d' \<and> uploads_inv coded_env ''/t'' d'"
  using expire_safe [OF uploads_inv_clean [of coded_env "''/t''"], of 700] by blast

end
