(* ===== verification/Journal.thy ===== *)
theory Journal
  imports Common
begin

text \<open>
  The SQLite journal of \<open>src/store.cc\<close>: the tables \<open>sessions\<close> and \<open>jobs\<close> as lists of rows
  in \<open>rowid\<close> order, and one function per SQL statement that \<open>src/main.cc\<close> issues. A statement
  that violates a constraint (primary key, unique, foreign key) gives \<open>None\<close>: \<open>Store::Query\<close> then
  ends the process. Integer columns hold the integers their decimal text denotes.
\<close>

subsection \<open>Tables\<close>

record session =
  s_sid :: string
  s_client :: string
  s_registration :: string
  s_expires :: int

datatype jstate = Queued | Running | Done

record job =
  j_sid :: string
  j_id :: string
  j_body :: string
  j_state :: jstate
  j_path :: path
  j_offset :: nat
  j_size :: nat
  j_expires :: int

record journal =
  sessions :: "session list"
  jobs :: "job list"

definition empty_journal :: journal where
  "empty_journal = \<lparr>sessions = [], jobs = []\<rparr>"

abbreviation job_key :: "job \<Rightarrow> string \<times> string" where
  "job_key r \<equiv> (j_sid r, j_id r)"

abbreviation reg_key :: "session \<Rightarrow> string \<times> string" where
  "reg_key s \<equiv> (s_client s, s_registration s)"

text \<open>SQL \<open>length\<close> of a text counts characters, not bytes: UTF-8 continuation bytes do not count.\<close>

definition sql_length :: "string \<Rightarrow> nat" where
  "sql_length s = length (filter (\<lambda>c. of_char c div 64 \<noteq> (2 :: nat)) s)"

subsection \<open>Queries\<close>

definition find_session :: "string \<Rightarrow> string \<Rightarrow> journal \<Rightarrow> session list" where
  "find_session client registration db =
     filter (\<lambda>s. s_client s = client \<and> s_registration s = registration) (sessions db)"

definition count_sessions :: "journal \<Rightarrow> nat" where
  "count_sessions db = length (sessions db)"

definition live_sessions :: "int \<Rightarrow> journal \<Rightarrow> session list" where
  "live_sessions now db = filter (\<lambda>s. now < s_expires s) (sessions db)"

definition expired_sessions :: "int \<Rightarrow> journal \<Rightarrow> session list" where
  "expired_sessions now db = filter (\<lambda>s. s_expires s \<le> now) (sessions db)"

definition find_job :: "string \<Rightarrow> string \<Rightarrow> journal \<Rightarrow> job list" where
  "find_job sid rid db = filter (\<lambda>r. j_sid r = sid \<and> j_id r = rid) (jobs db)"

definition count_jobs :: "string \<Rightarrow> journal \<Rightarrow> nat" where
  "count_jobs sid db = length (filter (\<lambda>r. j_sid r = sid) (jobs db))"

definition retained_length :: "journal \<Rightarrow> nat" where
  "retained_length db = (\<Sum>r \<leftarrow> jobs db. sql_length (j_body r))"

definition first_queued :: "journal \<Rightarrow> job list" where
  "first_queued db = take 1 (filter (\<lambda>r. j_state r = Queued) (jobs db))"

definition started_jobs :: "journal \<Rightarrow> job list" where
  "started_jobs db = filter (\<lambda>r. j_state r \<noteq> Queued) (jobs db)"

definition used_bytes :: "journal \<Rightarrow> nat" where
  "used_bytes db = (\<Sum>r \<leftarrow> jobs db. j_size r)"

definition session_used :: "string \<Rightarrow> journal \<Rightarrow> nat" where
  "session_used sid db = (\<Sum>r \<leftarrow> filter (\<lambda>r. j_sid r = sid) (jobs db). j_size r)"

definition deliverable_jobs :: "string \<Rightarrow> journal \<Rightarrow> job list" where
  "deliverable_jobs sid db =
     take 1 (filter (\<lambda>r. j_sid r = sid \<and> j_state r = Done \<and> j_offset r < j_size r) (jobs db))"

definition session_paths :: "string \<Rightarrow> journal \<Rightarrow> path list" where
  "session_paths sid db = map j_path (filter (\<lambda>r. j_sid r = sid) (jobs db))"

subsection \<open>Updates\<close>

definition insert_session :: "session \<Rightarrow> journal \<Rightarrow> journal option" where
  "insert_session s db =
     (if s_sid s \<in> s_sid ` set (sessions db) \<or> reg_key s \<in> reg_key ` set (sessions db) then None
      else Some (db\<lparr>sessions := sessions db @ [s]\<rparr>))"

definition insert_job :: "string \<Rightarrow> string \<Rightarrow> string \<Rightarrow> path \<Rightarrow> int \<Rightarrow> journal \<Rightarrow> journal option" where
  "insert_job sid rid body p expires db =
     (if sid \<notin> s_sid ` set (sessions db) \<or> (sid, rid) \<in> job_key ` set (jobs db) then None
      else Some (db\<lparr>jobs := jobs db @ [\<lparr>j_sid = sid, j_id = rid, j_body = body, j_state = Queued, j_path = p,
             j_offset = 0, j_size = 0, j_expires = expires\<rparr>]\<rparr>))"

definition update_job :: "string \<Rightarrow> string \<Rightarrow> (job \<Rightarrow> job) \<Rightarrow> journal \<Rightarrow> journal" where
  "update_job sid rid f db =
     db\<lparr>jobs := map (\<lambda>r. if j_sid r = sid \<and> j_id r = rid then f r else r) (jobs db)\<rparr>"

definition set_running :: "string \<Rightarrow> string \<Rightarrow> journal \<Rightarrow> journal" where
  "set_running sid rid = update_job sid rid (\<lambda>r. r\<lparr>j_state := Running\<rparr>)"

definition set_done :: "nat \<Rightarrow> string \<Rightarrow> string \<Rightarrow> journal \<Rightarrow> journal" where
  "set_done sz sid rid = update_job sid rid (\<lambda>r. r\<lparr>j_state := Done, j_size := sz, j_offset := 0\<rparr>)"

definition set_offset :: "nat \<Rightarrow> string \<Rightarrow> string \<Rightarrow> journal \<Rightarrow> journal" where
  "set_offset n sid rid = update_job sid rid (\<lambda>r. r\<lparr>j_offset := n\<rparr>)"

definition set_expires :: "int \<Rightarrow> string \<Rightarrow> journal \<Rightarrow> journal" where
  "set_expires t sid db =
     db\<lparr>sessions := map (\<lambda>s. if s_sid s = sid then s\<lparr>s_expires := t\<rparr> else s) (sessions db)\<rparr>"

text \<open>Deleting a session cascades to its jobs.\<close>

definition delete_session :: "string \<Rightarrow> journal \<Rightarrow> journal" where
  "delete_session sid db =
     db\<lparr>sessions := filter (\<lambda>s. s_sid s \<noteq> sid) (sessions db),
        jobs := filter (\<lambda>r. j_sid r \<noteq> sid) (jobs db)\<rparr>"

subsection \<open>Keys and quotas\<close>

definition kRetained :: nat where "kRetained = 16 * 1024 * 1024"

definition wf_journal :: "journal \<Rightarrow> bool" where
  "wf_journal db \<longleftrightarrow> distinct (map s_sid (sessions db)) \<and> distinct (map reg_key (sessions db)) \<and>
     distinct (map job_key (jobs db)) \<and> j_sid ` set (jobs db) \<subseteq> s_sid ` set (sessions db)"

definition journal_quota :: "journal \<Rightarrow> bool" where
  "journal_quota db \<longleftrightarrow> count_sessions db \<le> kSessions \<and> (\<forall>sid. count_jobs sid db \<le> kJobsPerSession) \<and>
     retained_length db \<le> kRetained"

text \<open>Updates of single rows that keep keys and bodies.\<close>

definition same_identity :: "(job \<Rightarrow> job) \<Rightarrow> bool" where
  "same_identity f \<longleftrightarrow> (\<forall>r. job_key (f r) = job_key r \<and> j_body (f r) = j_body r \<and> j_path (f r) = j_path r)"

lemma update_job_map:
  assumes "same_identity f"
  shows "map job_key (jobs (update_job sid rid f db)) = map job_key (jobs db)"
    "map j_body (jobs (update_job sid rid f db)) = map j_body (jobs db)"
    "map j_sid (jobs (update_job sid rid f db)) = map j_sid (jobs db)"
    "sessions (update_job sid rid f db) = sessions db"
  using assms by (auto simp: update_job_def same_identity_def)

lemma wf_update_job: "same_identity f \<Longrightarrow> wf_journal (update_job sid rid f db) = wf_journal db"
  using update_job_map [of f sid rid db] by (simp add: wf_journal_def) (metis list.set_map)

lemma quota_update_job:
  assumes "same_identity f"
  shows "journal_quota (update_job sid rid f db) = journal_quota db"
proof -
  have c: "count_jobs s db = length (filter (\<lambda>x. x = s) (map j_sid (jobs db)))" for s db
    by (simp add: count_jobs_def comp_def filter_map)
  have r: "retained_length db = sum_list (map sql_length (map j_body (jobs db)))" for db
    by (simp add: retained_length_def comp_def)
  show ?thesis
    using update_job_map [OF assms, of sid rid db] by (simp only: journal_quota_def count_sessions_def c r)
qed

lemma same_identity_updates [simp]:
  "same_identity (\<lambda>r. r\<lparr>j_state := st\<rparr>)" "same_identity (\<lambda>r. r\<lparr>j_offset := n\<rparr>)"
  "same_identity (\<lambda>r. r\<lparr>j_state := st, j_size := n, j_offset := k\<rparr>)"
  by (simp_all add: same_identity_def)

lemma wf_updates [sql_simps]:
  "wf_journal (set_running sid rid db) = wf_journal db" "wf_journal (set_done n sid rid db) = wf_journal db"
  "wf_journal (set_offset n sid rid db) = wf_journal db"
  by (simp_all add: set_running_def set_done_def set_offset_def wf_update_job)

lemma quota_updates [sql_simps]:
  "journal_quota (set_running sid rid db) = journal_quota db" "journal_quota (set_done n sid rid db) = journal_quota db"
  "journal_quota (set_offset n sid rid db) = journal_quota db"
  by (simp_all add: set_running_def set_done_def set_offset_def quota_update_job)

lemma set_expires_map:
  "map s_sid (sessions (set_expires t sid db)) = map s_sid (sessions db)"
  "map reg_key (sessions (set_expires t sid db)) = map reg_key (sessions db)"
  "jobs (set_expires t sid db) = jobs db"
  by (auto simp: set_expires_def)

lemma wf_set_expires [sql_simps]: "wf_journal (set_expires t sid db) = wf_journal db"
  using set_expires_map [of t sid db] by (simp add: wf_journal_def) (metis list.set_map)

lemma quota_set_expires [sql_simps]: "journal_quota (set_expires t sid db) = journal_quota db"
  by (simp add: journal_quota_def count_sessions_def count_jobs_def retained_length_def set_expires_def)

lemma wf_delete_session: "wf_journal db \<Longrightarrow> wf_journal (delete_session sid db)"
  by (auto simp: wf_journal_def delete_session_def distinct_map_filter)

lemma count_filtered_le: "length (filter (\<lambda>r. keep r \<and> sel r) rows) \<le> length (filter sel rows)"
  by (induction rows) auto

lemma sum_list_filter_le: "sum_list (map f (filter P xs)) \<le> sum_list (map f xs)" for f :: "'a \<Rightarrow> nat"
  by (induction xs) auto

lemma quota_delete_session:
  assumes "journal_quota db"
  shows "journal_quota (delete_session sid db)"
proof -
  have "length (filter (\<lambda>s. s_sid s \<noteq> sid) (sessions db)) \<le> kSessions"
    using assms length_filter_le order_trans unfolding journal_quota_def count_sessions_def by blast
  moreover have "count_jobs x (delete_session sid db) \<le> kJobsPerSession" for x
  proof -
    have "count_jobs x (delete_session sid db) \<le> count_jobs x db"
      using count_filtered_le [of "\<lambda>r. j_sid r \<noteq> sid" "\<lambda>r. j_sid r = x" "jobs db"]
      by (simp add: count_jobs_def delete_session_def conj_commute)
    then show ?thesis using assms order_trans unfolding journal_quota_def by blast
  qed
  moreover have "retained_length (delete_session sid db) \<le> kRetained"
    using sum_list_filter_le [of "\<lambda>r. sql_length (j_body r)" "\<lambda>r. j_sid r \<noteq> sid" "jobs db"] assms
    by (simp add: retained_length_def delete_session_def journal_quota_def)
  ultimately show ?thesis by (simp add: journal_quota_def count_sessions_def delete_session_def)
qed

lemma wf_insert_session:
  assumes "insert_session s db = Some db'" and "wf_journal db"
  shows "wf_journal db'"
proof -
  have "db' = db\<lparr>sessions := sessions db @ [s]\<rparr>" "s_sid s \<notin> s_sid ` set (sessions db)"
      "reg_key s \<notin> reg_key ` set (sessions db)"
    using assms(1) by (simp_all add: insert_session_def split: if_splits)
  then show ?thesis using assms(2) by (simp add: wf_journal_def subset_insertI2)
qed

lemma quota_insert_session:
  "insert_session s db = Some db' \<Longrightarrow> journal_quota db \<Longrightarrow> count_sessions db < kSessions \<Longrightarrow> journal_quota db'"
  by (auto simp: insert_session_def journal_quota_def count_sessions_def count_jobs_def retained_length_def
      split: if_splits)

lemma wf_insert_job:
  assumes "insert_job sid rid body p t db = Some db'" and "wf_journal db"
  shows "wf_journal db'"
proof -
  have "(sid, rid) \<notin> job_key ` set (jobs db)" "sid \<in> s_sid ` set (sessions db)" "sessions db' = sessions db"
      "map job_key (jobs db') = map job_key (jobs db) @ [(sid, rid)]"
      "j_sid ` set (jobs db') = insert sid (j_sid ` set (jobs db))"
    using assms(1) by (auto simp: insert_job_def split: if_splits)
  then show ?thesis using assms(2) by (simp add: wf_journal_def)
qed

lemma sql_length_le: "sql_length s \<le> length s"
  by (simp add: sql_length_def)

lemma quota_insert_job:
  assumes "insert_job sid rid body p t db = Some db'" and "journal_quota db"
    and "count_jobs sid db < kJobsPerSession" and "retained_length db + length body \<le> kRetained"
  shows "journal_quota db'"
  using assms sql_length_le [of body]
  by (auto simp: insert_job_def journal_quota_def count_sessions_def count_jobs_def retained_length_def
      split: if_splits)

end
