(* ===== verification/Redis.thy ===== *)
theory Redis
  imports Common
begin

text \<open>
  Class \<open>RedisTransport\<close> of \<open>src/redis_transport.cc\<close> and the stream helpers of \<open>src/main.cc\<close>.
  The hiredis client together with the server behind it is a parameter: a record of the library
  calls over an abstract state \<open>'r\<close>. Nothing is assumed of it here, so a command may be lost before
  or after the server has executed it.
\<close>

datatype redis_reply =
  RString string | RStatus string | RError string | RInteger int | RNil | RArray "redis_reply list"

record 'r hiredis =
  h_live :: "'r \<Rightarrow> bool"
  h_open :: "'r \<Rightarrow> 'r"
  h_timeout :: "'r \<Rightarrow> bool \<times> 'r"
  h_free :: "'r \<Rightarrow> 'r"
  h_send :: "string list \<Rightarrow> 'r \<Rightarrow> redis_reply option \<times> 'r"

record credentials =
  redis_password :: "string option"
  redis_username :: "string option"

text \<open>The member \<open>str\<close> of a reply: null for integers, arrays and nil.\<close>

fun rstr :: "redis_reply \<Rightarrow> string option" where
  "rstr (RString s) = Some s"
| "rstr (RStatus s) = Some s"
| "rstr (RError s) = Some s"
| "rstr _ = None"

subsection \<open>The transport\<close>

definition Command :: "'r hiredis \<Rightarrow> string list \<Rightarrow> 'r \<Rightarrow> redis_reply option \<times> 'r" where
  "Command H args r = (if \<not> h_live H r then (None, r) else h_send H args r)"

definition Connect :: "'r hiredis \<Rightarrow> credentials \<Rightarrow> 'r \<Rightarrow> bool \<times> 'r" where
  "Connect H cred r =
     (if h_live H r then (True, r)
      else
        (let r1 = h_open H r in
         if \<not> h_live H r1 then (False, r1)
         else
           (let (timed, r2) = h_timeout H r1 in
            if \<not> timed then (False, r2)
            else
              (case redis_password cred of
                 None \<Rightarrow> (True, r2)
               | Some password \<Rightarrow>
                   (let (reply, r3) = Command H
                      (case redis_username cred of
                         Some username \<Rightarrow> [''AUTH'', username, password]
                       | None \<Rightarrow> [''AUTH'', password]) r2 in
                    case reply of
                      None \<Rightarrow> (False, h_free H r3)
                    | Some (RError _) \<Rightarrow> (False, h_free H r3)
                    | Some _ \<Rightarrow> (True, r3))))))"

definition kPublishScript :: string where
  "kPublishScript =
     ''if redis.call('' @ [CHR 39] @ ''XLEN'' @ [CHR 39] @ '',KEYS[1]) >= tonumber(ARGV[1]) then return false end '' @
     ''local id=redis.call('' @ [CHR 39] @ ''XADD'' @ [CHR 39] @ '',KEYS[1],'' @ [CHR 39] @ ''*'' @ [CHR 39] @ '','' @
     [CHR 39] @ ''json'' @ [CHR 39] @ '',ARGV[2]); redis.call('' @ [CHR 39] @ ''EXPIRE'' @ [CHR 39] @
     '',KEYS[1],ARGV[3]); return id''"

definition publish_args :: "string \<Rightarrow> string \<Rightarrow> string list" where
  "publish_args stream json =
     [''EVAL'', kPublishScript, ''1'', stream, to_string kWindow, json, int_to_string kLeaseSeconds]"

definition Publish :: "'r hiredis \<Rightarrow> string \<Rightarrow> string \<Rightarrow> 'r \<Rightarrow> bool \<times> 'r" where
  "Publish H stream json r =
     (let (reply, r') = Command H (publish_args stream json) r in
      (case reply of Some (RString _) \<Rightarrow> True | _ \<Rightarrow> False, r'))"

subsection \<open>Streams\<close>

record entry =
  e_id :: string
  e_body :: string

fun json_field :: "redis_reply list \<Rightarrow> string \<Rightarrow> string" where
  "json_field (k # v # rest) body =
     json_field rest (case (rstr k, rstr v) of (Some key, Some value) \<Rightarrow> if key = ''json'' then value else body | _ \<Rightarrow> body)"
| "json_field _ body = body"

definition first_entry :: "redis_reply option \<Rightarrow> entry option" where
  "first_entry reply =
     (case reply of
        Some (RArray (RArray [nm, fv] # _)) \<Rightarrow>
          (case rstr nm of
             None \<Rightarrow> None
           | Some i \<Rightarrow> Some \<lparr>e_id = i, e_body = (case fv of RArray fs \<Rightarrow> json_field fs [] | _ \<Rightarrow> [])\<rparr>)
      | _ \<Rightarrow> None)"

definition ReadFirst :: "'r hiredis \<Rightarrow> string \<Rightarrow> 'r \<Rightarrow> entry option \<times> 'r" where
  "ReadFirst H key r =
     (let (reply, r') = Command H [''XRANGE'', key, ''-'', ''+'', ''COUNT'', ''1''] r in (first_entry reply, r'))"

definition Remove :: "'r hiredis \<Rightarrow> string \<Rightarrow> entry \<Rightarrow> 'r \<Rightarrow> 'r" where
  "Remove H key e r = snd (Command H [''XDEL'', key, e_id e] r)"

end
