(* ===== verification/Spool.thy ===== *)
theory Spool
  imports Files Sample
begin

text \<open>
  Class \<open>Spool\<close> of \<open>src/common.cc\<close>: the disk-backed response stream of one job. Each frame
  is one line of JSON carrying its sequence number; a logical record too large for one frame is
  cut into base64 fragments; the quota always keeps 1024 bytes for a terminal error. Member
  functions take the object and the disk and return them updated.
\<close>

record spool =
  sp_path :: path
  sp_id :: string
  sp_fd :: bool
  sp_seq :: nat
  sp_items :: nat
  sp_bytes :: nat
  sp_limit :: nat
  sp_status :: status

definition newline :: string where "newline = [CHR 10]"

definition kBlock :: nat where "kBlock = 48 * 1024"

subsection \<open>Operations\<close>

definition Spool_new :: "disk \<Rightarrow> path \<Rightarrow> string \<Rightarrow> nat \<Rightarrow> spool \<times> disk" where
  "Spool_new d p rid limit =
     (let (opened, d') = open_trunc d p;
          sp = \<lparr>sp_path = p, sp_id = rid, sp_fd = opened, sp_seq = 0, sp_items = 0, sp_bytes = 0,
                sp_limit = limit, sp_status = Ok\<rparr>
      in (if opened then sp
          else sp\<lparr>sp_status := mk_status ''storage_error'' ''Cannot create response spool''\<rparr>, d'))"

definition Spool_Write :: "env \<Rightarrow> spool \<Rightarrow> disk \<Rightarrow> json \<Rightarrow> bool \<Rightarrow> bool \<times> spool \<times> disk" where
  "Spool_Write E sp d frame terminal =
     (let line = dump_r E (jset frame ''seq'' (JUint (sp_seq sp))) @ newline in
      if kFrameBytes < length line \<or> \<not> terminal \<and> sp_limit sp < sp_bytes sp + length line + 1024 then
        (False, sp\<lparr>sp_status := mk_status ''quota_exceeded'' ''Response spool or record limit exceeded''\<rparr>, d)
      else
        (let (wrote, d') = (if sp_fd sp then append_file d (sp_path sp) line else (False, d)) in
         if \<not> wrote then
           (False, sp\<lparr>sp_status := mk_status ''storage_error'' ''Response spool write failed''\<rparr>, d')
         else (True, sp\<lparr>sp_bytes := sp_bytes sp + length line, sp_seq := Suc (sp_seq sp)\<rparr>, d')))"

definition fragment :: "env \<Rightarrow> string \<Rightarrow> nat \<Rightarrow> nat \<Rightarrow> nat \<Rightarrow> string \<Rightarrow> string \<Rightarrow> json" where
  "fragment E rid record_no offset tot sha block =
     jobj [(''id'', JString rid), (''type'', JString ''fragment''), (''record'', JUint record_no),
           (''offset'', JUint offset), (''total'', JUint tot), (''sha256'', JString sha),
           (''encoding'', JString ''base64-json''), (''data'', JString (enc64 E block))]"

function write_fragments ::
  "env \<Rightarrow> string \<Rightarrow> string \<Rightarrow> nat \<Rightarrow> nat \<Rightarrow> spool \<Rightarrow> disk \<Rightarrow> bool \<times> spool \<times> disk" where
  "write_fragments E body sha record_no offset sp d =
     (if offset < length body then
        (let size = min kBlock (length body - offset);
             (ok, sp', d') = Spool_Write E sp d
               (fragment E (sp_id sp) record_no offset (length body) sha (take size (drop offset body))) False in
         if ok then write_fragments E body sha record_no (offset + kBlock) sp' d' else (False, sp', d'))
      else (True, sp, d))"
  by pat_completeness auto
termination
  by (relation "measure (\<lambda>(E, body, sha, r, offset, sp, d). length body - offset)")
    (auto simp: kBlock_def)

declare write_fragments.simps [simp del]

definition WriteRecord :: "env \<Rightarrow> spool \<Rightarrow> disk \<Rightarrow> json \<Rightarrow> bool \<times> spool \<times> disk" where
  "WriteRecord E sp d frame =
     (let body = dump_r E frame in
      if length body + 64 \<le> kFrameBytes then Spool_Write E sp d frame False
      else if kRecordBytes < length body then
        (False, sp\<lparr>sp_status := mk_status ''payload_too_large'' ''Logical response exceeds 16 MiB''\<rparr>, d)
      else write_fragments E body (Sha256 E body) (sp_seq sp) 0 sp d)"

definition chunk_frame :: "string \<Rightarrow> json \<Rightarrow> json" where
  "chunk_frame rid item =
     jobj [(''id'', JString rid), (''type'', JString ''chunk''), (''items'', JArray [item])]"

definition Spool_Add :: "env \<Rightarrow> spool \<Rightarrow> disk \<Rightarrow> json \<Rightarrow> bool \<times> spool \<times> disk" where
  "Spool_Add E sp d item =
     (if \<not> st_ok (sp_status sp) then (False, sp, d)
      else
        (let (ok, sp', d') = WriteRecord E sp d (chunk_frame (sp_id sp) item) in
         if \<not> ok then (False, sp', d') else (True, sp'\<lparr>sp_items := Suc (sp_items sp')\<rparr>, d')))"

definition complete_frame :: "spool \<Rightarrow> json" where
  "complete_frame sp =
     jobj [(''id'', JString (sp_id sp)), (''type'', JString ''complete''),
           (''chunks'', JUint (sp_seq sp)), (''items'', JUint (sp_items sp))]"

definition Spool_Finish :: "env \<Rightarrow> spool \<Rightarrow> disk \<Rightarrow> status \<Rightarrow> status \<times> spool \<times> disk" where
  "Spool_Finish E sp d st =
     (if st_code (sp_status sp) = ''storage_error'' then (sp_status sp, sp, d)
      else
        (let term = (if st_ok (sp_status sp) then st else sp_status sp);
             frame = (if st_ok term then complete_frame sp else jerror (sp_id sp) term);
             (ok, sp', d') = Spool_Write E sp d frame True;
             (synced, d'') = (if ok then sync_call d' else (False, d')) in
         if \<not> ok \<or> \<not> synced then (mk_status ''storage_error'' ''Cannot persist response'', sp', d'')
         else (Ok, sp', d'')))"

definition Spool_Single :: "env \<Rightarrow> spool \<Rightarrow> disk \<Rightarrow> json \<Rightarrow> status \<times> spool \<times> disk" where
  "Spool_Single E sp d result =
     (let (ok, sp', d') = WriteRecord E sp d result in
      if \<not> ok then Spool_Finish E sp' d' (sp_status sp')
      else (let (synced, d'') = sync_call d' in
            if \<not> synced then (mk_status ''storage_error'' ''Cannot persist response'', sp', d'')
            else (Ok, sp', d'')))"

text \<open>A stream of items, each offered to \<open>Add\<close> whatever the earlier answers were.\<close>

fun add_all :: "env \<Rightarrow> spool \<Rightarrow> disk \<Rightarrow> json list \<Rightarrow> spool \<times> disk" where
  "add_all E sp d [] = (sp, d)"
| "add_all E sp d (x # xs) = (let (ok, sp', d') = Spool_Add E sp d x in add_all E sp' d' xs)"

subsection \<open>The file as a list of frames\<close>

definition frame_line :: "env \<Rightarrow> json \<Rightarrow> string" where
  "frame_line E f = dump_r E f @ newline"

definition frames_text :: "env \<Rightarrow> json list \<Rightarrow> string" where
  "frames_text E fs = concat (map (frame_line E) fs)"

definition numbered :: "json list \<Rightarrow> bool" where
  "numbered fs \<longleftrightarrow> (\<forall>i < length fs. is_object (fs ! i) \<and> jat (fs ! i) ''seq'' = JUint i)"

definition bounded_lines :: "env \<Rightarrow> json list \<Rightarrow> bool" where
  "bounded_lines E fs \<longleftrightarrow> list_all (\<lambda>f. length (frame_line E f) \<le> kFrameBytes) fs"

definition spool_holds :: "env \<Rightarrow> spool \<Rightarrow> disk \<Rightarrow> json list \<Rightarrow> bool" where
  "spool_holds E sp d fs \<longleftrightarrow>
     sp_fd sp \<and> content d (sp_path sp) = Some (frames_text E fs) \<and> sp_seq sp = length fs \<and>
     sp_bytes sp = length (frames_text E fs) \<and> numbered fs \<and> bounded_lines E fs"

text \<open>The frames a logical record becomes, written without the loop.\<close>

fun fragments :: "env \<Rightarrow> string \<Rightarrow> nat \<Rightarrow> nat \<Rightarrow> string \<Rightarrow> nat \<Rightarrow> nat \<Rightarrow> string list \<Rightarrow> json list" where
  "fragments E rid record_no tot sha offset seq [] = []"
| "fragments E rid record_no tot sha offset seq (b # bs) =
     jset (fragment E rid record_no offset tot sha b) ''seq'' (JUint seq) #
     fragments E rid record_no tot sha (offset + kBlock) (Suc seq) bs"

definition record_frames :: "env \<Rightarrow> string \<Rightarrow> nat \<Rightarrow> json \<Rightarrow> json list" where
  "record_frames E rid seq frame =
     (let body = dump_r E frame in
      if length body + 64 \<le> kFrameBytes then [jset frame ''seq'' (JUint seq)]
      else fragments E rid seq (length body) (Sha256 E body) 0 seq (blocks kBlock body))"

lemma frames_text_snoc [simp]: "frames_text E (fs @ gs) = frames_text E fs @ frames_text E gs"
  by (simp add: frames_text_def)

lemma frames_text_Nil [simp]: "frames_text E [] = []"
  by (simp add: frames_text_def)

lemma frames_text_single [simp]: "frames_text E [f] = frame_line E f"
  by (simp add: frames_text_def)

lemma numbered_snoc:
  "numbered fs \<Longrightarrow> is_object f \<Longrightarrow> numbered (fs @ [jset f ''seq'' (JUint (length fs))])"
  by (auto simp: numbered_def nth_append less_Suc_eq json_simps)

lemma is_object_frames [simp]:
  "is_object (fragment E rid r ofs t s b)" "is_object (complete_frame sp)"
  "is_object (jerror rid st)" "is_object (chunk_frame rid x)" "is_object (jresult rid v)"
  by (simp_all add: fragment_def complete_frame_def jerror_def chunk_frame_def jresult_def)

subsection \<open>One frame\<close>

lemma Spool_Write_True:
  assumes "Spool_Write E sp d frame terminal = (True, sp', d')"
    and "spool_holds E sp d fs" and "is_object frame"
  shows "spool_holds E sp' d' (fs @ [jset frame ''seq'' (JUint (length fs))]) \<and>
    sp' = sp\<lparr>sp_bytes := sp_bytes sp', sp_seq := sp_seq sp'\<rparr> \<and>
    (\<not> terminal \<longrightarrow> sp_bytes sp' + 1024 \<le> sp_limit sp)"
proof -
  let ?f = "jset frame ''seq'' (JUint (length fs))"
  let ?line = "frame_line E ?f"
  have seq: "sp_seq sp = length fs" and fd: "sp_fd sp"
    and old: "content d (sp_path sp) = Some (frames_text E fs)"
    using assms(2) by (simp_all add: spool_holds_def)
  have w: "append_file d (sp_path sp) ?line = (True, d')"
    and sp': "sp' = sp\<lparr>sp_bytes := sp_bytes sp + length ?line, sp_seq := Suc (length fs)\<rparr>"
    and bounds: "length ?line \<le> kFrameBytes"
      "\<not> terminal \<longrightarrow> sp_bytes sp + length ?line + 1024 \<le> sp_limit sp"
    using assms(1) seq fd
    by (auto simp: Spool_Write_def Let_def frame_line_def split: if_splits prod.splits)
  from w old have "content d' (sp_path sp) = Some (frames_text E fs @ ?line)"
    by (elim append_file_content) auto
  then show ?thesis
    using assms(2,3) bounds sp' numbered_snoc [of fs frame]
    by (simp add: spool_holds_def bounded_lines_def)
qed

lemma Spool_Write_False:
  assumes "Spool_Write E sp d frame terminal = (False, sp', d')" and "spool_holds E sp d fs"
  shows "sp_bytes sp' = sp_bytes sp \<and>
    (st_code (sp_status sp') = ''storage_error'' \<or>
     st_code (sp_status sp') = ''quota_exceeded'' \<and> spool_holds E sp' d' fs)"
  using assms by (auto simp: Spool_Write_def Let_def spool_holds_def split: if_splits prod.splits)

lemma spool_holds_cong:
  "spool_holds E sp d fs \<Longrightarrow> sp_path sp' = sp_path sp \<Longrightarrow> sp_fd sp' = sp_fd sp \<Longrightarrow>
   sp_seq sp' = sp_seq sp \<Longrightarrow> sp_bytes sp' = sp_bytes sp \<Longrightarrow>
   content d' (sp_path sp) = content d (sp_path sp) \<Longrightarrow> spool_holds E sp' d' fs"
  by (simp add: spool_holds_def)

subsection \<open>One record\<close>

definition same_spool :: "spool \<Rightarrow> spool \<Rightarrow> bool" where
  "same_spool sp sp' \<longleftrightarrow> sp_path sp' = sp_path sp \<and> sp_id sp' = sp_id sp \<and> sp_fd sp' = sp_fd sp \<and>
     sp_limit sp' = sp_limit sp \<and> sp_items sp' = sp_items sp"

lemma same_spool_refl [simp]: "same_spool sp sp"
  by (simp add: same_spool_def)

lemma same_spool_trans: "same_spool sp sp' \<Longrightarrow> same_spool sp' sp'' \<Longrightarrow> same_spool sp sp''"
  by (simp add: same_spool_def)

lemma Spool_Write_same: "Spool_Write E sp d frame t = (r, sp', d') \<Longrightarrow> same_spool sp sp'"
  by (auto simp: Spool_Write_def Let_def same_spool_def split: if_splits prod.splits)

lemma Spool_Write_status:
  "Spool_Write E sp d frame t = (True, sp', d') \<Longrightarrow> sp_status sp' = sp_status sp"
  by (auto simp: Spool_Write_def Let_def split: if_splits prod.splits)

lemma fragment_block:
  "take (min kBlock (length body - offset)) (drop offset body) = take kBlock (drop offset body)"
  by (metis length_drop take_take take_all order_refl)

lemma blocks_drop:
  "offset < length body \<Longrightarrow> blocks kBlock (drop offset body) =
     take kBlock (drop offset body) # blocks kBlock (drop (offset + kBlock) body)"
  by (subst blocks.simps) (simp add: kBlock_def add.commute)

lemma write_fragments_True:
  assumes "write_fragments E body sha r offset sp d = (True, sp', d')" and "spool_holds E sp d fs"
  shows "spool_holds E sp' d' (fs @ fragments E (sp_id sp) r (length body) sha offset (length fs)
           (blocks kBlock (drop offset body))) \<and> same_spool sp sp' \<and> sp_status sp' = sp_status sp \<and>
         (offset < length body \<longrightarrow> sp_bytes sp' + 1024 \<le> sp_limit sp)"
  using assms
proof (induction E body sha r offset sp d arbitrary: fs rule: write_fragments.induct)
  case (1 E body sha r offset sp d)
  show ?case
  proof (cases "offset < length body")
    case False
    with "1.prems" show ?thesis by (simp add: write_fragments.simps [of E body sha r offset])
  next
    case True
    let ?b = "take kBlock (drop offset body)"
    let ?f = "fragment E (sp_id sp) r offset (length body) sha ?b"
    obtain sp1 d1 where w: "Spool_Write E sp d ?f False = (True, sp1, d1)"
      and rest: "write_fragments E body sha r (offset + kBlock) sp1 d1 = (True, sp', d')"
      using "1.prems"(1) True
      by (auto simp: write_fragments.simps [of E body sha r offset] fragment_block Let_def
          split: if_splits prod.splits)
    have h1: "spool_holds E sp1 d1 (fs @ [jset ?f ''seq'' (JUint (length fs))])"
      and lim: "sp_bytes sp1 + 1024 \<le> sp_limit sp"
      using Spool_Write_True [OF w "1.prems"(2)] by auto
    have same: "same_spool sp sp1" "sp_status sp1 = sp_status sp"
      using w by (auto dest: Spool_Write_same Spool_Write_status)
    have IH: "spool_holds E sp' d' ((fs @ [jset ?f ''seq'' (JUint (length fs))]) @
          fragments E (sp_id sp1) r (length body) sha (offset + kBlock)
            (length (fs @ [jset ?f ''seq'' (JUint (length fs))]))
            (blocks kBlock (drop (offset + kBlock) body))) \<and>
        same_spool sp1 sp' \<and> sp_status sp' = sp_status sp1 \<and>
        (offset + kBlock < length body \<longrightarrow> sp_bytes sp' + 1024 \<le> sp_limit sp1)"
      using "1.IH" [OF True refl _ refl refl _ rest h1] w by (simp add: fragment_block)
    have "\<not> offset + kBlock < length body \<Longrightarrow> sp' = sp1"
      using rest by (simp add: write_fragments.simps [of E body sha r "offset + kBlock"])
    then show ?thesis
      using IH same lim blocks_drop [OF True] by (auto simp: same_spool_def)
  qed
qed

definition is_fragment :: "json \<Rightarrow> bool" where
  "is_fragment f \<longleftrightarrow> jat f ''type'' = JString ''fragment''"

lemma is_fragment_fragment [simp]:
  "is_fragment (jset (fragment E rid r ofs t sha b) ''seq'' (JUint n))"
  by (simp add: is_fragment_def fragment_def json_simps)

lemma fragments_are_fragments: "list_all is_fragment (fragments E rid r t sha ofs n bs)"
  by (induction bs arbitrary: ofs n) auto

lemma write_fragments_False:
  assumes "write_fragments E body sha r offset sp d = (False, sp', d')" and "spool_holds E sp d fs"
  shows "same_spool sp sp' \<and>
    (st_code (sp_status sp') = ''storage_error'' \<or>
     st_code (sp_status sp') = ''quota_exceeded'' \<and>
       (\<exists>gs. spool_holds E sp' d' (fs @ gs) \<and> list_all is_fragment gs \<and>
          (gs = [] \<and> sp_bytes sp' = sp_bytes sp \<or> sp_bytes sp' + 1024 \<le> sp_limit sp)))"
  using assms
proof (induction E body sha r offset sp d arbitrary: fs rule: write_fragments.induct)
  case (1 E body sha r offset sp d)
  have True: "offset < length body"
    using "1.prems"(1) by (auto simp: write_fragments.simps [of E body sha r offset] split: if_splits)
  let ?b = "take kBlock (drop offset body)"
  let ?f = "fragment E (sp_id sp) r offset (length body) sha ?b"
  obtain ok sp1 d1 where w: "Spool_Write E sp d ?f False = (ok, sp1, d1)"
    by (cases "Spool_Write E sp d ?f False")
  show ?case
  proof (cases ok)
    case False
    then have "sp' = sp1" "d' = d1"
      using "1.prems"(1) True w
      by (auto simp: write_fragments.simps [of E body sha r offset] fragment_block Let_def)
    then show ?thesis
      using Spool_Write_False [of E sp d ?f False sp1 d1 fs] Spool_Write_same [OF w] w False "1.prems"(2)
      by (auto intro!: exI [of _ "[]"])
  next
    case ok: True
    then have rest: "write_fragments E body sha r (offset + kBlock) sp1 d1 = (False, sp', d')"
      using "1.prems"(1) True w
      by (auto simp: write_fragments.simps [of E body sha r offset] fragment_block Let_def)
    let ?g = "jset ?f ''seq'' (JUint (length fs))"
    have h1: "spool_holds E sp1 d1 (fs @ [?g])" and lim: "sp_bytes sp1 + 1024 \<le> sp_limit sp"
      using Spool_Write_True [OF w [unfolded eqTrueI [OF ok]] "1.prems"(2)] by auto
    have same: "same_spool sp sp1" using w by (rule Spool_Write_same)
    have IH: "same_spool sp1 sp' \<and>
        (st_code (sp_status sp') = ''storage_error'' \<or>
         st_code (sp_status sp') = ''quota_exceeded'' \<and>
         (\<exists>gs. spool_holds E sp' d' ((fs @ [?g]) @ gs) \<and> list_all is_fragment gs \<and>
            (gs = [] \<and> sp_bytes sp' = sp_bytes sp1 \<or> sp_bytes sp' + 1024 \<le> sp_limit sp1)))"
      using "1.IH" [OF True refl _ refl refl _ rest h1] w ok by (simp add: fragment_block)
    show ?thesis
    proof (cases "st_code (sp_status sp') = ''storage_error''")
      case True
      then show ?thesis using IH same by (auto intro: same_spool_trans)
    next
      case False
      then obtain gs where gs: "spool_holds E sp' d' ((fs @ [?g]) @ gs)" "list_all is_fragment gs"
        "gs = [] \<and> sp_bytes sp' = sp_bytes sp1 \<or> sp_bytes sp' + 1024 \<le> sp_limit sp1"
        "st_code (sp_status sp') = ''quota_exceeded''"
        using IH by auto
      then have "spool_holds E sp' d' (fs @ (?g # gs)) \<and> list_all is_fragment (?g # gs) \<and>
          sp_bytes sp' + 1024 \<le> sp_limit sp"
        using lim same by (auto simp: same_spool_def)
      then show ?thesis using gs IH same by (auto intro: same_spool_trans)
    qed
  qed
qed

lemma WriteRecord_True:
  assumes "WriteRecord E sp d j = (True, sp', d')" and "spool_holds E sp d fs" and "is_object j"
  shows "spool_holds E sp' d' (fs @ record_frames E (sp_id sp) (length fs) j) \<and>
    same_spool sp sp' \<and> sp_status sp' = sp_status sp \<and> sp_bytes sp' + 1024 \<le> sp_limit sp"
proof (cases "length (dump_r E j) + 64 \<le> kFrameBytes")
  case True
  then have w: "Spool_Write E sp d j False = (True, sp', d')"
    using assms(1) by (simp add: WriteRecord_def Let_def)
  then show ?thesis
    using True Spool_Write_True [OF w assms(2,3)]
    by (auto simp: record_frames_def Let_def dest: Spool_Write_same Spool_Write_status)
next
  case False
  then have w: "write_fragments E (dump_r E j) (Sha256 E (dump_r E j)) (length fs) 0 sp d = (True, sp', d')"
    using assms(1,2) by (auto simp: WriteRecord_def Let_def spool_holds_def split: if_splits)
  have "0 < length (dump_r E j)"
    using False by (auto simp: kFrameBytes_def)
  with False write_fragments_True [OF w assms(2)] show ?thesis
    by (simp add: record_frames_def Let_def)
qed

lemma WriteRecord_False:
  assumes "WriteRecord E sp d j = (False, sp', d')" and "spool_holds E sp d fs"
  shows "same_spool sp sp' \<and> \<not> st_ok (sp_status sp') \<and>
    (st_code (sp_status sp') = ''storage_error'' \<or>
       (\<exists>gs. spool_holds E sp' d' (fs @ gs) \<and> list_all is_fragment gs \<and>
          (gs = [] \<and> sp_bytes sp' = sp_bytes sp \<or> sp_bytes sp' + 1024 \<le> sp_limit sp)))"
proof -
  consider (direct) "length (dump_r E j) + 64 \<le> kFrameBytes"
    | (large) "kRecordBytes < length (dump_r E j)" "\<not> length (dump_r E j) + 64 \<le> kFrameBytes"
    | (split) "\<not> length (dump_r E j) + 64 \<le> kFrameBytes" "length (dump_r E j) \<le> kRecordBytes"
    by linarith
  then show ?thesis
  proof cases
    case direct
    then have w: "Spool_Write E sp d j False = (False, sp', d')"
      using assms(1) by (simp add: WriteRecord_def Let_def)
    show ?thesis
      using Spool_Write_False [OF w assms(2)] Spool_Write_same [OF w]
      by (auto simp: st_ok_def intro!: exI [of _ "[]"])
  next
    case large
    then show ?thesis
      using assms by (auto simp: WriteRecord_def Let_def same_spool_def spool_holds_def
          intro!: exI [of _ "[]"])
  next
    case split
    then have w: "write_fragments E (dump_r E j) (Sha256 E (dump_r E j)) (sp_seq sp) 0 sp d = (False, sp', d')"
      using assms(1) by (auto simp: WriteRecord_def Let_def)
    from write_fragments_False [OF w assms(2)] show ?thesis by (auto simp: st_ok_def)
  qed
qed

subsection \<open>A stream of items\<close>

fun stream_frames :: "env \<Rightarrow> string \<Rightarrow> json list \<Rightarrow> json list \<Rightarrow> json list" where
  "stream_frames E rid fs [] = fs"
| "stream_frames E rid fs (x # xs) =
     stream_frames E rid (fs @ record_frames E rid (length fs) (chunk_frame rid x)) xs"

definition data_frame :: "json \<Rightarrow> bool" where
  "data_frame f \<longleftrightarrow> jat f ''type'' \<in> {JString ''chunk'', JString ''fragment''}"

definition within_quota :: "spool \<Rightarrow> bool" where
  "within_quota sp \<longleftrightarrow> sp_bytes sp = 0 \<or> sp_bytes sp + 1024 \<le> sp_limit sp"

lemma data_frame_fragment: "is_fragment f \<Longrightarrow> data_frame f"
  by (simp add: is_fragment_def data_frame_def)

lemma data_frames_record: "list_all data_frame (record_frames E rid n (chunk_frame rid' x))"
proof -
  have "data_frame (jset (chunk_frame rid' x) ''seq'' v)" for v
    by (simp add: data_frame_def chunk_frame_def json_simps)
  moreover have "list_all data_frame (fragments E rid r t sha ofs n bs)" for r t sha ofs bs
    using fragments_are_fragments by (rule list.pred_mono_strong) (rule data_frame_fragment)
  ultimately show ?thesis by (simp add: record_frames_def Let_def)
qed

text \<open>
  The state of a stream after some items: either a system call has failed, or the file holds
  exactly the frames of the items while every \<open>Add\<close> succeeded, or the quota has been hit and
  the file holds data frames only.
\<close>

definition stream_inv :: "env \<Rightarrow> spool \<Rightarrow> disk \<Rightarrow> json list \<Rightarrow> nat \<Rightarrow> bool" where
  "stream_inv E sp d fs n \<longleftrightarrow>
     st_code (sp_status sp) = ''storage_error'' \<or>
     (\<exists>gs. spool_holds E sp d gs \<and> list_all data_frame gs \<and> within_quota sp \<and>
        (st_ok (sp_status sp) \<longrightarrow> gs = fs \<and> sp_items sp = n))"

lemma stream_inv_Add:
  assumes "Spool_Add E sp d x = (r, sp', d')" and "stream_inv E sp d fs n"
  shows "stream_inv E sp' d' (fs @ record_frames E (sp_id sp) (length fs) (chunk_frame (sp_id sp) x)) (Suc n) \<and>
    sp_id sp' = sp_id sp \<and> sp_path sp' = sp_path sp \<and> sp_limit sp' = sp_limit sp \<and>
    r = st_ok (sp_status sp')"
proof (cases "st_ok (sp_status sp)")
  case False
  then show ?thesis using assms by (auto simp: Spool_Add_def stream_inv_def)
next
  case True
  then obtain h: "spool_holds E sp d fs" "list_all data_frame fs" "within_quota sp" "sp_items sp = n"
    using assms(2) by (auto simp: stream_inv_def st_ok_def)
  let ?c = "chunk_frame (sp_id sp) x"
  obtain ok sp1 d1 where w: "WriteRecord E sp d ?c = (ok, sp1, d1)"
    by (cases "WriteRecord E sp d ?c")
  show ?thesis
  proof (cases ok)
    case okT: True
    with w have w': "WriteRecord E sp d ?c = (True, sp1, d1)" by simp
    have eq: "r = True" "sp' = sp1\<lparr>sp_items := Suc (sp_items sp1)\<rparr>" "d' = d1"
      using assms(1) True w okT by (auto simp: Spool_Add_def)
    have 1: "spool_holds E sp1 d1 (fs @ record_frames E (sp_id sp) (length fs) ?c)"
      "same_spool sp sp1" "sp_status sp1 = sp_status sp" "sp_bytes sp1 + 1024 \<le> sp_limit sp"
      using WriteRecord_True [OF w' h(1)] by auto
    have "spool_holds E sp' d' (fs @ record_frames E (sp_id sp) (length fs) ?c)"
      using 1(1) eq by (simp add: spool_holds_def)
    moreover have "list_all data_frame (fs @ record_frames E (sp_id sp) (length fs) ?c)"
      using h(2) data_frames_record by simp
    ultimately show ?thesis
      using 1 eq True h(4) unfolding stream_inv_def same_spool_def within_quota_def by auto
  next
    case False
    with w have w': "WriteRecord E sp d ?c = (False, sp1, d1)" by simp
    have eq: "r = False" "sp' = sp1" "d' = d1"
      using assms(1) True w False by (auto simp: Spool_Add_def)
    from WriteRecord_False [OF w' h(1)]
    have 1: "same_spool sp sp1" "\<not> st_ok (sp_status sp1)" by auto
    show ?thesis
    proof (cases "st_code (sp_status sp1) = ''storage_error''")
      case True
      then show ?thesis using eq 1 by (simp add: stream_inv_def same_spool_def)
    next
      case False
      then obtain gs where gs: "spool_holds E sp1 d1 (fs @ gs)" "list_all is_fragment gs"
        "gs = [] \<and> sp_bytes sp1 = sp_bytes sp \<or> sp_bytes sp1 + 1024 \<le> sp_limit sp"
        using WriteRecord_False [OF w' h(1)] by auto
      have "list_all data_frame (fs @ gs)" "within_quota sp1"
        using h gs 1 by (auto simp: list_all_iff within_quota_def same_spool_def data_frame_fragment)
      then show ?thesis
        using eq 1 gs(1) unfolding stream_inv_def same_spool_def by auto
    qed
  qed
qed

lemma stream_inv_add_all:
  assumes "add_all E sp d xs = (sp', d')" and "stream_inv E sp d fs n"
  shows "stream_inv E sp' d' (stream_frames E (sp_id sp) fs xs) (n + length xs) \<and>
    sp_id sp' = sp_id sp \<and> sp_path sp' = sp_path sp \<and> sp_limit sp' = sp_limit sp"
  using assms
proof (induction xs arbitrary: sp d fs n)
  case (Cons x xs)
  obtain r sp1 d1 where a: "Spool_Add E sp d x = (r, sp1, d1)" by (cases "Spool_Add E sp d x")
  have rest: "add_all E sp1 d1 xs = (sp', d')" using Cons.prems(1) a by simp
  from Cons.IH [OF rest conjunct1 [OF stream_inv_Add [OF a Cons.prems(2)]]]
    stream_inv_Add [OF a Cons.prems(2)] show ?case by simp
qed simp

lemma stream_inv_new:
  assumes "Spool_new d p rid limit = (sp, d')"
  shows "stream_inv E sp d' [] 0 \<and> sp_id sp = rid \<and> sp_path sp = p \<and> sp_limit sp = limit"
  using assms
  by (auto simp: Spool_new_def open_trunc_def stream_inv_def spool_holds_def within_quota_def
      io_simps numbered_def bounded_lines_def split: if_splits)

definition terminal_frame :: "string \<Rightarrow> nat \<Rightarrow> nat \<Rightarrow> status \<Rightarrow> json" where
  "terminal_frame rid chunks items st =
     jset (if st_ok st
           then jobj [(''id'', JString rid), (''type'', JString ''complete''),
                      (''chunks'', JUint chunks), (''items'', JUint items)]
           else jerror rid st) ''seq'' (JUint chunks)"

lemma Spool_Finish_Ok:
  assumes "Spool_Finish E sp d st = (r, sp', d')" and "st_ok r" and "stream_inv E sp d fs n"
  obtains gs where "spool_holds E sp' d' (gs @ [terminal_frame (sp_id sp) (length gs) (sp_items sp)
      (if st_ok (sp_status sp) then st else sp_status sp)])"
    and "list_all data_frame gs" and "within_quota sp" and "sp_path sp' = sp_path sp"
    and "sp_bytes sp = length (frames_text E gs)"
    and "st_ok (sp_status sp) \<Longrightarrow> gs = fs \<and> sp_items sp = n"
proof -
  let ?final = "if st_ok (sp_status sp) then st else sp_status sp"
  let ?frame = "if st_ok ?final then complete_frame sp else jerror (sp_id sp) ?final"
  have ns: "st_code (sp_status sp) \<noteq> ''storage_error''"
    using assms(1,2) by (auto simp: Spool_Finish_def st_ok_def split: if_splits)
  then obtain gs where gs: "spool_holds E sp d gs" "list_all data_frame gs" "within_quota sp"
      "st_ok (sp_status sp) \<longrightarrow> gs = fs \<and> sp_items sp = n"
    using assms(3) by (auto simp: stream_inv_def)
  obtain d1 where w: "Spool_Write E sp d ?frame True = (True, sp', d1)" and d': "d' = next_call d1"
    using assms(1,2) ns unfolding Spool_Finish_def
    by (auto simp: Let_def sync_call_def split: if_splits prod.splits)
  have fr: "jset ?frame ''seq'' (JUint (length gs)) = terminal_frame (sp_id sp) (length gs) (sp_items sp) ?final"
    using gs(1) by (simp add: terminal_frame_def complete_frame_def spool_holds_def)
  have obj: "is_object ?frame" by simp
  from Spool_Write_True [OF w gs(1) obj] fr d'
  have "spool_holds E sp' d' (gs @ [terminal_frame (sp_id sp) (length gs) (sp_items sp) ?final])"
    by (simp add: spool_holds_def io_simps)
  moreover have "sp_path sp' = sp_path sp" using Spool_Write_same [OF w] by (simp add: same_spool_def)
  moreover have "sp_bytes sp = length (frames_text E gs)" using gs(1) by (simp add: spool_holds_def)
  ultimately show ?thesis using that gs by blast
qed

lemma finished_stream:
  assumes "Spool_new d p rid limit = (sp0, d0)" and "add_all E sp0 d0 items = (sp1, d1)"
    and "Spool_Finish E sp1 d1 st = (r, sp2, d2)" and "st_ok r"
  shows "\<exists>gs fin. content d2 p = Some (frames_text E (gs @ [fin])) \<and>
    numbered (gs @ [fin]) \<and> bounded_lines E (gs @ [fin]) \<and> list_all data_frame gs \<and>
    (if st_ok (sp_status sp1)
     then gs = stream_frames E rid [] items \<and> fin = terminal_frame rid (length gs) (length items) st
     else jat fin ''type'' = JString ''error'' \<and> jat fin ''error'' = jat (jerror rid (sp_status sp1)) ''error'')"
proof -
  have inv0: "stream_inv E sp0 d0 [] 0" "sp_id sp0 = rid" "sp_path sp0 = p"
    using stream_inv_new [OF assms(1)] by auto
  from stream_inv_add_all [OF assms(2) inv0(1)] inv0
  have inv1: "stream_inv E sp1 d1 (stream_frames E rid [] items) (length items)"
    "sp_id sp1 = rid" "sp_path sp1 = p" by auto
  obtain gs where gs: "spool_holds E sp2 d2 (gs @ [terminal_frame rid (length gs) (sp_items sp1)
        (if st_ok (sp_status sp1) then st else sp_status sp1)])"
      "list_all data_frame gs" "sp_path sp2 = p"
      "st_ok (sp_status sp1) \<Longrightarrow> gs = stream_frames E rid [] items \<and> sp_items sp1 = length items"
    using Spool_Finish_Ok [OF assms(3,4) inv1(1)] inv1 by metis
  then show ?thesis
    by (intro exI [of _ gs] exI [of _ "terminal_frame rid (length gs) (sp_items sp1)
        (if st_ok (sp_status sp1) then st else sp_status sp1)"])
      (auto simp: spool_holds_def terminal_frame_def jerror_def json_simps)
qed

text \<open>
  C5. A response stream that finishes successfully is a well-formed file: its lines are frames
  of at most 256 KiB numbered from 0 without gaps, data frames first and exactly one terminal
  frame last. The terminal frame is \<open>complete\<close> only if no item was refused and the operation
  succeeded; then the data frames are exactly those of the items in order, and the counts in it
  are the numbers of frames and items. Otherwise it is the error of the quota or the operation.
\<close>

theorem spool_stream:
  assumes "Spool_new d p rid limit = (sp0, d0)" and "add_all E sp0 d0 items = (sp1, d1)"
    and "Spool_Finish E sp1 d1 st = (r, sp2, d2)" and "st_ok r"
  shows "\<exists>gs fin. content d2 p = Some (frames_text E (gs @ [fin])) \<and>
    numbered (gs @ [fin]) \<and> bounded_lines E (gs @ [fin]) \<and> list_all data_frame gs \<and>
    (if st_ok (sp_status sp1)
     then gs = stream_frames E rid [] items \<and> fin = terminal_frame rid (length gs) (length items) st
     else jat fin ''type'' = JString ''error'' \<and> jat fin ''error'' = jat (jerror rid (sp_status sp1)) ''error'')"
  using assms by (rule finished_stream)

lemmas spool_eval = Spool_new_def Spool_Add_def Spool_Write_def WriteRecord_def Spool_Finish_def
  Spool_Single_def open_trunc_def append_file_def sync_call_def sys_ok_def next_call_def set_file_def
  content_def clean_disk_def chunk_frame_def complete_frame_def jerror_def jresult_def jobj_def
  newline_def limits to_string.simps terminal_frame_def

theorem spool_stream_witness:
  "let (sp0, d0) = Spool_new clean_disk ''p'' ''r'' 4096;
       (sp1, d1) = add_all sample_env sp0 d0 [JUint 7, JString ''x''];
       (r, sp2, d2) = Spool_Finish sample_env sp1 d1 Ok in
   st_ok r \<and> (\<exists>gs fin. content d2 ''p'' = Some (frames_text sample_env (gs @ [fin])) \<and>
     numbered (gs @ [fin]) \<and> bounded_lines sample_env (gs @ [fin]) \<and> list_all data_frame gs \<and>
     gs = stream_frames sample_env ''r'' [] [JUint 7, JString ''x''])"
proof -
  obtain sp0 d0 where 0: "Spool_new clean_disk ''p'' ''r'' 4096 = (sp0, d0)" by force
  obtain sp1 d1 where 1: "add_all sample_env sp0 d0 [JUint 7, JString ''x''] = (sp1, d1)" by force
  obtain r sp2 d2 where 2: "Spool_Finish sample_env sp1 d1 Ok = (r, sp2, d2)" by (metis prod_cases3)
  have "(let (sp0, d0) = Spool_new clean_disk ''p'' ''r'' 4096;
       (sp1, d1) = add_all sample_env sp0 d0 [JUint 7, JString ''x''];
       (r, sp2, d2) = Spool_Finish sample_env sp1 d1 Ok in st_ok r \<and> st_ok (sp_status sp1))"
    by (simp add: spool_eval)
  then have r: "st_ok r" "st_ok (sp_status sp1)" using 0 1 2 by simp_all
  show ?thesis using spool_stream [OF 0 1 2 r(1)] r 0 1 2 by auto
qed

text \<open>
  C6. The quota is a real bound: a stream that finishes successfully with a terminal line of at
  most 1024 bytes leaves a file no larger than its limit (of at least 1024 bytes), however many
  items were offered.
\<close>

theorem spool_bounded:
  assumes "Spool_new d p rid limit = (sp0, d0)" and "add_all E sp0 d0 items = (sp1, d1)"
    and "Spool_Finish E sp1 d1 st = (r, sp2, d2)" and "st_ok r" and "1024 \<le> limit"
    and "length (dump_r E (terminal_frame rid (sp_seq sp1) (sp_items sp1)
           (if st_ok (sp_status sp1) then st else sp_status sp1))) < 1024"
  shows "\<exists>txt. content d2 p = Some txt \<and> length txt \<le> limit"
proof -
  have inv0: "stream_inv E sp0 d0 [] 0" "sp_id sp0 = rid" "sp_path sp0 = p" "sp_limit sp0 = limit"
    using stream_inv_new [OF assms(1)] by auto
  from stream_inv_add_all [OF assms(2) inv0(1)] inv0
  have inv1: "stream_inv E sp1 d1 (stream_frames E rid [] items) (length items)"
    "sp_id sp1 = rid" "sp_path sp1 = p" "sp_limit sp1 = limit" by auto
  let ?final = "if st_ok (sp_status sp1) then st else sp_status sp1"
  obtain gs where gs: "spool_holds E sp2 d2 (gs @ [terminal_frame rid (length gs) (sp_items sp1) ?final])"
      "within_quota sp1" "sp_path sp2 = p" "sp_bytes sp1 = length (frames_text E gs)"
    using Spool_Finish_Ok [OF assms(3,4) inv1(1)] inv1 by metis
  have "sp_seq sp1 = length gs"
    using gs(1) assms(3,4) by (auto simp: Spool_Finish_def Spool_Write_def Let_def spool_holds_def st_ok_def
        split: if_splits prod.splits)
  with assms(6) have "length (frame_line E (terminal_frame rid (length gs) (sp_items sp1) ?final)) \<le> 1024"
    by (simp add: frame_line_def newline_def)
  with gs inv1(4) assms(5) show ?thesis
    by (auto simp: spool_holds_def within_quota_def)
qed

theorem spool_bounded_witness:
  "let (sp0, d0) = Spool_new clean_disk ''p'' ''r'' 1100;
       (sp1, d1) = add_all sample_env sp0 d0 [JUint 7, JUint 8, JUint 9];
       (r, sp2, d2) = Spool_Finish sample_env sp1 d1 Ok in
   \<not> st_ok (sp_status sp1) \<and> (\<exists>body. content d2 ''p'' = Some body \<and> length body \<le> 1100)"
proof -
  obtain sp0 d0 where 0: "Spool_new clean_disk ''p'' ''r'' 1100 = (sp0, d0)" by force
  obtain sp1 d1 where 1: "add_all sample_env sp0 d0 [JUint 7, JUint 8, JUint 9] = (sp1, d1)" by force
  obtain r sp2 d2 where 2: "Spool_Finish sample_env sp1 d1 Ok = (r, sp2, d2)" by (metis prod_cases3)
  have "(let (sp0, d0) = Spool_new clean_disk ''p'' ''r'' 1100;
       (sp1, d1) = add_all sample_env sp0 d0 [JUint 7, JUint 8, JUint 9];
       (r, sp2, d2) = Spool_Finish sample_env sp1 d1 Ok in
       st_ok r \<and> \<not> st_ok (sp_status sp1) \<and>
       length (dump_r sample_env (terminal_frame ''r'' (sp_seq sp1) (sp_items sp1)
           (if st_ok (sp_status sp1) then Ok else sp_status sp1))) < 1024)"
    by (simp add: spool_eval)
  then have r: "st_ok r" "\<not> st_ok (sp_status sp1)"
      "length (dump_r sample_env (terminal_frame ''r'' (sp_seq sp1) (sp_items sp1)
           (if st_ok (sp_status sp1) then Ok else sp_status sp1))) < 1024"
    using 0 1 2 by auto
  show ?thesis using spool_bounded [OF 0 1 2 r(1) _ r(3)] r(2) 0 1 2 by auto
qed

end
