(* ===== verification/Backend.thy ===== *)
theory Backend
  imports Spool
begin

text \<open>
  The backend interface of \<open>src/backend.h\<close>, the mock backend, and \<open>RunBackend\<close>, which carries
  out one request and leaves its response in a spool. A backend is a record of the three virtual
  functions over its own state; the locale \<open>backend_contract\<close> states what \<open>RunBackend\<close>
  relies on, and the mock backend is shown to meet it.
\<close>

subsection \<open>Every spool operation leaves other files alone\<close>

definition only_file :: "path \<Rightarrow> disk \<Rightarrow> disk \<Rightarrow> bool" where
  "only_file p d d' \<longleftrightarrow> (\<forall>q. q \<noteq> p \<longrightarrow> content d' q = content d q) \<and> (wf_disk d \<longrightarrow> wf_disk d')"

lemma only_file_refl [simp]: "only_file p d d"
  by (simp add: only_file_def)

lemma only_file_trans: "only_file p d d1 \<Longrightarrow> only_file p d1 d2 \<Longrightarrow> only_file p d d2"
  by (simp add: only_file_def)

lemma only_file_next_call: "only_file p d (next_call d)"
  by (simp add: only_file_def io_simps)

lemma only_file_set: "only_file p d (next_call (set_file d p s))"
  by (simp add: only_file_def io_simps distinct_update)

lemma only_file_append: "append_file d p x = (r, d') \<Longrightarrow> only_file p d d'"
  using only_file_set [of p d] by (auto simp: append_file_def Let_def split: if_splits option.splits)

lemma only_file_new: "Spool_new d p rid limit = (sp, d') \<Longrightarrow> only_file p d d'"
  using only_file_set [of p d] only_file_next_call
  by (auto simp: Spool_new_def open_trunc_def Let_def split: if_splits)

lemma only_file_Write:
  "Spool_Write E sp d frame t = (r, sp', d') \<Longrightarrow> only_file (sp_path sp) d d' \<and> sp_path sp' = sp_path sp \<and> sp_fd sp' = sp_fd sp"
  using only_file_append by (auto simp: Spool_Write_def Let_def split: if_splits prod.splits)

lemma only_file_fragments:
  "write_fragments E body sha n ofs sp d = (r, sp', d') \<Longrightarrow>
   only_file (sp_path sp) d d' \<and> sp_path sp' = sp_path sp \<and> sp_fd sp' = sp_fd sp"
proof (induction E body sha n ofs sp d rule: write_fragments.induct)
  case (1 E body sha n ofs sp d)
  show ?case
  proof (cases "ofs < length body")
    case False
    with "1.prems" show ?thesis by (simp add: write_fragments.simps)
  next
    case True
    let ?f = "fragment E (sp_id sp) n ofs (length body) sha (take (min kBlock (length body - ofs)) (drop ofs body))"
    obtain ok sp1 d1 where w: "Spool_Write E sp d ?f False = (ok, sp1, d1)" by (cases "Spool_Write E sp d ?f False")
    note o = only_file_Write [OF w]
    show ?thesis
    proof (cases ok)
      case False
      with "1.prems" w True o show ?thesis by (subst (asm) write_fragments.simps) simp
    next
      case okT: True
      then have "write_fragments E body sha n (ofs + kBlock) sp1 d1 = (r, sp', d')"
        using "1.prems" w True by (subst (asm) write_fragments.simps) simp
      from "1.IH" [OF True refl w [symmetric] refl refl] this okT o show ?thesis
        by (auto intro: only_file_trans)
    qed
  qed
qed

lemma only_file_WriteRecord:
  "WriteRecord E sp d j = (r, sp', d') \<Longrightarrow> only_file (sp_path sp) d d' \<and> sp_path sp' = sp_path sp \<and> sp_fd sp' = sp_fd sp"
  using only_file_Write only_file_fragments by (fastforce simp: WriteRecord_def Let_def split: if_splits)

lemma only_file_Finish:
  assumes "Spool_Finish E sp d st = (r, sp', d')"
  shows "only_file (sp_path sp) d d' \<and> sp_path sp' = sp_path sp"
proof (cases "st_code (sp_status sp) = ''storage_error''")
  case True
  with assms show ?thesis by (auto simp: Spool_Finish_def)
next
  case False
  let ?final = "if st_ok (sp_status sp) then st else sp_status sp"
  let ?frame = "if st_ok ?final then complete_frame sp else jerror (sp_id sp) ?final"
  obtain ok sp1 d1 where w: "Spool_Write E sp d ?frame True = (ok, sp1, d1)" by (cases "Spool_Write E sp d ?frame True")
  have "sp' = sp1" "d' = d1 \<or> d' = next_call d1"
    using assms w False by (auto simp: Spool_Finish_def Let_def sync_call_def split: if_splits)
  then show ?thesis using only_file_Write [OF w] only_file_trans [OF _ only_file_next_call] by auto
qed

lemma only_file_Single:
  assumes "Spool_Single E sp d j = (r, sp', d')"
  shows "only_file (sp_path sp) d d' \<and> sp_path sp' = sp_path sp"
proof -
  obtain ok sp1 d1 where w: "WriteRecord E sp d j = (ok, sp1, d1)" by (cases "WriteRecord E sp d j")
  note o = only_file_WriteRecord [OF w]
  show ?thesis
  proof (cases ok)
    case False
    then have "Spool_Finish E sp1 d1 (sp_status sp1) = (r, sp', d')" using assms w by (simp add: Spool_Single_def)
    from only_file_Finish [OF this] o show ?thesis by (auto intro: only_file_trans)
  next
    case True
    then have "sp' = sp1" "d' = next_call d1"
      using assms w by (auto simp: Spool_Single_def sync_call_def split: if_splits)
    then show ?thesis using o only_file_trans [OF _ only_file_next_call] by auto
  qed
qed

lemma only_file_Add:
  assumes "Spool_Add E sp d x = (r, sp', d')"
  shows "only_file (sp_path sp) d d' \<and> sp_path sp' = sp_path sp"
proof -
  obtain ok sp1 d1 where w: "WriteRecord E sp d (chunk_frame (sp_id sp) x) = (ok, sp1, d1)"
    by (cases "WriteRecord E sp d (chunk_frame (sp_id sp) x)")
  show ?thesis using assms w only_file_WriteRecord [OF w] by (auto simp: Spool_Add_def split: if_splits)
qed

lemma only_file_add_all:
  "add_all E sp d xs = (sp', d') \<Longrightarrow> only_file (sp_path sp) d d' \<and> sp_path sp' = sp_path sp"
proof (induction xs arbitrary: sp d)
  case (Cons x xs)
  obtain r sp1 d1 where a: "Spool_Add E sp d x = (r, sp1, d1)" by (cases "Spool_Add E sp d x")
  with Cons.prems have "add_all E sp1 d1 xs = (sp', d')" by simp
  from Cons.IH [OF this] only_file_Add [OF a] show ?case by (auto intro: only_file_trans)
qed simp

subsection \<open>Refused writes leave a status\<close>

lemma Write_refused: "Spool_Write E sp d f t = (False, sp', d') \<Longrightarrow> \<not> st_ok (sp_status sp')"
  by (auto simp: Spool_Write_def Let_def split: if_splits prod.splits)

lemma fragments_refused: "write_fragments E body sha n ofs sp d = (False, sp', d') \<Longrightarrow> \<not> st_ok (sp_status sp')"
proof (induction E body sha n ofs sp d rule: write_fragments.induct)
  case (1 E body sha n ofs sp d)
  show ?case
  proof (cases "ofs < length body")
    case False
    with "1.prems" show ?thesis by (simp add: write_fragments.simps)
  next
    case True
    let ?f = "fragment E (sp_id sp) n ofs (length body) sha (take (min kBlock (length body - ofs)) (drop ofs body))"
    obtain ok sp1 d1 where w: "Spool_Write E sp d ?f False = (ok, sp1, d1)" by (cases "Spool_Write E sp d ?f False")
    show ?thesis
    proof (cases ok)
      case False
      with "1.prems" w True have "sp' = sp1" by (subst (asm) write_fragments.simps) simp
      then show ?thesis using Write_refused w False by simp
    next
      case okT: True
      then have "write_fragments E body sha n (ofs + kBlock) sp1 d1 = (False, sp', d')"
        using "1.prems" w True by (subst (asm) write_fragments.simps) simp
      then show ?thesis using "1.IH" [OF True refl w [symmetric] refl refl] okT by blast
    qed
  qed
qed

lemma WriteRecord_refused: "WriteRecord E sp d j = (False, sp', d') \<Longrightarrow> \<not> st_ok (sp_status sp')"
  using Write_refused fragments_refused by (fastforce simp: WriteRecord_def Let_def split: if_splits)

subsection \<open>A response on disk\<close>

text \<open>The file of a finished response: at least one frame, numbered from 0, each within 256 KiB.\<close>

definition responded :: "env \<Rightarrow> disk \<Rightarrow> path \<Rightarrow> bool" where
  "responded E d p \<longleftrightarrow> (\<exists>fs. fs \<noteq> [] \<and> content d p = Some (frames_text E fs) \<and> numbered fs \<and> bounded_lines E fs)"

definition fresh_spool :: "env \<Rightarrow> spool \<Rightarrow> disk \<Rightarrow> bool" where
  "fresh_spool E sp d \<longleftrightarrow>
     (if sp_fd sp then spool_holds E sp d [] \<and> sp_status sp = Ok
      else st_code (sp_status sp) = ''storage_error'')"

lemma fresh_spool_new: "Spool_new d p rid limit = (sp, d') \<Longrightarrow> fresh_spool E sp d' \<and> sp_path sp = p \<and> sp_id sp = rid"
  by (auto simp: Spool_new_def open_trunc_def fresh_spool_def spool_holds_def io_simps numbered_def
      bounded_lines_def split: if_splits)

lemma fresh_stream_inv: "fresh_spool E sp d \<Longrightarrow> sp_items sp = 0 \<Longrightarrow> stream_inv E sp d [] 0"
  by (auto simp: fresh_spool_def stream_inv_def within_quota_def spool_holds_def split: if_splits)

lemma responded_holds: "spool_holds E sp d fs \<Longrightarrow> fs \<noteq> [] \<Longrightarrow> responded E d (sp_path sp)"
  by (auto simp: responded_def spool_holds_def)

lemma record_frames_nonempty: "record_frames E rid n j \<noteq> []"
proof (cases "length (dump_r E j) + 64 \<le> kFrameBytes")
  case False
  then have "0 < length (dump_r E j)" by (auto simp: kFrameBytes_def)
  from blocks_drop [OF this] False show ?thesis by (simp add: record_frames_def Let_def)
qed (simp add: record_frames_def Let_def)

lemma closed_never_ok:
  assumes "\<not> sp_fd sp" and "Spool_Single E sp d j = (r, sp', d')"
  shows "\<not> st_ok r"
proof -
  have shut: "fst (Spool_Write E s d f t) = False" if "\<not> sp_fd s" for s d f t
    using that by (simp add: Spool_Write_def Let_def)
  obtain ok sp1 d1 where w: "WriteRecord E sp d j = (ok, sp1, d1)" by (cases "WriteRecord E sp d j")
  have "\<not> ok"
  proof (cases "length (dump_r E j) + 64 \<le> kFrameBytes \<or> kRecordBytes < length (dump_r E j)")
    case True
    then show ?thesis using w shut [OF assms(1), of d j False] by (auto simp: WriteRecord_def Let_def split: if_splits)
  next
    case False
    then have "0 < length (dump_r E j)" by (auto simp: kFrameBytes_def)
    with False w shut [OF assms(1)] show ?thesis
      by (subst (asm) WriteRecord_def, subst (asm) write_fragments.simps)
        (auto simp: Let_def split: prod.splits if_splits, metis fst_conv)
  qed
  then have f: "Spool_Finish E sp1 d1 (sp_status sp1) = (r, sp', d')" using assms(2) w by (simp add: Spool_Single_def)
  have "\<not> sp_fd sp1" using only_file_WriteRecord [OF w] assms(1) by simp
  from shut [OF this] show ?thesis
    using f by (auto simp: Spool_Finish_def Let_def st_ok_def case_prod_beta split: if_splits)
qed

text \<open>A spool that a single response may be written to: closed, or holding whole frames.\<close>

definition ready :: "env \<Rightarrow> spool \<Rightarrow> disk \<Rightarrow> bool" where
  "ready E sp d \<longleftrightarrow> \<not> sp_fd sp \<or> (\<exists>fs. spool_holds E sp d fs \<and> list_all data_frame fs \<and> within_quota sp)"

lemma ready_fresh: "fresh_spool E sp d \<Longrightarrow> ready E sp d"
  by (auto simp: fresh_spool_def ready_def within_quota_def spool_holds_def)

lemma ready_stream: "stream_inv E sp d fs n \<Longrightarrow> st_ok (sp_status sp) \<Longrightarrow> ready E sp d"
  by (auto simp: stream_inv_def ready_def st_ok_def)

lemma Spool_Single_ready:
  assumes "Spool_Single E sp d j = (r, sp', d')" and "st_ok r" and "ready E sp d" and "is_object j"
  shows "responded E d' (sp_path sp)"
proof -
  have fd: "sp_fd sp" using closed_never_ok assms(1,2) by blast
  then obtain fs where h: "spool_holds E sp d fs" "list_all data_frame fs" "within_quota sp"
    using assms(3) by (auto simp: ready_def)
  obtain ok sp1 d1 where w: "WriteRecord E sp d j = (ok, sp1, d1)" by (cases "WriteRecord E sp d j")
  show ?thesis
  proof (cases ok)
    case True
    then have "spool_holds E sp1 d1 (fs @ record_frames E (sp_id sp) (length fs) j)" "sp_path sp1 = sp_path sp"
      using WriteRecord_True [of E sp d j sp1 d1 fs] w h assms(4) by (auto simp: same_spool_def)
    moreover have "d' = next_call d1"
      using assms(1,2) w True by (auto simp: Spool_Single_def sync_call_def split: if_splits)
    ultimately have "spool_holds E sp1 d' (fs @ record_frames E (sp_id sp) (length fs) j)"
      by (simp add: spool_holds_def io_simps)
    from responded_holds [OF this] record_frames_nonempty \<open>sp_path sp1 = sp_path sp\<close> show ?thesis by simp
  next
    case False
    then have f: "Spool_Finish E sp1 d1 (sp_status sp1) = (r, sp', d')" using assms(1) w by (simp add: Spool_Single_def)
    have w': "WriteRecord E sp d j = (False, sp1, d1)" using w False by simp
    have "stream_inv E sp1 d1 [] 0"
    proof (cases "st_code (sp_status sp1) = ''storage_error''")
      case False
      then obtain gs where g: "spool_holds E sp1 d1 (fs @ gs)" "list_all is_fragment gs" "same_spool sp sp1"
        "\<not> st_ok (sp_status sp1)" "gs = [] \<and> sp_bytes sp1 = sp_bytes sp \<or> sp_bytes sp1 + 1024 \<le> sp_limit sp"
        using WriteRecord_False [OF w' h(1)] by blast
      have "list_all data_frame (fs @ gs)" using h(2) g(2) by (auto simp: list_all_iff data_frame_fragment)
      moreover have "within_quota sp1" using g(3,5) h(3) by (auto simp: within_quota_def same_spool_def)
      ultimately show ?thesis using g(1,4) unfolding stream_inv_def by blast
    qed (simp add: stream_inv_def)
    from Spool_Finish_Ok [OF f assms(2) this] obtain gs g where "spool_holds E sp' d' (gs @ [g])" "sp_path sp' = sp_path sp1"
      by metis
    then show ?thesis using responded_holds only_file_WriteRecord [OF w] by fastforce
  qed
qed

lemmas Spool_Single_responded = Spool_Single_ready [OF _ _ ready_fresh]

subsection \<open>The interface, the mock backend and the dispatcher\<close>

type_synonym sink = "spool \<Rightarrow> disk \<Rightarrow> json \<Rightarrow> bool \<times> spool \<times> disk"

text \<open>The virtual functions of \<open>class Backend\<close>; \<open>None\<close> when a call throws or does not return.\<close>

record 'b backend =
  b_Generic :: "json \<Rightarrow> 'b \<Rightarrow> spool \<Rightarrow> disk \<Rightarrow> (status \<times> 'b \<times> spool \<times> disk) option"
  b_List :: "sink \<Rightarrow> 'b \<Rightarrow> spool \<Rightarrow> disk \<Rightarrow> (status \<times> 'b \<times> spool \<times> disk) option"
  b_SetState :: "string \<Rightarrow> bool \<Rightarrow> 'b \<Rightarrow> (status \<times> 'b) option"
  b_Poll :: "'b \<Rightarrow> 'b"

record mock =
  mock_count :: nat
  mock_states :: "(string \<times> bool) list"

definition mock_name :: "nat \<Rightarrow> string" where
  "mock_name i = ''loop'' @ to_string i"

definition mock_item :: "mock \<Rightarrow> nat \<Rightarrow> json" where
  "mock_item b i = jobj [(''interface'', JString (mock_name i)),
     (''state'', JString (if map_of (mock_states b) (mock_name i) = Some True then ''up'' else ''down''))]"

fun offer_items :: "sink \<Rightarrow> json list \<Rightarrow> spool \<Rightarrow> disk \<Rightarrow> spool \<times> disk" where
  "offer_items sink [] sp d = (sp, d)"
| "offer_items sink (x # xs) sp d =
     (let (more, sp', d') = sink sp d x in if more then offer_items sink xs sp' d' else (sp', d'))"

definition Mock_List :: "sink \<Rightarrow> mock \<Rightarrow> spool \<Rightarrow> disk \<Rightarrow> status \<times> mock \<times> spool \<times> disk" where
  "Mock_List sink b sp d = (Ok, b, offer_items sink (map (mock_item b) [0..<mock_count b]) sp d)"

definition Mock_SetState :: "string \<Rightarrow> bool \<Rightarrow> mock \<Rightarrow> status \<times> mock" where
  "Mock_SetState name up b =
     (if name \<in> set (map mock_name [0..<mock_count b]) then (Ok, b\<lparr>mock_states := put name up (mock_states b)\<rparr>)
      else (mk_status ''resource_not_found'' ''Interface name did not resolve'', b))"

definition Backend_Generic :: "env \<Rightarrow> json \<Rightarrow> 'b \<Rightarrow> spool \<Rightarrow> disk \<Rightarrow> status \<times> 'b \<times> spool \<times> disk" where
  "Backend_Generic E request b sp d =
     (let (r, sp', d') = Spool_Single E sp d
        (jerror (jtext (jat request ''id'')) (mk_status ''method_not_found'' ''Method is not supported''))
      in (r, b, sp', d'))"

definition Backend_Poll :: "'b \<Rightarrow> 'b" where
  "Backend_Poll b = b"

definition mock_backend :: "env \<Rightarrow> mock backend" where
  "mock_backend E = \<lparr>b_Generic = (\<lambda>request b sp d. Some (Backend_Generic E request b sp d)),
     b_List = (\<lambda>sink b sp d. Some (Mock_List sink b sp d)), b_SetState = (\<lambda>name up b. Some (Mock_SetState name up b)),
     b_Poll = Backend_Poll\<rparr>"

definition MakeMockBackend :: "nat \<Rightarrow> mock" where
  "MakeMockBackend count = \<lparr>mock_count = count, mock_states = []\<rparr>"

text \<open>
  \<open>None\<close> when a conversion of the request throws (journaled requests have a string method and
  identifier, so this does not happen there) or a call of the backend does.
\<close>

definition RunBackend ::
  "env \<Rightarrow> 'b backend \<Rightarrow> 'b \<Rightarrow> json \<Rightarrow> spool \<Rightarrow> disk \<Rightarrow> (status \<times> 'b \<times> spool \<times> disk) option" where
  "RunBackend E B b request sp d = do {
     method \<leftarrow> get_string (jat request ''method'');
     let params = jvalue request ''params'' (JObject []);
     rid \<leftarrow> get_string (jat request ''id'');
     if method = ''interface.list'' then
       (if jsize params \<noteq> 0 then
          (let (r, sp', d') = Spool_Single E sp d
             (jerror rid (mk_status ''invalid_params'' ''interface.list takes no parameters'')) in
           Some (r, b, sp', d'))
        else
          do {
            (st, b', sp', d') \<leftarrow> b_List B (Spool_Add E) b sp d;
            let (r, sp'', d'') = Spool_Finish E sp' d' st;
            Some (r, b', sp'', d'') })
     else if method = ''interface.set_state'' then
       (if jsize params \<noteq> 2 \<or> \<not> contains params ''interface'' \<or> \<not> is_string (jat params ''interface'') \<or>
           jtext (jat params ''interface'') = [] \<or> 63 < length (jtext (jat params ''interface'')) \<or>
           \<not> contains params ''state'' \<or>
           \<not> json_eq (jat params ''state'') (JString ''up'') \<and> \<not> json_eq (jat params ''state'') (JString ''down'') then
          (let (r, sp', d') = Spool_Single E sp d
             (jerror rid (mk_status ''invalid_params'' ''Expected interface name and state up or down'')) in
           Some (r, b, sp', d'))
        else
          do {
            (st, b') \<leftarrow> b_SetState B (jtext (jat params ''interface'')) (json_eq (jat params ''state'') (JString ''up'')) b;
            let (r, sp', d') = Spool_Single E sp d (if st_ok st then jresult rid (JObject []) else jerror rid st);
            Some (r, b', sp', d') })
     else b_Generic B request b sp d }"

lemma is_object_frames_of [simp]: "is_object (jerror rid st)" "is_object (jresult rid x)"
  by (simp_all add: jerror_def jresult_def)

lemma RunBackend_disj:
  assumes "RunBackend E B b request sp d = Some (r, b', sp', d')"
  shows "(\<exists>j. is_object j \<and> Spool_Single E sp d j = (r, sp', d')) \<or>
    (\<exists>st sp1 d1. b_List B (Spool_Add E) b sp d = Some (st, b', sp1, d1) \<and> Spool_Finish E sp1 d1 st = (r, sp', d')) \<or>
    b_Generic B request b sp d = Some (r, b', sp', d')"
proof -
  let ?m = "jtext (jat request ''method'')"
  consider "?m = ''interface.list''" | "?m = ''interface.set_state''" | "?m \<notin> {''interface.list'', ''interface.set_state''}" by auto
  then show ?thesis
  proof cases
    case 1
    then show ?thesis using assms
      by (auto simp: RunBackend_def get_string_jtext Option.bind_eq_Some_conv Let_def case_prod_beta prod_eq_iff
          split: if_split_asm intro!: exI [of _ "jerror _ _"])
  next
    case 2
    then show ?thesis using assms
      by (auto simp: RunBackend_def get_string_jtext Option.bind_eq_Some_conv Let_def case_prod_beta prod_eq_iff
          split: if_split_asm intro: exI [of _ "jerror _ _"] exI [of _ "jresult _ _"])
  next
    case 3
    then show ?thesis using assms by (auto simp: RunBackend_def get_string_jtext Option.bind_eq_Some_conv)
  qed
qed

subsection \<open>The contract between dispatcher and backend\<close>

text \<open>
  What \<open>RunBackend\<close> needs of a backend: \<open>List\<close> does nothing to the spool but offer items to the
  sink, and \<open>Generic\<close>, when it reports success on a fresh spool, has left a finished response
  there and has touched no other file. A backend may need its catalog to be \<open>sound\<close> for that.
\<close>

locale backend_contract =
  fixes E :: env and B :: "'b backend" and sound :: bool
  assumes List_offers: "b_List B (Spool_Add E) b sp d = Some (st, b', sp', d') \<Longrightarrow>
      \<exists>items. (sp', d') = add_all E sp d items"
    and Generic_responds: "b_Generic B request b sp d = Some (r, b', sp', d') \<Longrightarrow> sound \<Longrightarrow> fresh_spool E sp d \<Longrightarrow>
      sp_items sp = 0 \<Longrightarrow> st_ok r \<Longrightarrow> responded E d' (sp_path sp)"
    and Generic_only: "b_Generic B request b sp d = Some (r, b', sp', d') \<Longrightarrow> sound \<Longrightarrow> only_file (sp_path sp) d d'"
begin

lemma List_responds:
  assumes "b_List B (Spool_Add E) b sp d = Some (st, b', sp1, d1)" and "Spool_Finish E sp1 d1 st = (r, sp', d')"
  shows "only_file (sp_path sp) d d'"
    and "fresh_spool E sp d \<Longrightarrow> sp_items sp = 0 \<Longrightarrow> st_ok r \<Longrightarrow> responded E d' (sp_path sp)"
proof -
  obtain items where a: "add_all E sp d items = (sp1, d1)" using List_offers [OF assms(1)] by metis
  show "only_file (sp_path sp) d d'"
    using only_file_add_all [OF a] only_file_Finish [OF assms(2)] by (auto intro: only_file_trans)
  assume f: "fresh_spool E sp d" "sp_items sp = 0" and ok: "st_ok r"
  have "stream_inv E sp1 d1 (stream_frames E (sp_id sp) [] items) (length items)"
    using stream_inv_add_all [OF a fresh_stream_inv [OF f]] by simp
  from Spool_Finish_Ok [OF assms(2) ok this]
  obtain gs g where "spool_holds E sp' d' (gs @ [g])" "sp_path sp' = sp_path sp1" by metis
  then show "responded E d' (sp_path sp)" using responded_holds only_file_add_all [OF a] by fastforce
qed

lemma run_only:
  assumes "RunBackend E B b request sp d = Some (r, b', sp', d')" and sound
  shows "only_file (sp_path sp) d d'"
  using RunBackend_disj [OF assms(1)] by (auto dest: only_file_Single List_responds(1) Generic_only [OF _ assms(2)])

lemma run_responds:
  assumes "RunBackend E B b request sp d = Some (r, b', sp', d')" and "fresh_spool E sp d" "sp_items sp = 0" "st_ok r"
    and sound
  shows "responded E d' (sp_path sp)"
  using RunBackend_disj [OF assms(1)]
  by (auto dest: Spool_Single_responded [OF _ assms(4,2)] List_responds(2) [OF _ _ assms(2-4)]
      Generic_responds [OF _ assms(5,2-4)])

end

subsection \<open>The mock backend meets the contract\<close>

lemma offer_items_add_all:
  assumes "offer_items (Spool_Add E) xs sp d = (sp', d')"
  shows "\<exists>items. add_all E sp d items = (sp', d') \<and> (st_ok (sp_status sp') \<longrightarrow> items = xs)"
  using assms
proof (induction xs arbitrary: sp d)
  case (Cons x xs)
  obtain more sp1 d1 where a: "Spool_Add E sp d x = (more, sp1, d1)" by (cases "Spool_Add E sp d x")
  show ?case
  proof (cases more)
    case True
    then have "offer_items (Spool_Add E) xs sp1 d1 = (sp', d')" using Cons.prems a by simp
    from Cons.IH [OF this] obtain items where i: "add_all E sp1 d1 items = (sp', d')" "st_ok (sp_status sp') \<longrightarrow> items = xs"
      by blast
    then show ?thesis using a by (intro exI [of _ "x # items"]) simp
  next
    case False
    then have "sp' = sp1" "d' = d1" using Cons.prems a by simp_all
    moreover have "\<not> st_ok (sp_status sp1)" if "\<not> more"
    proof (cases "st_ok (sp_status sp)")
      case True
      obtain ok sp2 d2 where w: "WriteRecord E sp d (chunk_frame (sp_id sp) x) = (ok, sp2, d2)"
        by (cases "WriteRecord E sp d (chunk_frame (sp_id sp) x)")
      then have "ok = False" "sp1 = sp2" using a that True by (auto simp: Spool_Add_def split: if_splits)
      then show ?thesis using WriteRecord_refused w by blast
    qed (use a in \<open>auto simp: Spool_Add_def\<close>)
    ultimately show ?thesis using a False by (intro exI [of _ "[x]"]) simp
  qed
qed (auto intro!: exI [of _ "[]"])

interpretation mock: backend_contract E "mock_backend E" True for E
proof
  fix b sp d st b' sp' d'
  assume "b_List (mock_backend E) (Spool_Add E) b sp d = Some (st, b', sp', d')"
  then have "offer_items (Spool_Add E) (map (mock_item b) [0..<mock_count b]) sp d = (sp', d')"
    by (auto simp: mock_backend_def Mock_List_def)
  from offer_items_add_all [OF this] show "\<exists>items. (sp', d') = add_all E sp d items" by metis
next
  fix request b sp d r b' sp' d'
  assume g: "b_Generic (mock_backend E) request b sp d = Some (r, b', sp', d')"
  then obtain j where s: "Spool_Single E sp d j = (r, sp', d')" "is_object j"
    by (auto simp: mock_backend_def Backend_Generic_def split: prod.splits)
  show "True \<Longrightarrow> only_file (sp_path sp) d d'" using only_file_Single [OF s(1)] by simp
  show "True \<Longrightarrow> fresh_spool E sp d \<Longrightarrow> sp_items sp = 0 \<Longrightarrow> st_ok r \<Longrightarrow> responded E d' (sp_path sp)"
    using Spool_Single_responded [OF s(1)] s(2) by blast
qed

definition list_request :: "string \<Rightarrow> json" where
  "list_request rid = JObject [(''id'', JString rid), (''method'', JString ''interface.list'')]"

definition set_request :: "string \<Rightarrow> string \<Rightarrow> bool \<Rightarrow> json" where
  "set_request rid name up = JObject [(''id'', JString rid), (''method'', JString ''interface.set_state''),
     (''params'', JObject [(''interface'', JString name), (''state'', JString (if up then ''up'' else ''down''))])]"

lemma request_sel [simp]:
  "jat (list_request rid) ''id'' = JString rid" "jat (list_request rid) ''method'' = JString ''interface.list''"
  "jvalue (list_request rid) ''params'' x = x"
  "jat (set_request rid name up) ''id'' = JString rid"
  "jat (set_request rid name up) ''method'' = JString ''interface.set_state''"
  "jvalue (set_request rid name up) ''params'' x =
     JObject [(''interface'', JString name), (''state'', JString (if up then ''up'' else ''down''))]"
  by (simp_all add: list_request_def set_request_def jat_def jvalue_def)

text \<open>
  The answer to \<open>interface.list\<close> is never silently cut: when the response file ends with a
  \<open>complete\<close> frame, its data frames are those of all the interfaces in order, each with its current
  state, and the counts agree; otherwise the last frame is an error. Listing changes no state.
\<close>

theorem list_complete:
  assumes "Spool_new d p rid limit = (sp, d0)"
    and "RunBackend E (mock_backend E) b (list_request rid) sp d0 = Some (r, b', sp', d')" and "st_ok r"
  shows "b' = b \<and> (\<exists>gs fin. content d' p = Some (frames_text E (gs @ [fin])) \<and> numbered (gs @ [fin]) \<and>
     (if jat fin ''type'' = JString ''complete''
      then gs = stream_frames E rid [] (map (mock_item b) [0..<mock_count b]) \<and>
           fin = terminal_frame rid (length gs) (mock_count b) Ok
      else jat fin ''type'' = JString ''error''))"
proof -
  let ?xs = "map (mock_item b) [0..<mock_count b]"
  obtain sp1 d1 where o: "offer_items (Spool_Add E) ?xs sp d0 = (sp1, d1)" by force
  then have f: "Spool_Finish E sp1 d1 Ok = (r, sp', d')" and b: "b' = b"
    using assms(2) by (auto simp: RunBackend_def mock_backend_def Mock_List_def split: prod.splits)
  obtain items where i: "add_all E sp d0 items = (sp1, d1)" "st_ok (sp_status sp1) \<longrightarrow> items = ?xs"
    using offer_items_add_all [OF o] by blast
  have t: "jat (terminal_frame rid n k Ok) ''type'' = JString ''complete''" for n k
    by (simp add: terminal_frame_def json_simps)
  from finished_stream [OF assms(1) i(1) f assms(3)] show ?thesis
    using b i(2) t by (cases "st_ok (sp_status sp1)") (fastforce simp: if_splits)+
qed

theorem list_complete_witness:
  "let (sp, d0) = Spool_new clean_disk ''p'' ''r'' 4096;
       res = RunBackend sample_env (mock_backend sample_env) (MakeMockBackend 2) (list_request ''r'') sp d0 in
   case res of Some (r, b', sp', d') \<Rightarrow> st_ok r \<and> b' = MakeMockBackend 2 | None \<Rightarrow> False"
proof -
  obtain sp d0 where 0: "Spool_new clean_disk ''p'' ''r'' 4096 = (sp, d0)" by force
  have "(let (sp, d0) = Spool_new clean_disk ''p'' ''r'' 4096;
       res = RunBackend sample_env (mock_backend sample_env) (MakeMockBackend 2) (list_request ''r'') sp d0 in
      case res of Some (r, b', sp', d') \<Rightarrow> st_ok r | None \<Rightarrow> False)"
    by (simp add: RunBackend_def mock_backend_def Mock_List_def MakeMockBackend_def mock_item_def mock_name_def
        upt_rec spool_eval)
  then obtain r b' sp' d' where
    1: "RunBackend sample_env (mock_backend sample_env) (MakeMockBackend 2) (list_request ''r'') sp d0 = Some (r, b', sp', d')" "st_ok r"
    using 0 by (auto split: option.splits)
  show ?thesis using list_complete [OF 0 1] 0 1 by simp
qed

lemma set_params_sel [simp]:
  "contains (JObject [(''interface'', a), (''state'', c)]) ''interface''"
  "contains (JObject [(''interface'', a), (''state'', c)]) ''state''"
  "jat (JObject [(''interface'', a), (''state'', c)]) ''interface'' = a"
  "jat (JObject [(''interface'', a), (''state'', c)]) ''state'' = c"
  by (simp_all add: contains_def jat_def)

lemma run_set_state:
  assumes "RunBackend E (mock_backend E) b (set_request rid name up) sp d = Some (r, b', sp', d')"
  shows "b' = (if name \<noteq> [] \<and> length name \<le> 63 then snd (Mock_SetState name up b) else b)"
  using assms
  by (auto simp: RunBackend_def mock_backend_def Let_def case_prod_beta split: if_splits)

lemma length_mock_name: "mock_name i \<noteq> []"
  by (simp add: mock_name_def)

text \<open>
  \<open>interface.set_state\<close> on the mock backend changes the listed state of exactly the named
  interface, and of none when the name does not resolve or is longer than 63 bytes.
\<close>

theorem set_state_exact:
  assumes "RunBackend E (mock_backend E) b (set_request rid name up) sp d = Some (r, b', sp', d')"
    and "i < mock_count b"
  shows "mock_count b' = mock_count b \<and> mock_item b' i =
    (if mock_name i = name \<and> length name \<le> 63
     then jobj [(''interface'', JString name), (''state'', JString (if up then ''up'' else ''down''))]
     else mock_item b i)"
  using run_set_state [OF assms(1)] assms(2) length_mock_name
  by (auto simp: Mock_SetState_def mock_item_def)

theorem set_state_exact_witness:
  "let (sp, d0) = Spool_new clean_disk ''p'' ''r'' 4096 in
   case RunBackend sample_env (mock_backend sample_env) (MakeMockBackend 2) (set_request ''r'' ''loop1'' True) sp d0 of
     Some (r, b', sp', d') \<Rightarrow>
       mock_item b' 1 = jobj [(''interface'', JString ''loop1''), (''state'', JString ''up'')] \<and>
       mock_item b' 0 = mock_item (MakeMockBackend 2) 0
   | None \<Rightarrow> False"
proof -
  obtain sp d0 where 0: "Spool_new clean_disk ''p'' ''r'' 4096 = (sp, d0)" by force
  obtain r b' sp' d' where
    1: "RunBackend sample_env (mock_backend sample_env) (MakeMockBackend 2) (set_request ''r'' ''loop1'' True) sp d0 = Some (r, b', sp', d')"
    by (auto simp: RunBackend_def mock_backend_def Let_def case_prod_beta intro: prod.exhaust)
  have "mock_count (MakeMockBackend 2) = 2" by (simp add: MakeMockBackend_def)
  moreover have "mock_name 1 = ''loop1''" "mock_name 0 \<noteq> ''loop1''" by code_simp+
  ultimately show ?thesis using set_state_exact [OF 1, of 0] set_state_exact [OF 1, of 1] 0 1 by simp
qed

end
