(* ===== verification/Server.thy ===== *)
theory Server
  imports Journal Redis Backend Uploads
begin

text \<open>
  Class \<open>ApiServer\<close> of \<open>src/main.cc\<close>: registration, admission, execution, delivery, cleanup and
  recovery over the journal, the upload directory, the response spools, Redis and the worker
  thread. The whole program state is the record \<open>world\<close>; a member function is an action on it that
  returns \<open>None\<close> when it ends the process (\<open>Fail\<close>, a journal error, an uncaught exception), together
  with the world it leaves behind, so that the state a restarted process finds is part of the model.
\<close>

subsection \<open>The world and actions on it\<close>

datatype future = Idle | Submitted json path int | Ready "status option"

record ('r, 'b) world =
  w_journal :: journal
  w_disk :: disk
  w_net :: 'r
  w_backend :: 'b
  w_future :: future
  w_active_sid :: string
  w_active_id :: string
  w_active_path :: path
  w_last_cleanup :: int
  w_sql :: nat
  w_sql_fault :: "nat \<Rightarrow> bool"
  w_reads :: nat
  w_clock :: "nat \<Rightarrow> int"
  w_draws :: nat
  w_random :: "nat \<Rightarrow> string"

record config =
  c_prefix :: string
  c_state :: path
  c_backend :: string
  c_clients :: json
  c_owner :: string
  c_credentials :: credentials

type_synonym ('r, 'b, 'a) act = "('r, 'b) world \<Rightarrow> 'a option \<times> ('r, 'b) world"

definition return_act :: "'a \<Rightarrow> ('r, 'b, 'a) act" where
  "return_act x w = (Some x, w)"

definition Fail :: "('r, 'b, 'a) act" where
  "Fail w = (None, w)"

definition seq_act :: "('r, 'b, 'a) act \<Rightarrow> ('a \<Rightarrow> ('r, 'b, 'c) act) \<Rightarrow> ('r, 'b, 'c) act" where
  "seq_act m f w = (case m w of (None, w') \<Rightarrow> (None, w') | (Some x, w') \<Rightarrow> f x w')"

fun for_each :: "('x \<Rightarrow> ('r, 'b, unit) act) \<Rightarrow> 'x list \<Rightarrow> ('r, 'b, unit) act" where
  "for_each f [] = return_act ()"
| "for_each f (x # xs) = seq_act (f x) (\<lambda>_. for_each f xs)"

text \<open>An uncaught exception.\<close>

definition throw_none :: "'a option \<Rightarrow> ('r, 'b, 'a) act" where
  "throw_none x w = (x, w)"

text \<open>A statement of the journal: it may fail as a whole, or violate a constraint.\<close>

definition sql_fails :: "('r, 'b) world \<Rightarrow> bool" where
  "sql_fails w \<longleftrightarrow> w_sql_fault w (w_sql w)"

definition query :: "(journal \<Rightarrow> 'a) \<Rightarrow> ('r, 'b, 'a) act" where
  "query q w = (if sql_fails w then (None, w) else (Some (q (w_journal w)), w\<lparr>w_sql := Suc (w_sql w)\<rparr>))"

definition update :: "(journal \<Rightarrow> journal option) \<Rightarrow> ('r, 'b, unit) act" where
  "update u w =
     (if sql_fails w then (None, w)
      else case u (w_journal w) of
             None \<Rightarrow> (None, w)
           | Some db \<Rightarrow> (Some (), w\<lparr>w_journal := db, w_sql := Suc (w_sql w)\<rparr>))"

definition on_disk :: "(disk \<Rightarrow> 'a \<times> disk) \<Rightarrow> ('r, 'b, 'a) act" where
  "on_disk f w = (let (x, d) = f (w_disk w) in (Some x, w\<lparr>w_disk := d\<rparr>))"

definition on_net :: "('r \<Rightarrow> 'a \<times> 'r) \<Rightarrow> ('r, 'b, 'a) act" where
  "on_net f w = (let (x, r) = f (w_net w) in (Some x, w\<lparr>w_net := r\<rparr>))"

definition Now :: "('r, 'b, int) act" where
  "Now w = (Some (w_clock w (w_reads w)), w\<lparr>w_reads := Suc (w_reads w)\<rparr>)"

definition RandomId :: "('r, 'b, string) act" where
  "RandomId w = (Some (Hex (w_random w (w_draws w))), w\<lparr>w_draws := Suc (w_draws w)\<rparr>)"

subsection \<open>Helpers\<close>

definition SessionKey :: "config \<Rightarrow> string \<Rightarrow> string \<Rightarrow> string \<Rightarrow> string" where
  "SessionKey cfg client sid direction =
     c_prefix cfg @ '':session:{'' @ client @ '':'' @ sid @ ''}:'' @ direction"

definition Capabilities :: "config \<Rightarrow> json" where
  "Capabilities cfg = jobj
     [(''protocol'', JInt 1), (''backend'', JString (c_backend cfg)),
      (''methods'', JArray (map JString
        [''api.describe'', ''api.replay'', ''session.renew'', ''interface.list'', ''interface.set_state'',
         ''transfer.begin'', ''transfer.chunk'', ''transfer.commit'', ''transfer.status''])),
      (''frame_bytes'', JUint kFrameBytes), (''response_window'', JInt (int kWindow)),
      (''max_upload_bytes'', JUint kUploadBytes), (''max_response_bytes'', JUint kSpoolBytes),
      (''max_params_bytes'', JUint kParamsBytes), (''max_record_bytes'', JUint kRecordBytes),
      (''max_native_payload_bytes'', JUint kNativePayloadBytes),
      (''response_fragments'', JString ''base64-json''), (''lease_seconds'', JInt kLeaseSeconds),
      (''request_retention'', JString ''session_lifetime''),
      (''max_requests_per_session'', JInt (int kJobsPerSession)),
      (''generated_methods'', if c_backend cfg = ''vapi'' then JString ''api.methods'' else JNull),
      (''events'', JBool False), (''snapshot'', JBool False)]"

definition spool_dir :: "config \<Rightarrow> path" where "spool_dir cfg = c_state cfg @ ''/spool''"

definition uploads_dir :: "config \<Rightarrow> path" where "uploads_dir cfg = c_state cfg @ ''/uploads''"

definition job_path :: "env \<Rightarrow> config \<Rightarrow> string \<Rightarrow> string \<Rightarrow> path" where
  "job_path E cfg sid rid = c_state cfg @ ''/spool/'' @ Sha256 E (sid @ '':'' @ rid) @ ''.jsonl''"

text \<open>\<open>SyncDirectory\<close>: open the directory and synchronise it.\<close>

definition SyncDirectory :: "('r, 'b, unit) act" where
  "SyncDirectory =
     seq_act (on_disk sync_call) (\<lambda>opened.
       if \<not> opened then Fail
       else seq_act (on_disk sync_call) (\<lambda>synced. if synced then return_act () else Fail))"

definition publish_json :: "env \<Rightarrow> 'r hiredis \<Rightarrow> string \<Rightarrow> json \<Rightarrow> ('r, 'b, bool) act" where
  "publish_json E H key j = seq_act (throw_none (dump E j)) (\<lambda>t. on_net (Publish H key t))"

definition remove_entry :: "'r hiredis \<Rightarrow> string \<Rightarrow> entry \<Rightarrow> ('r, 'b, unit) act" where
  "remove_entry H key e = on_net (\<lambda>r. ((), Remove H key e r))"

definition kOwnerScript :: string where
  "kOwnerScript =
     ''local owner=redis.call('' @ [CHR 39] @ ''GET'' @ [CHR 39] @ '',KEYS[1]); '' @
     ''if not owner then redis.call('' @ [CHR 39] @ ''SET'' @ [CHR 39] @ '',KEYS[1],ARGV[1]); return 1 end; '' @
     ''if owner==ARGV[1] then return 1 else return 0 end''"

subsection \<open>Ownership, completion and recovery\<close>

definition OwnNamespace :: "config \<Rightarrow> 'r hiredis \<Rightarrow> ('r, 'b, bool) act" where
  "OwnNamespace cfg H =
     seq_act (on_net (Command H [''EVAL'', kOwnerScript, ''1'', c_prefix cfg @ '':owner'', c_owner cfg])) (\<lambda>reply.
       case reply of
         None \<Rightarrow> return_act False
       | Some (RInteger n) \<Rightarrow> if n = 1 then return_act True else Fail
       | Some _ \<Rightarrow> Fail)"

definition MarkDone :: "string \<Rightarrow> string \<Rightarrow> path \<Rightarrow> ('r, 'b, unit) act" where
  "MarkDone sid rid p =
     seq_act SyncDirectory (\<lambda>_.
     seq_act (on_disk (\<lambda>d. (FileSize d p, d))) (\<lambda>sz.
       if sz < 0 then Fail
       else update (\<lambda>db. Some (set_done (nat sz) sid rid db))))"

definition write_single :: "env \<Rightarrow> path \<Rightarrow> string \<Rightarrow> json \<Rightarrow> disk \<Rightarrow> status \<times> disk" where
  "write_single E p rid j d =
     (let (sp, d1) = Spool_new d p rid kSpoolBytes; (st, sp', d2) = Spool_Single E sp d1 j in (st, d2))"

definition kUnknown :: status where
  "kUnknown = mk_status ''outcome_unknown'' ''Gateway interrupted; do not automatically repeat mutations''"

definition recover_job :: "env \<Rightarrow> job \<Rightarrow> ('r, 'b, unit) act" where
  "recover_job E row =
     seq_act (on_disk (\<lambda>d. (FileSize d (j_path row), d))) (\<lambda>sz.
       if j_state row = Running \<or> sz < 0 then
         seq_act (on_disk (write_single E (j_path row) (j_id row) (jerror (j_id row) kUnknown))) (\<lambda>st.
           if \<not> st_ok st then Fail else MarkDone (j_sid row) (j_id row) (j_path row))
       else return_act ())"

definition Recover :: "env \<Rightarrow> ('r, 'b, unit) act" where
  "Recover E = seq_act (query started_jobs) (for_each (recover_job E))"

subsection \<open>Registration\<close>

text \<open>
  The checks before a registration is answered: \<open>Some None\<close> when the entry is dropped without an
  answer, otherwise the client, the request identifier and the parameters.
\<close>

definition register_request :: "env \<Rightarrow> config \<Rightarrow> string \<Rightarrow> (string \<times> string \<times> json) option option" where
  "register_request E cfg body =
     (let (st, request) = ParseRequest E body kFrameBytes in
      if \<not> st_ok st \<or> \<not> json_eq (jat request ''method'') (JString ''session.register'') then Some None
      else
        (let params = jvalue request ''params'' (JObject []) in
         if \<not> contains params ''client'' \<or> \<not> IsId (jat params ''client'') \<or>
            \<not> contains params ''token'' \<or> \<not> is_string (jat params ''token'') then Some None
         else
           (let client = jtext (jat params ''client'') in
            if \<not> contains (c_clients cfg) client then Some None
            else do {
              secret \<leftarrow> get_string (jat (c_clients cfg) client);
              Some (if \<not> EqualSecret E secret (jtext (jat params ''token'')) then None
                    else Some (client, jtext (jat request ''id''), params)) })))"

definition session_reply :: "config \<Rightarrow> string \<Rightarrow> string \<Rightarrow> string \<Rightarrow> int \<Rightarrow> json" where
  "session_reply cfg client rid sid expires =
     jresult rid (jset (jset (jset (jset (Capabilities cfg)
       ''session'' (JString sid)) ''expires_at'' (JInt expires))
       ''requests'' (JString (SessionKey cfg client sid ''requests'')))
       ''responses'' (JString (SessionKey cfg client sid ''responses'')))"

definition open_session :: "config \<Rightarrow> string \<Rightarrow> string \<Rightarrow> ('r, 'b, json) act" where
  "open_session cfg client rid =
     seq_act (query (find_session client rid)) (\<lambda>existing.
       case existing of
         s # _ \<Rightarrow> return_act (session_reply cfg client rid (s_sid s) (s_expires s))
       | [] \<Rightarrow>
           seq_act (query count_sessions) (\<lambda>n.
             if kSessions \<le> n then
               return_act (jerror rid (mk_status ''quota_exceeded'' ''Session limit reached''))
             else
               seq_act RandomId (\<lambda>sid.
               seq_act Now (\<lambda>now.
               seq_act (update (insert_session \<lparr>s_sid = sid, s_client = client, s_registration = rid,
                                                s_expires = now + kLeaseSeconds\<rparr>)) (\<lambda>_.
                 return_act (session_reply cfg client rid sid (now + kLeaseSeconds)))))))"

definition register_reply ::
  "env \<Rightarrow> config \<Rightarrow> 'r hiredis \<Rightarrow> string \<Rightarrow> entry \<Rightarrow> string \<times> string \<times> json \<Rightarrow> ('r, 'b, unit) act" where
  "register_reply E cfg H key e = (\<lambda>(client, rid, params).
     seq_act
       (if jsize params \<noteq> 3 \<or> \<not> contains params ''protocol'' \<or> \<not> json_eq (jat params ''protocol'') (JInt 1)
        then return_act (jerror rid (mk_status ''unsupported_protocol''
               ''Registration requires client, token and protocol 1''))
        else open_session cfg client rid)
       (\<lambda>reply.
        seq_act (publish_json E H (c_prefix cfg @ '':bootstrap:'' @ client) (jset reply ''seq'' (JInt 0)))
          (\<lambda>published. if published then remove_entry H key e else return_act ())))"

definition Register :: "env \<Rightarrow> config \<Rightarrow> 'r hiredis \<Rightarrow> ('r, 'b, unit) act" where
  "Register E cfg H =
     (let key = c_prefix cfg @ '':register'' in
      seq_act (on_net (ReadFirst H key)) (\<lambda>found.
        case found of
          None \<Rightarrow> return_act ()
        | Some e \<Rightarrow>
            seq_act (throw_none (register_request E cfg (e_body e))) (\<lambda>accepted.
              case accepted of
                None \<Rightarrow> remove_entry H key e
              | Some request \<Rightarrow> register_reply E cfg H key e request)))"

subsection \<open>Admission\<close>

definition upload_request :: "env \<Rightarrow> config \<Rightarrow> string \<Rightarrow> string \<Rightarrow> json \<Rightarrow> ('r, 'b, status \<times> json) act" where
  "upload_request E cfg sid method params =
     seq_act Now (\<lambda>now w.
       case Handle E now (uploads_dir cfg) (w_disk w) sid method params of
         None \<Rightarrow> (None, w)
       | Some (st, result, d) \<Rightarrow> (Some (st, result), w\<lparr>w_disk := d\<rparr>))"

text \<open>Publish an answer that needs no job, and remove the request once it has been published.\<close>

definition answer_and_remove ::
  "env \<Rightarrow> 'r hiredis \<Rightarrow> string \<Rightarrow> string \<Rightarrow> entry \<Rightarrow> json \<Rightarrow> ('r, 'b, unit) act" where
  "answer_and_remove E H reply_key key e j =
     seq_act (publish_json E H reply_key (jset j ''seq'' (JInt 0)))
       (\<lambda>published. if published then remove_entry H key e else return_act ())"

definition admit :: "env \<Rightarrow> config \<Rightarrow> string \<Rightarrow> string \<Rightarrow> json \<Rightarrow> string \<Rightarrow> ('r, 'b, status) act" where
  "admit E cfg sid rid request body =
     seq_act (query (find_job sid rid)) (\<lambda>existing.
       case existing of
         r # _ \<Rightarrow> return_act (if j_body r \<noteq> body
                    then mk_status ''id_conflict'' ''Request ID already identifies a different request'' else Ok)
       | [] \<Rightarrow>
           if json_eq (jat request ''method'') (JString ''api.replay'') then
             (let params = jvalue request ''params'' (JObject []) in
              if jsize params \<noteq> 1 \<or> \<not> contains params ''request'' \<or> \<not> IsId (jat params ''request'') then
                return_act (mk_status ''invalid_params'' ''Replay requires the original request ID'')
              else
                (let original = jtext (jat params ''request'') in
                 seq_act (query (find_job sid original)) (\<lambda>found.
                   case found of
                     [] \<Rightarrow> return_act (mk_status ''resource_not_found'' ''Request is not retained in this session'')
                   | r # _ \<Rightarrow>
                       if j_state r = Done then
                         seq_act (update (\<lambda>db. Some (set_offset 0 sid original db))) (\<lambda>_. return_act Ok)
                       else return_act Ok)))
           else
             seq_act (query (count_jobs sid)) (\<lambda>n.
             seq_act (if kJobsPerSession \<le> n then return_act True
                      else seq_act (query retained_length) (\<lambda>used. return_act (kRetained < used + length body)))
               (\<lambda>full.
                if full then
                  return_act (mk_status ''quota_exceeded''
                    ''Retained request quota reached; use a new session after draining results'')
                else
                  seq_act Now (\<lambda>now.
                  seq_act (update (insert_job sid rid body (job_path E cfg sid rid) (now + kLeaseSeconds)))
                    (\<lambda>_. return_act Ok)))))"

definition Receive :: "env \<Rightarrow> config \<Rightarrow> 'r hiredis \<Rightarrow> string \<Rightarrow> string \<Rightarrow> ('r, 'b, unit) act" where
  "Receive E cfg H sid client =
     (let key = SessionKey cfg client sid ''requests''; reply_key = SessionKey cfg client sid ''responses'' in
      seq_act (on_net (ReadFirst H key)) (\<lambda>found.
        case found of
          None \<Rightarrow> return_act ()
        | Some e \<Rightarrow>
            seq_act (on_net (Command H [''EXPIRE'', key, int_to_string kLeaseSeconds])) (\<lambda>_.
              let (st, request) = ParseRequest E (e_body e) kFrameBytes in
              if \<not> st_ok st then answer_and_remove E H reply_key key e (jerror ''invalid'' st)
              else
                (let rid = jtext (jat request ''id'') in
                 if json_eq (jat request ''method'') (JString ''transfer.chunk'') \<and> \<not> contains request ''params_ref'' then
                   seq_act (upload_request E cfg sid ''transfer.chunk'' (jvalue request ''params'' (JObject [])))
                     (\<lambda>(st, result). answer_and_remove E H reply_key key e
                        (if st_ok st then jresult rid result else jerror rid st))
                 else
                   seq_act (throw_none (dump E request)) (\<lambda>body.
                   seq_act (admit E cfg sid rid request body) (\<lambda>st.
                     if \<not> st_ok st then answer_and_remove E H reply_key key e (jerror rid st)
                     else remove_entry H key e))))))"

subsection \<open>Execution\<close>

definition resolve_params :: "env \<Rightarrow> config \<Rightarrow> string \<Rightarrow> json \<Rightarrow> ('r, 'b, status \<times> json \<times> json) act" where
  "resolve_params E cfg sid request =
     (let params = jvalue request ''params'' (JObject []) in
      if \<not> contains request ''params_ref'' then return_act (Ok, params, request)
      else
        seq_act (throw_none (get_string (jat request ''params_ref''))) (\<lambda>tid.
        seq_act Now (\<lambda>now w.
          case Resolve E now (uploads_dir cfg) (w_disk w) sid tid of
            None \<Rightarrow> (None, w)
          | Some (st, resolved) \<Rightarrow>
              (let params' = (if st_ok st then resolved else params) in
               (Some (st, params', jset (jerase request ''params_ref'') ''params'' params'), w)))))"

text \<open>A request the main thread answers itself: \<open>None\<close> when it is for the backend.\<close>

definition immediate_result ::
  "env \<Rightarrow> config \<Rightarrow> string \<Rightarrow> status \<Rightarrow> string \<Rightarrow> json \<Rightarrow> ('r, 'b, (status \<times> json) option) act" where
  "immediate_result E cfg sid st method params =
     (if \<not> st_ok st then return_act (Some (st, JNull))
      else if method = ''api.describe'' \<and> jsize params = 0 then return_act (Some (Ok, Capabilities cfg))
      else if method = ''session.renew'' then
        (if jsize params \<noteq> 0 then
           return_act (Some (mk_status ''invalid_params'' ''session.renew takes no parameters'', JNull))
         else
           seq_act Now (\<lambda>now.
           seq_act (update (\<lambda>db. Some (set_expires (now + kLeaseSeconds) sid db))) (\<lambda>_.
             return_act (Some (Ok, jobj [(''expires_at'', JInt (now + kLeaseSeconds))])))))
      else if prefix ''transfer.'' method then
        seq_act (upload_request E cfg sid method params) (\<lambda>r. return_act (Some r))
      else return_act None)"

definition submit :: "string \<Rightarrow> string \<Rightarrow> path \<Rightarrow> json \<Rightarrow> int \<Rightarrow> ('r, 'b, unit) act" where
  "submit sid rid p request available w =
     (Some (), w\<lparr>w_active_sid := sid, w_active_id := rid, w_active_path := p,
                 w_future := Submitted request p available\<rparr>)"

definition run_job :: "env \<Rightarrow> config \<Rightarrow> job \<Rightarrow> ('r, 'b, unit) act" where
  "run_job E cfg row =
     (let request = parse E (j_body row) in
      if \<not> is_object request then Fail
      else
        seq_act (resolve_params E cfg (j_sid row) request) (\<lambda>(st, params, request).
        seq_act (throw_none (get_string (jat request ''method''))) (\<lambda>method.
        seq_act (immediate_result E cfg (j_sid row) st method params) (\<lambda>immediate.
          case immediate of
            Some (st, result) \<Rightarrow>
              seq_act (on_disk (write_single E (j_path row) (j_id row)
                         (if st_ok st then jresult (j_id row) result else jerror (j_id row) st))) (\<lambda>written.
                if \<not> st_ok written then Fail else MarkDone (j_sid row) (j_id row) (j_path row))
          | None \<Rightarrow>
              seq_act (query used_bytes) (\<lambda>used.
              seq_act (query (session_used (j_sid row))) (\<lambda>s_used.
                submit (j_sid row) (j_id row) (j_path row) request
                  (min (256 * 1024 * 1024 - int used) (64 * 1024 * 1024 - int s_used))))))))"

definition StartJob :: "env \<Rightarrow> config \<Rightarrow> ('r, 'b, unit) act" where
  "StartJob E cfg w =
     (if w_future w \<noteq> Idle then (Some (), w)
      else
        seq_act (query first_queued) (\<lambda>rows.
          case rows of
            [] \<Rightarrow> return_act ()
          | row # _ \<Rightarrow>
              seq_act (update (\<lambda>db. Some (set_running (j_sid row) (j_id row) db))) (\<lambda>_. run_job E cfg row)) w)"

text \<open>The task the worker thread runs; an exception is kept in the future.\<close>

definition worker_task ::
  "env \<Rightarrow> 'b backend \<Rightarrow> 'b \<Rightarrow> json \<Rightarrow> path \<Rightarrow> int \<Rightarrow> disk \<Rightarrow> (status \<times> 'b \<times> disk) option" where
  "worker_task E B b request p available d = do {
     rid \<leftarrow> get_string (jat request ''id'');
     let (sp, d1) = Spool_new d p rid (nat (max 1024 available));
     if available < 4096 then
       (let (r, sp', d2) = Spool_Single E sp d1
          (jerror rid (mk_status ''quota_exceeded'' ''Response storage quota exhausted'')) in
        Some (r, b, d2))
     else do {
       (r, b', sp', d2) \<leftarrow> RunBackend E B b request sp d1;
       Some (r, b', d2) } }"

definition worker_step :: "env \<Rightarrow> 'b backend \<Rightarrow> ('r, 'b) world \<Rightarrow> ('r, 'b) world" where
  "worker_step E B w =
     (case w_future w of
        Submitted request p available \<Rightarrow>
          (case worker_task E B (w_backend w) request p available (w_disk w) of
             None \<Rightarrow> w\<lparr>w_future := Ready None\<rparr>
           | Some (r, b, d) \<Rightarrow> w\<lparr>w_future := Ready (Some r), w_backend := b, w_disk := d\<rparr>)
      | _ \<Rightarrow> w)"

definition clear_active :: "('r, 'b, unit) act" where
  "clear_active w = (Some (), w\<lparr>w_active_sid := [], w_active_id := [], w_active_path := []\<rparr>)"

definition CompleteWorker :: "('r, 'b, unit) act" where
  "CompleteWorker w =
     (case w_future w of
        Ready result \<Rightarrow>
          (let w1 = w\<lparr>w_future := Idle\<rparr> in
           case result of
             None \<Rightarrow> (None, w1)
           | Some st \<Rightarrow>
               if \<not> st_ok st then (None, w1)
               else seq_act (MarkDone (w_active_sid w) (w_active_id w) (w_active_path w)) (\<lambda>_. clear_active) w1)
      | _ \<Rightarrow> (Some (), w))"

subsection \<open>Delivery and cleanup\<close>

text \<open>\<open>std::getline\<close> after \<open>seekg\<close>: \<open>None\<close> when nothing is left to read.\<close>

definition read_line :: "disk \<Rightarrow> path \<Rightarrow> nat \<Rightarrow> string option" where
  "read_line d p offset =
     (case content d p of
        None \<Rightarrow> None
      | Some s \<Rightarrow> if offset < length s then Some (takeWhile (\<lambda>c. c \<noteq> CHR 10) (drop offset s)) else None)"

definition deliver_session :: "config \<Rightarrow> 'r hiredis \<Rightarrow> session \<Rightarrow> ('r, 'b, unit) act" where
  "deliver_session cfg H s =
     seq_act (query (deliverable_jobs (s_sid s))) (\<lambda>rows.
       case rows of
         [] \<Rightarrow> return_act ()
       | row # _ \<Rightarrow>
           seq_act (on_disk (\<lambda>d. (read_line d (j_path row) (j_offset row), d))) (\<lambda>line.
             case line of
               None \<Rightarrow> Fail
             | Some text_line \<Rightarrow>
                 seq_act (on_net (Publish H (SessionKey cfg (s_client s) (s_sid s) ''responses'') text_line))
                   (\<lambda>published.
                    if published then
                      update (\<lambda>db. Some (set_offset (j_offset row + length text_line + 1) (s_sid s) (j_id row) db))
                    else return_act ())))"

definition Deliver :: "config \<Rightarrow> 'r hiredis \<Rightarrow> ('r, 'b, unit) act" where
  "Deliver cfg H = seq_act (query sessions) (for_each (deliver_session cfg H))"

definition unlink_spool :: "path \<Rightarrow> ('r, 'b, unit) act" where
  "unlink_spool p =
     seq_act (on_disk (\<lambda>d. (content d p = None, d))) (\<lambda>missing.
     seq_act (on_disk (\<lambda>d. unlink_file d p)) (\<lambda>removed. if \<not> removed \<and> \<not> missing then Fail else return_act ()))"

definition expire_session :: "config \<Rightarrow> 'r hiredis \<Rightarrow> session \<Rightarrow> ('r, 'b, unit) act" where
  "expire_session cfg H s w =
     (if s_sid s = w_active_sid w then (Some (), w)
      else
        seq_act (query (session_paths (s_sid s))) (\<lambda>paths.
        seq_act (for_each unlink_spool paths) (\<lambda>_.
        seq_act (on_net (Command H [''DEL'', SessionKey cfg (s_client s) (s_sid s) ''requests'',
                                    SessionKey cfg (s_client s) (s_sid s) ''responses'']))
          (\<lambda>_. update (\<lambda>db. Some (delete_session (s_sid s) db))))) w)"

definition Cleanup :: "env \<Rightarrow> config \<Rightarrow> 'r hiredis \<Rightarrow> ('r, 'b, unit) act" where
  "Cleanup E cfg H =
     seq_act (seq_act Now (\<lambda>now w.
        case Expire E now (uploads_dir cfg) (w_disk w) of
          None \<Rightarrow> (None, w)
        | Some d \<Rightarrow> (Some (), w\<lparr>w_disk := d\<rparr>))) (\<lambda>_.
     seq_act Now (\<lambda>now.
     seq_act (query (expired_sessions now)) (for_each (expire_session cfg H))))"

subsection \<open>The main loop\<close>

definition periodic_cleanup :: "env \<Rightarrow> config \<Rightarrow> 'r hiredis \<Rightarrow> ('r, 'b, unit) act" where
  "periodic_cleanup E cfg H =
     seq_act Now (\<lambda>now w.
       if now = w_last_cleanup w then (Some (), w)
       else seq_act (Cleanup E cfg H) (\<lambda>_. seq_act Now (\<lambda>later w. (Some (), w\<lparr>w_last_cleanup := later\<rparr>))) w)"

definition Run_turn :: "env \<Rightarrow> config \<Rightarrow> 'r hiredis \<Rightarrow> ('r, 'b, unit) act" where
  "Run_turn E cfg H =
     seq_act CompleteWorker (\<lambda>_.
     seq_act (on_net (Connect H (c_credentials cfg))) (\<lambda>connected.
       if \<not> connected then return_act ()
       else
         seq_act (OwnNamespace cfg H) (\<lambda>owned.
           if \<not> owned then return_act ()
           else
             seq_act (periodic_cleanup E cfg H) (\<lambda>_.
             seq_act (Register E cfg H) (\<lambda>_.
             seq_act Now (\<lambda>now.
             seq_act (query (live_sessions now)) (\<lambda>live.
             seq_act (for_each (\<lambda>s. Receive E cfg H (s_sid s) (s_client s)) live) (\<lambda>_.
             seq_act (Deliver cfg H) (\<lambda>_. StartJob E cfg)))))))))"

end
