(* ===== verification/Server_Journal.thy ===== *)
theory Server_Journal
  imports Server
begin

text \<open>
  What the server does to its journal, for every behaviour of Redis, the disk, the clock and the
  backend, and for every point where the process may end. The locale \<open>journal_statements\<close> is the
  interface between the statements of the journal and the handlers of the server: a reflexive and
  transitive relation that each statement respects is respected by every handler, by a whole turn of
  the main loop and by recovery. It is interpreted twice: for the invariant of the tables, and for
  the life cycle of jobs.
\<close>

subsection \<open>Actions and the journal\<close>

lemma seq_return: "seq_act (return_act x) f = f x"
  by (simp add: seq_act_def return_act_def fun_eq_iff)

lemma seq_assoc: "seq_act (seq_act m g) f = seq_act m (\<lambda>x. seq_act (g x) f)"
  by (simp add: seq_act_def fun_eq_iff split: option.splits prod.splits)

lemma seq_if: "seq_act (if b then m else n) f = (if b then seq_act m f else seq_act n f)"
  by simp

text \<open>The journal with the number of identifiers drawn so far and the random source they come from.\<close>

type_synonym view = "journal \<times> nat \<times> (nat \<Rightarrow> string)"

definition view_of :: "('r, 'b) world \<Rightarrow> view" where
  "view_of w = (w_journal w, w_draws w, w_random w)"

lemma view_of_upd [simp]:
  "view_of (w\<lparr>w_sql := n\<rparr>) = view_of w" "view_of (w\<lparr>w_reads := n\<rparr>) = view_of w"
  "view_of (w\<lparr>w_disk := d\<rparr>) = view_of w" "view_of (w\<lparr>w_net := r\<rparr>) = view_of w"
  "view_of (w\<lparr>w_future := f\<rparr>) = view_of w" "view_of (w\<lparr>w_last_cleanup := t\<rparr>) = view_of w"
  "view_of (w\<lparr>w_active_sid := a, w_active_id := i, w_active_path := p\<rparr>) = view_of w"
  "view_of (w\<lparr>w_active_sid := a, w_active_id := i, w_active_path := p, w_future := f\<rparr>) = view_of w"
  "view_of (w\<lparr>w_future := f, w_backend := b, w_disk := d\<rparr>) = view_of w" "view_of (w\<lparr>w_backend := b\<rparr>) = view_of w"
  by (simp_all add: view_of_def)

definition keeps :: "(view \<Rightarrow> view \<Rightarrow> bool) \<Rightarrow> (journal \<Rightarrow> bool) \<Rightarrow> ('r, 'b, 'a) act \<Rightarrow> bool" where
  "keeps J P m \<longleftrightarrow> (\<forall>w. P (w_journal w) \<longrightarrow> J (view_of w) (view_of (snd (m w))))"

text \<open>An action leaves a part of the world alone: the view above, or the state of the worker.\<close>

definition fixed :: "(('r, 'b) world \<Rightarrow> 'p) \<Rightarrow> ('r, 'b, 'a) act \<Rightarrow> bool" where
  "fixed p m \<longleftrightarrow> (\<forall>w. p (snd (m w)) = p w)"

abbreviation quiet :: "('r, 'b, 'a) act \<Rightarrow> bool" where
  "quiet \<equiv> fixed view_of"

definition worker_of :: "('r, 'b) world \<Rightarrow> future \<times> string \<times> string \<times> path" where
  "worker_of w = (w_future w, w_active_sid w, w_active_id w, w_active_path w)"

abbreviation steady :: "('r, 'b, 'a) act \<Rightarrow> bool" where
  "steady \<equiv> fixed worker_of"

lemma view_journal: "view_of w' = view_of w \<Longrightarrow> w_journal w' = w_journal w"
  by (simp add: view_of_def)

named_theorems quiet_rules \<open>actions that leave the journal alone\<close>

lemma quiet_prims [quiet_rules]:
  "quiet (return_act x)" "quiet Fail" "quiet (throw_none y)" "quiet (query q)"
  "quiet (on_disk f)" "quiet (on_net g)" "quiet Now" "quiet clear_active"
  "quiet (submit sid rid p request n)"
  by (simp_all add: fixed_def return_act_def Fail_def throw_none_def query_def on_disk_def on_net_def
      Now_def clear_active_def submit_def split: prod.splits)

lemma steady_prims [quiet_rules]:
  "steady (return_act x)" "steady Fail" "steady (throw_none y)" "steady (query q)" "steady (update u)"
  "steady (on_disk f)" "steady (on_net g)" "steady Now" "steady RandomId"
  by (simp_all add: fixed_def return_act_def Fail_def throw_none_def query_def on_disk_def on_net_def
      Now_def RandomId_def update_def worker_of_def split: prod.splits option.splits)

lemma fixed_seq [quiet_rules]:
  assumes "fixed p m" and "\<And>x. fixed p (f x)"
  shows "fixed p (seq_act m f)"
  unfolding fixed_def
proof
  fix w
  obtain r w' where m: "m w = (r, w')" by force
  have "p w' = p w" using assms(1) m unfolding fixed_def by (metis snd_conv)
  moreover have "p (snd (f x w')) = p w'" for x using assms(2) unfolding fixed_def by blast
  ultimately show "p (snd (seq_act m f w)) = p w" by (cases r) (simp_all add: seq_act_def m)
qed

lemma fixed_each [quiet_rules]: "fixed p (return_act ()) \<Longrightarrow> (\<And>x. fixed p (f x)) \<Longrightarrow> fixed p (for_each f xs)"
  by (induction xs) (auto intro!: fixed_seq)

lemma fixed_cases [quiet_rules]:
  "\<lbrakk>b \<Longrightarrow> fixed p m; \<not> b \<Longrightarrow> fixed p n\<rbrakk> \<Longrightarrow> fixed p (if b then m else n)"
  "\<lbrakk>fixed p f0; \<And>x. fixed p (f x)\<rbrakk> \<Longrightarrow> fixed p (case y of None \<Rightarrow> f0 | Some x \<Rightarrow> f x)"
  "(\<And>a b. fixed p (g a b)) \<Longrightarrow> fixed p (case z of (a, b) \<Rightarrow> g a b)"
  "\<lbrakk>fixed p f0; \<And>x xs. fixed p (h x xs)\<rbrakk> \<Longrightarrow> fixed p (case ys of [] \<Rightarrow> f0 | x # xs \<Rightarrow> h x xs)"
  by (auto split: option.splits prod.splits list.splits)

lemma fixed_guard [quiet_rules]: "fixed p m \<Longrightarrow> fixed p (\<lambda>w. if c w then (Some x, w) else m w)"
  by (simp add: fixed_def)

lemma quiet_SyncDirectory [quiet_rules]: "quiet SyncDirectory" "steady SyncDirectory"
  unfolding SyncDirectory_def by (intro quiet_rules)+

lemma quiet_publish [quiet_rules]: "quiet (publish_json E H key j)" "steady (publish_json E H key j)"
  unfolding publish_json_def by (intro quiet_rules)+

lemma quiet_remove [quiet_rules]: "quiet (remove_entry H key e)" "steady (remove_entry H key e)"
  unfolding remove_entry_def by (intro quiet_rules)+

lemma quiet_answer [quiet_rules]: "quiet (answer_and_remove E H reply_key key e j)" "steady (answer_and_remove E H reply_key key e j)"
  unfolding answer_and_remove_def by (intro quiet_rules)+

lemma quiet_unlink [quiet_rules]: "quiet (unlink_spool p)" "steady (unlink_spool p)"
  unfolding unlink_spool_def by (intro quiet_rules)+

lemma quiet_disk_case [quiet_rules]:
  "quiet (\<lambda>w. case h (w_disk w) of None \<Rightarrow> (None, w) | Some (x, y, d) \<Rightarrow> (Some (x, y), w\<lparr>w_disk := d\<rparr>))"
  "quiet (\<lambda>w. case h' (w_disk w) of None \<Rightarrow> (None, w) | Some d \<Rightarrow> (Some (), w\<lparr>w_disk := d\<rparr>))"
  "quiet (\<lambda>w. case k (w_disk w) of None \<Rightarrow> (None, w) | Some (st, v) \<Rightarrow> (Some (g st v), w))"
  "steady (\<lambda>w. case h (w_disk w) of None \<Rightarrow> (None, w) | Some (x, y, d) \<Rightarrow> (Some (x, y), w\<lparr>w_disk := d\<rparr>))"
  "steady (\<lambda>w. case h' (w_disk w) of None \<Rightarrow> (None, w) | Some d \<Rightarrow> (Some (), w\<lparr>w_disk := d\<rparr>))"
  "steady (\<lambda>w. case k (w_disk w) of None \<Rightarrow> (None, w) | Some (st, v) \<Rightarrow> (Some (g st v), w))"
  by (auto simp: fixed_def worker_of_def split: option.splits prod.splits)

lemma quiet_upload [quiet_rules]: "quiet (upload_request E cfg sid method params)" "steady (upload_request E cfg sid method params)"
  unfolding upload_request_def by (intro quiet_rules)+

lemma quiet_resolve [quiet_rules]: "quiet (resolve_params E cfg sid request)" "steady (resolve_params E cfg sid request)"
  unfolding resolve_params_def Let_def by (intro quiet_rules)+

lemma quiet_Own [quiet_rules]: "quiet (OwnNamespace cfg H)" "steady (OwnNamespace cfg H)"
  unfolding OwnNamespace_def
  by (intro quiet_rules; auto intro!: quiet_rules split: redis_reply.splits)+

lemma keepsD: "keeps J P m \<Longrightarrow> P (w_journal w) \<Longrightarrow> J (view_of w) (view_of (snd (m w)))"
  by (simp add: keeps_def)

lemma keeps_query_seq:
  fixes f :: "'x \<Rightarrow> ('r, 'b, 'a) act"
  assumes "\<And>x. keeps J (\<lambda>db. P db \<and> x = q db) (f x)" and "\<And>v. J v v"
  shows "keeps J P (seq_act (query q) f)"
  unfolding keeps_def
proof (intro allI impI)
  fix w :: "('r, 'b) world" assume P: "P (w_journal w)"
  let ?w = "w\<lparr>w_sql := Suc (w_sql w)\<rparr>"
  have "J (view_of ?w) (view_of (snd (f (q (w_journal w)) ?w)))"
    using keepsD [OF assms(1), of ?w "q (w_journal w)"] P by simp
  then show "J (view_of w) (view_of (snd (seq_act (query q) f w)))"
    using assms(2) by (simp add: seq_act_def query_def)
qed

lemma keeps_quiet_seq:
  fixes f :: "'x \<Rightarrow> ('r, 'b, 'a) act"
  assumes "quiet m" and "\<And>x. keeps J P (f x)" and "\<And>v. J v v"
  shows "keeps J P (seq_act m f)"
  unfolding keeps_def
proof (intro allI impI)
  fix w :: "('r, 'b) world" assume P: "P (w_journal w)"
  obtain r w' where m: "m w = (r, w')" by force
  have same: "view_of w' = view_of w" using assms(1) m unfolding fixed_def by (metis snd_conv)
  show "J (view_of w) (view_of (snd (seq_act m f w)))"
  proof (cases r)
    case None
    then show ?thesis using assms(3) same by (simp add: seq_act_def m)
  next
    case (Some x)
    have "J (view_of w') (view_of (snd (f x w')))" using keepsD [OF assms(2), of w' x] P view_journal [OF same] by simp
    then show ?thesis using Some same by (simp add: seq_act_def m)
  qed
qed

lemma keeps_update:
  assumes "\<And>db db' n g. P db \<Longrightarrow> u db = Some db' \<Longrightarrow> J (db, n, g) (db', n, g)" and "\<And>v. J v v"
  shows "keeps J P (update u)"
  using assms by (auto simp: keeps_def update_def view_of_def split: option.splits)

lemma keeps_cases:
  "\<lbrakk>b \<Longrightarrow> keeps J P m; \<not> b \<Longrightarrow> keeps J P n\<rbrakk> \<Longrightarrow> keeps J P (if b then m else n)"
  by simp

text \<open>A turn is a completion and a part that leaves the worker alone, followed by \<open>StartJob\<close>.\<close>

definition turn_rest :: "env \<Rightarrow> config \<Rightarrow> 'r hiredis \<Rightarrow> ('r, 'b, bool) act" where
  "turn_rest E cfg H =
     seq_act (on_net (Connect H (c_credentials cfg))) (\<lambda>connected.
       if \<not> connected then return_act False
       else
         seq_act (OwnNamespace cfg H) (\<lambda>owned.
           if \<not> owned then return_act False
           else
             seq_act (periodic_cleanup E cfg H) (\<lambda>_.
             seq_act (Register E cfg H) (\<lambda>_.
             seq_act Now (\<lambda>now.
             seq_act (query (live_sessions now)) (\<lambda>live.
             seq_act (for_each (\<lambda>s. Receive E cfg H (s_sid s) (s_client s)) live) (\<lambda>_.
             seq_act (Deliver cfg H) (\<lambda>_. return_act True))))))))"

definition turn_head :: "env \<Rightarrow> config \<Rightarrow> 'r hiredis \<Rightarrow> ('r, 'b, bool) act" where
  "turn_head E cfg H = seq_act CompleteWorker (\<lambda>_. turn_rest E cfg H)"

lemma turn_split: "Run_turn E cfg H = seq_act (turn_head E cfg H) (\<lambda>go. if go then StartJob E cfg else return_act ())"
  by (simp add: Run_turn_def turn_head_def turn_rest_def seq_assoc seq_return seq_if cong: if_cong)

subsection \<open>The interface between statements and handlers\<close>

locale journal_statements =
  fixes J :: "view \<Rightarrow> view \<Rightarrow> bool" and E :: env and cfg :: config
  assumes J_refl: "J v v"
    and J_trans: "J u v \<Longrightarrow> J v x \<Longrightarrow> J u x"
    and J_done: "J (db, n, g) (set_done sz sid rid db, n, g)"
    and J_offset: "J (db, n, g) (set_offset ofs sid rid db, n, g)"
    and J_expires: "J (db, n, g) (set_expires t sid db, n, g)"
    and J_delete: "J (db, n, g) (delete_session sid db, n, g)"
    and J_draw: "J (db, n, g) (db, Suc n, g)"
    and J_session: "count_sessions db < kSessions \<Longrightarrow> s_sid s = Hex (g n) \<Longrightarrow> insert_session s db = Some db' \<Longrightarrow>
      J (db, n, g) (db', Suc n, g)"
    and J_job: "count_jobs sid db < kJobsPerSession \<Longrightarrow> retained_length db + length body \<le> kRetained \<Longrightarrow>
      insert_job sid rid body (job_path E cfg sid rid) t db = Some db' \<Longrightarrow> J (db, n, g) (db', n, g)"
begin

lemma keeps_quiet: "quiet m \<Longrightarrow> keeps J P m"
  by (simp add: keeps_def fixed_def J_refl)

lemma keeps_seq:
  fixes f :: "'x \<Rightarrow> ('r, 'b, 'a) act"
  assumes "keeps J P m" and "\<And>x. keeps J (\<lambda>_. True) (f x)"
  shows "keeps J P (seq_act m f)"
  unfolding keeps_def
proof (intro allI impI)
  fix w :: "('r, 'b) world" assume "P (w_journal w)"
  then have 1: "J (view_of w) (view_of (snd (m w)))" using assms(1) unfolding keeps_def by blast
  obtain r w' where m: "m w = (r, w')" by force
  have "J (view_of w') (view_of (snd (f x w')))" for x using assms(2) unfolding keeps_def by blast
  then show "J (view_of w) (view_of (snd (seq_act m f w)))"
    using 1 J_trans by (cases r) (auto simp: seq_act_def m)
qed

lemma keeps_each:
  assumes "\<And>x. keeps J (\<lambda>_. True) (f x)"
  shows "keeps J (\<lambda>_. True) (for_each f xs)"
proof (induction xs)
  case (Cons x xs)
  show ?case unfolding for_each.simps by (rule keeps_seq [OF assms Cons.IH])
qed (simp add: keeps_quiet quiet_rules)

lemmas keeps_q = keeps_quiet_seq [where J = J, OF _ _ J_refl]
lemmas keeps_query = keeps_query_seq [where J = J, OF _ J_refl]
lemmas keeps_upd = keeps_update [where J = J, OF _ J_refl]

lemma keeps_MarkDone: "keeps J P (MarkDone sid rid p)"
  unfolding MarkDone_def
  by (intro keeps_q keeps_cases keeps_upd keeps_quiet quiet_rules) (auto intro: J_done)

lemma keeps_recover_job: "keeps J P (recover_job E row)"
  unfolding recover_job_def
  by (intro keeps_q keeps_cases keeps_MarkDone keeps_quiet quiet_rules)

lemma keeps_Recover: "keeps J (\<lambda>_. True) (Recover E)"
  unfolding Recover_def by (intro keeps_q keeps_each keeps_recover_job quiet_rules)

lemma J_new_session:
  "count_sessions db < kSessions \<Longrightarrow>
   insert_session \<lparr>s_sid = Hex (g n), s_client = c, s_registration = rid, s_expires = t\<rparr> db = Some db' \<Longrightarrow>
   J (db, n, g) (db', Suc n, g)"
  by (rule J_session) simp_all

lemma keeps_new_session:
  assumes "\<not> kSessions \<le> n"
  shows "keeps J (\<lambda>db. True \<and> n = count_sessions db) (seq_act RandomId (\<lambda>sid. seq_act Now (\<lambda>now.
      seq_act (update (insert_session \<lparr>s_sid = sid, s_client = client, s_registration = rid, s_expires = now + t\<rparr>))
        (\<lambda>_. return_act (reply sid now)))))"
  using assms J_draw J_new_session
  by (auto simp: keeps_def seq_act_def RandomId_def Now_def update_def return_act_def view_of_def not_le
      split: option.splits)

lemma keeps_open_session: "keeps J (\<lambda>_. True) (open_session cfg client rid)"
  unfolding open_session_def
proof (rule keeps_q)
  fix existing
  show "keeps J (\<lambda>_. True) (case existing of
      s # _ \<Rightarrow> return_act (session_reply cfg client rid (s_sid s) (s_expires s))
    | [] \<Rightarrow> seq_act (query count_sessions) (\<lambda>n.
        if kSessions \<le> n then return_act (jerror rid (mk_status ''quota_exceeded'' ''Session limit reached''))
        else seq_act RandomId (\<lambda>sid. seq_act Now (\<lambda>now.
          seq_act (update (insert_session \<lparr>s_sid = sid, s_client = client, s_registration = rid,
                                           s_expires = now + kLeaseSeconds\<rparr>))
            (\<lambda>_. return_act (session_reply cfg client rid sid (now + kLeaseSeconds)))))))"
  proof (cases existing)
    case Nil
    show ?thesis unfolding Nil list.case
      by (intro keeps_query keeps_cases keeps_new_session) (auto intro!: keeps_quiet quiet_rules)
  qed (auto intro!: keeps_quiet quiet_rules)
qed (rule quiet_rules)

lemma keeps_option:
  "keeps J P f0 \<Longrightarrow> (\<And>x. keeps J P (f x)) \<Longrightarrow> keeps J P (case y of None \<Rightarrow> f0 | Some x \<Rightarrow> f x)"
  "(\<And>a b. keeps J P (g a b)) \<Longrightarrow> keeps J P (case z of (a, b) \<Rightarrow> g a b)"
  by (auto split: option.splits prod.splits)

lemma keeps_Register: "keeps J (\<lambda>_. True) (Register E cfg H)"
  unfolding Register_def register_reply_def Let_def
  by (intro keeps_q keeps_option keeps_seq keeps_cases keeps_open_session) (auto intro!: keeps_quiet quiet_rules)

lemma keeps_list:
  "keeps J P f0 \<Longrightarrow> (\<And>x xs. keeps J P (f x xs)) \<Longrightarrow> keeps J P (case ys of [] \<Rightarrow> f0 | x # xs \<Rightarrow> f x xs)"
  by (auto split: list.splits)

lemma keeps_new_job:
  "keeps J (\<lambda>_. True)
     (seq_act (query (count_jobs sid)) (\<lambda>n.
      seq_act (if kJobsPerSession \<le> n then return_act True
               else seq_act (query retained_length) (\<lambda>used. return_act (kRetained < used + length body)))
        (\<lambda>full.
         if full then return_act st
         else seq_act Now (\<lambda>now.
           seq_act (update (insert_job sid rid body (job_path E cfg sid rid) (now + kLeaseSeconds)))
             (\<lambda>_. return_act Ok)))))"
  unfolding seq_if seq_assoc seq_return
proof (intro keeps_query keeps_cases)
  fix n used assume less: "\<not> kJobsPerSession \<le> n" "\<not> kRetained < used + length body"
  show "keeps J (\<lambda>db. (True \<and> n = count_jobs sid db) \<and> used = retained_length db) (seq_act Now (\<lambda>now.
      seq_act (update (insert_job sid rid body (job_path E cfg sid rid) (now + kLeaseSeconds))) (\<lambda>_. return_act Ok)))"
    by (rule keeps_q [OF quiet_prims(7)], rule keeps_seq, rule keeps_upd)
      (use less in \<open>auto simp: not_le not_less intro!: keeps_quiet quiet_rules intro: J_job\<close>)
qed (auto intro!: keeps_quiet quiet_rules)

lemma keeps_admit: "keeps J (\<lambda>_. True) (admit E cfg sid rid request body)"
  unfolding admit_def
proof (rule keeps_q)
  fix existing
  show "keeps J (\<lambda>_. True) (case existing of
         r # _ \<Rightarrow> return_act (if j_body r \<noteq> body
                    then mk_status ''id_conflict'' ''Request ID already identifies a different request'' else Ok)
       | [] \<Rightarrow>
           if json_eq (jat request ''method'') (JString ''api.replay'') then
             (let params = jvalue request ''params'' (JObject []) in
              if jsize params \<noteq> 1 \<or> \<not> contains params ''request'' \<or> \<not> IsId (jat params ''request'') then
                return_act (mk_status ''invalid_params'' ''Replay requires the original request ID'')
              else
                (let original = jtext (jat params ''request'') in
                 seq_act (query (find_job sid original)) (\<lambda>found.
                   case found of
                     [] \<Rightarrow> return_act (mk_status ''resource_not_found'' ''Request is not retained in this session'')
                   | r # _ \<Rightarrow>
                       if j_state r = Done then
                         seq_act (update (\<lambda>db. Some (set_offset 0 sid original db))) (\<lambda>_. return_act Ok)
                       else return_act Ok)))
           else
             seq_act (query (count_jobs sid)) (\<lambda>n.
             seq_act (if kJobsPerSession \<le> n then return_act True
                      else seq_act (query retained_length) (\<lambda>used. return_act (kRetained < used + length body)))
               (\<lambda>full.
                if full then
                  return_act (mk_status ''quota_exceeded''
                    ''Retained request quota reached; use a new session after draining results'')
                else
                  seq_act Now (\<lambda>now.
                  seq_act (update (insert_job sid rid body (job_path E cfg sid rid) (now + kLeaseSeconds)))
                    (\<lambda>_. return_act Ok)))))"
    unfolding Let_def
    by (intro keeps_list keeps_cases keeps_new_job keeps_q keeps_seq keeps_upd keeps_quiet quiet_rules)
      (auto intro: J_offset)
qed (rule quiet_rules)

lemma keeps_Receive: "keeps J (\<lambda>_. True) (Receive E cfg H sid client)"
  unfolding Receive_def Let_def
  by (intro keeps_q keeps_option keeps_cases keeps_seq keeps_admit) (auto intro!: keeps_quiet quiet_rules)

lemma keeps_immediate: "keeps J P (immediate_result E cfg sid st method params)"
  unfolding immediate_result_def
  by (intro keeps_cases keeps_q keeps_seq keeps_upd keeps_quiet quiet_rules) (auto intro: J_expires)

lemma keeps_run_job: "keeps J P (run_job E cfg row)"
  unfolding run_job_def Let_def
  by (intro keeps_cases keeps_q keeps_option keeps_seq keeps_immediate keeps_MarkDone)
    (auto intro!: keeps_quiet quiet_rules)

lemma keeps_guard: "keeps J P m \<Longrightarrow> keeps J P (\<lambda>w. if c w then (Some x, w) else m w)"
  by (simp add: keeps_def J_refl)

lemma keeps_CompleteWorker: "keeps J (\<lambda>_. True) CompleteWorker"
  unfolding keeps_def
proof (intro allI impI)
  fix w :: "('r, 'b) world"
  have "keeps J (\<lambda>_. True) (seq_act (MarkDone sid rid p) (\<lambda>_. clear_active :: ('r, 'b, unit) act))" for sid rid p
    by (intro keeps_seq keeps_MarkDone keeps_quiet quiet_rules)
  from keepsD [OF this, of "w\<lparr>w_future := Idle\<rparr>"]
  show "J (view_of w) (view_of (snd (CompleteWorker w)))"
    using J_refl by (auto simp: CompleteWorker_def Let_def split: future.splits option.splits)
qed

lemma keeps_Deliver: "keeps J (\<lambda>_. True) (Deliver cfg H)"
  unfolding Deliver_def deliver_session_def
  by (intro keeps_q keeps_each keeps_list keeps_option keeps_cases keeps_upd keeps_quiet quiet_rules)
    (auto intro: J_offset)

lemma keeps_expire_session: "keeps J (\<lambda>_. True) (expire_session cfg H s)"
  unfolding expire_session_def [abs_def]
  by (intro keeps_guard keeps_q keeps_upd quiet_rules) (auto intro: J_delete)

lemma keeps_Cleanup: "keeps J (\<lambda>_. True) (Cleanup E cfg H)"
  unfolding Cleanup_def by (intro keeps_q keeps_each keeps_expire_session quiet_rules)

lemma keeps_periodic: "keeps J (\<lambda>_. True) (periodic_cleanup E cfg H)"
  unfolding periodic_cleanup_def
  by (intro keeps_q keeps_guard keeps_seq keeps_Cleanup keeps_quiet quiet_rules) (simp add: fixed_def)

lemma keeps_rest: "keeps J (\<lambda>_. True) (turn_rest E cfg H)"
  unfolding turn_rest_def
  by (intro keeps_seq keeps_q keeps_cases keeps_periodic keeps_Register keeps_each keeps_Receive keeps_Deliver)
    (auto intro!: keeps_quiet quiet_rules)

lemma keeps_head: "keeps J (\<lambda>_. True) (turn_head E cfg H)"
  unfolding turn_head_def by (intro keeps_seq keeps_CompleteWorker keeps_rest)

end

text \<open>The statement that starts a job, and with it the whole turn.\<close>

locale journal_relation = journal_statements +
  assumes J_running: "first_queued db = r # rs \<Longrightarrow> J (db, n, g) (set_running (j_sid r) (j_id r) db, n, g)"
begin

lemma keeps_StartJob: "keeps J (\<lambda>_. True) (StartJob E cfg)"
proof -
  have "keeps J (\<lambda>_. True) (seq_act (query first_queued) (\<lambda>rows. case rows of [] \<Rightarrow> return_act ()
      | row # _ \<Rightarrow> seq_act (update (\<lambda>db. Some (set_running (j_sid row) (j_id row) db))) (\<lambda>_. run_job E cfg row)))"
  proof (rule keeps_query)
    fix rows
    show "keeps J (\<lambda>db. True \<and> rows = first_queued db) (case rows of [] \<Rightarrow> return_act ()
      | row # _ \<Rightarrow> seq_act (update (\<lambda>db. Some (set_running (j_sid row) (j_id row) db))) (\<lambda>_. run_job E cfg row))"
    proof (cases rows)
      case Nil
      then show ?thesis by (auto intro!: keeps_quiet quiet_rules)
    next
      case (Cons row rest)
      show ?thesis unfolding Cons list.case
        by (intro keeps_seq keeps_upd keeps_run_job) (metis J_running option.inject)
    qed
  qed
  from keeps_guard [OF this] show ?thesis unfolding StartJob_def [abs_def] .
qed

lemma keeps_turn: "keeps J (\<lambda>_. True) (Run_turn E cfg H)"
  unfolding turn_split by (intro keeps_seq keeps_head keeps_cases keeps_StartJob keeps_quiet quiet_rules)

end

end
