(* ===== verification/Server_Lifecycle.thy ===== *)
theory Server_Lifecycle
  imports Server_Journal
begin

text \<open>
  The two relations the server keeps on its journal: the invariant of the tables with its quotas,
  and the life cycle of jobs.
\<close>

subsection \<open>The invariant of the tables\<close>

definition journal_inv :: "env \<Rightarrow> config \<Rightarrow> journal \<Rightarrow> bool" where
  "journal_inv E cfg db \<longleftrightarrow> wf_journal db \<and> journal_quota db \<and>
     (\<forall>r \<in> set (jobs db). j_path r = job_path E cfg (j_sid r) (j_id r))"

definition keeps_tables :: "env \<Rightarrow> config \<Rightarrow> view \<Rightarrow> view \<Rightarrow> bool" where
  "keeps_tables E cfg v v' \<longleftrightarrow> (journal_inv E cfg (fst v) \<longrightarrow> journal_inv E cfg (fst v'))"

lemma paths_update_job:
  "same_identity f \<Longrightarrow> \<forall>r \<in> set (jobs db). j_path r = job_path E cfg (j_sid r) (j_id r) \<Longrightarrow>
   \<forall>r \<in> set (jobs (update_job sid rid f db)). j_path r = job_path E cfg (j_sid r) (j_id r)"
  by (auto simp: update_job_def same_identity_def)

lemma tables_update: "same_identity f \<Longrightarrow> keeps_tables E cfg (db, n, g) (update_job sid rid f db, n, g)"
  unfolding keeps_tables_def journal_inv_def fst_conv
  using paths_update_job [of f db E cfg sid rid] by (simp add: wf_update_job quota_update_job)

lemmas statement_defs = set_done_def set_offset_def set_running_def

interpretation tables: journal_relation "keeps_tables E cfg" E cfg for E cfg
proof
  fix db n g sz ofs t sid rid r rs s db' body
  show "keeps_tables E cfg (db, n, g) (set_done sz sid rid db, n, g)"
    "keeps_tables E cfg (db, n, g) (set_offset ofs sid rid db, n, g)"
    "keeps_tables E cfg (db, n, g) (set_running (j_sid r) (j_id r) db, n, g)"
    by (simp_all add: statement_defs tables_update)
  show "keeps_tables E cfg (db, n, g) (set_expires t sid db, n, g)"
    by (simp add: keeps_tables_def journal_inv_def sql_simps set_expires_map)
  show "keeps_tables E cfg (db, n, g) (delete_session sid db, n, g)"
    using wf_delete_session quota_delete_session
    by (auto simp: keeps_tables_def journal_inv_def delete_session_def)
  show "keeps_tables E cfg (db, n, g) (db', Suc n, g)"
    if "count_sessions db < kSessions" "insert_session s db = Some db'"
    using that wf_insert_session [OF that(2)] quota_insert_session [OF that(2)]
    by (auto simp: keeps_tables_def journal_inv_def insert_session_def split: if_splits)
  show "keeps_tables E cfg (db, n, g) (db', n, g)"
    if "count_jobs sid db < kJobsPerSession" "retained_length db + length body \<le> kRetained"
      "insert_job sid rid body (job_path E cfg sid rid) t db = Some db'"
    using that wf_insert_job [OF that(3)] quota_insert_job [OF that(3) _ that(1,2)]
    by (auto simp: keeps_tables_def journal_inv_def insert_job_def split: if_splits)
qed (auto simp: keeps_tables_def)

lemma keeps_tablesD:
  "keeps (keeps_tables E cfg) (\<lambda>_. True) m \<Longrightarrow> journal_inv E cfg (w_journal w) \<Longrightarrow>
   journal_inv E cfg (w_journal (snd (m w)))"
  using keepsD [of "keeps_tables E cfg" "\<lambda>_. True" m w] by (simp add: keeps_tables_def view_of_def)

text \<open>
  C17. Whatever Redis, the clients, the disk and the clock do, and wherever the process is cut off
  by a failure, the journal stays sound: keys are unique, every job belongs to a session and writes
  to its own spool path, there are at most 32 sessions and 128 jobs per session, and the retained
  request texts have at most 16777216 characters. This holds for a turn of the main loop and for
  recovery.
\<close>

theorem journal_safe:
  assumes "journal_inv E cfg (w_journal w)"
  shows "journal_inv E cfg (w_journal (snd (Run_turn E cfg H w))) \<and>
    journal_inv E cfg (w_journal (snd (Recover E w)))"
  using keeps_tablesD [OF tables.keeps_turn assms] keeps_tablesD [OF tables.keeps_Recover assms] by blast

definition empty_world :: "'r \<Rightarrow> 'b \<Rightarrow> ('r, 'b) world" where
  "empty_world r b = \<lparr>w_journal = empty_journal, w_disk = clean_disk, w_net = r, w_backend = b, w_future = Idle,
     w_active_sid = [], w_active_id = [], w_active_path = [], w_last_cleanup = 0, w_sql = 0,
     w_sql_fault = (\<lambda>_. False), w_reads = 0, w_clock = (\<lambda>n. int n), w_draws = 0,
     w_random = (\<lambda>n. replicate n (CHR 0x00))\<rparr>"

lemma empty_journal_inv: "journal_inv E cfg empty_journal"
  by (simp add: journal_inv_def empty_journal_def wf_journal_def journal_quota_def count_sessions_def
      count_jobs_def retained_length_def)

definition offline :: "unit hiredis" where
  "offline = \<lparr>h_live = (\<lambda>_. False), h_open = (\<lambda>r. r), h_timeout = (\<lambda>r. (False, r)), h_free = (\<lambda>r. r),
     h_send = (\<lambda>_ r. (None, r))\<rparr>"

definition sample_config :: config where
  "sample_config = \<lparr>c_prefix = ''vpp'', c_state = ''/s'', c_backend = ''mock'',
     c_clients = JObject [(''alice'', JString (replicate 32 (CHR ''k'')))], c_owner = ''o'',
     c_credentials = \<lparr>redis_password = None, redis_username = None\<rparr>\<rparr>"

theorem journal_safe_witness:
  "journal_inv sample_env sample_config
     (w_journal (snd (Run_turn sample_env sample_config offline (empty_world () (MakeMockBackend 2)))))"
proof -
  have "journal_inv sample_env sample_config (w_journal (empty_world () (MakeMockBackend 2)))"
    by (simp add: empty_world_def empty_journal_inv)
  from journal_safe [OF this] show ?thesis by blast
qed

subsection \<open>The life cycle of jobs\<close>

instantiation jstate :: linorder
begin

fun rank :: "jstate \<Rightarrow> nat" where
  "rank Queued = 0"
| "rank Running = 1"
| "rank Done = 2"

definition less_eq_jstate :: "jstate \<Rightarrow> jstate \<Rightarrow> bool" where
  "less_eq_jstate a b \<longleftrightarrow> rank a \<le> rank b"

definition less_jstate :: "jstate \<Rightarrow> jstate \<Rightarrow> bool" where
  "less_jstate a b \<longleftrightarrow> rank a < rank b"

instance
proof
  show "a = b" if "a \<le> b" "b \<le> a" for a b :: jstate
    using that by (cases a; cases b) (auto simp: less_eq_jstate_def)
qed (auto simp: less_eq_jstate_def less_jstate_def)

end

lemma jstate_bounds [simp]: "Queued \<le> st" "st \<le> Done" "\<not> Running \<le> Queued" "\<not> Done \<le> Running" "\<not> Done \<le> Queued"
  by (cases st; simp add: less_eq_jstate_def)+

definition sids :: "journal \<Rightarrow> string set" where
  "sids db = s_sid ` set (sessions db)"

definition drawn :: "nat \<Rightarrow> (nat \<Rightarrow> string) \<Rightarrow> string set" where
  "drawn n g = (\<lambda>k. Hex (g k)) ` {..<n}"

definition sound :: "view \<Rightarrow> bool" where
  "sound v = (case v of (db, n, g) \<Rightarrow> wf_journal db \<and> sids db \<subseteq> drawn n g)"

definition carried :: "job \<Rightarrow> journal \<Rightarrow> bool" where
  "carried r db \<longleftrightarrow> (\<exists>r' \<in> set (jobs db). job_key r' = job_key r \<and> j_body r' = j_body r \<and>
     j_path r' = j_path r \<and> j_state r \<le> j_state r')"

text \<open>
  As long as no random identifier repeats: every job stays in the table with its request and path,
  its state only moves from queued over running to done, or its session has been deleted; and a
  deleted session never returns.
\<close>

definition advance :: "view \<Rightarrow> view \<Rightarrow> bool" where
  "advance v v' = (case (v, v') of ((db, n, g), (db', n', g')) \<Rightarrow> n \<le> n' \<and> g' = g \<and>
     (inj_on (\<lambda>k. Hex (g k)) {..<n'} \<and> sound v \<longrightarrow> sound v' \<and>
       (\<forall>r \<in> set (jobs db). carried r db' \<or> j_sid r \<notin> sids db') \<and>
       (\<forall>sid \<in> drawn n g. sid \<notin> sids db \<longrightarrow> sid \<notin> sids db')))"

lemma carried_refl [simp]: "r \<in> set (jobs db) \<Longrightarrow> carried r db"
  by (auto simp: carried_def)

lemma drawn_mono: "n \<le> n' \<Longrightarrow> drawn n g \<subseteq> drawn n' g"
  by (auto simp: drawn_def)

lemma advance_same:
  assumes "wf_journal db \<Longrightarrow> wf_journal db'" and "sids db' = sids db"
    and "\<And>r. wf_journal db \<Longrightarrow> r \<in> set (jobs db) \<Longrightarrow> carried r db'"
  shows "advance (db, n, g) (db', n, g)"
  using assms by (auto simp: advance_def sound_def)

lemma job_unique: "wf_journal db \<Longrightarrow> r \<in> set (jobs db) \<Longrightarrow> r' \<in> set (jobs db) \<Longrightarrow> job_key r = job_key r' \<Longrightarrow> r = r'"
  by (auto simp: wf_journal_def distinct_map dest: inj_onD)

lemma advance_update_job:
  assumes "same_identity f"
    and "\<And>r. wf_journal db \<Longrightarrow> r \<in> set (jobs db) \<Longrightarrow> job_key r = (sid, rid) \<Longrightarrow> j_state r \<le> j_state (f r)"
  shows "advance (db, n, g) (update_job sid rid f db, n, g)"
proof (rule advance_same)
  fix r assume r: "wf_journal db" "r \<in> set (jobs db)"
  let ?r = "if j_sid r = sid \<and> j_id r = rid then f r else r"
  have "?r \<in> set (jobs (update_job sid rid f db))" using r(2) by (auto simp: update_job_def)
  moreover have "job_key ?r = job_key r" "j_body ?r = j_body r" "j_path ?r = j_path r" "j_state r \<le> j_state ?r"
    using assms(2) [OF r] assms(1) by (auto simp: same_identity_def)
  ultimately show "carried r (update_job sid rid f db)" unfolding carried_def by blast
next
  show "sids (update_job sid rid f db) = sids db" by (simp add: sids_def update_job_def)
qed (simp add: wf_update_job assms(1))

lemma advance_trans:
  assumes "advance u v" and "advance v x"
  shows "advance u x"
proof -
  obtain a n g b n' c n'' where eq: "u = (a, n, g)" "v = (b, n', g)" "x = (c, n'', g)" and le: "n \<le> n'" "n' \<le> n''"
    using assms by (auto simp: advance_def split: prod.splits)
  have "sound x \<and> (\<forall>r \<in> set (jobs a). carried r c \<or> j_sid r \<notin> sids c) \<and> (\<forall>sid \<in> drawn n g. sid \<notin> sids a \<longrightarrow> sid \<notin> sids c)"
    if inj: "inj_on (\<lambda>k. Hex (g k)) {..<n''}" and s: "sound u"
  proof -
    have inj': "inj_on (\<lambda>k. Hex (g k)) {..<n'}" using inj le(2) by (rule_tac inj_on_subset) auto
    have 1: "sound v" "\<forall>r \<in> set (jobs a). carried r b \<or> j_sid r \<notin> sids b" "\<forall>sid \<in> drawn n g. sid \<notin> sids a \<longrightarrow> sid \<notin> sids b"
      using assms(1) inj' s by (auto simp: advance_def eq)
    have 2: "sound x" "\<forall>r \<in> set (jobs b). carried r c \<or> j_sid r \<notin> sids c" "\<forall>sid \<in> drawn n' g. sid \<notin> sids b \<longrightarrow> sid \<notin> sids c"
      using assms(2) inj 1(1) by (auto simp: advance_def eq)
    have sub: "drawn n g \<subseteq> drawn n' g" by (rule drawn_mono [OF le(1)])
    have "carried r c \<or> j_sid r \<notin> sids c" if r: "r \<in> set (jobs a)" for r
    proof (cases "carried r b")
      case True
      then obtain r' where "r' \<in> set (jobs b)" "job_key r' = job_key r" "j_body r' = j_body r" "j_path r' = j_path r"
          "j_state r \<le> j_state r'" unfolding carried_def by blast
      then show ?thesis using 2(2) unfolding carried_def by (metis order_trans prod.inject)
    next
      case False
      have "j_sid r \<in> drawn n g" using s r by (auto simp: sound_def eq wf_journal_def sids_def)
      then show ?thesis using 1(2) 2(3) False r sub by blast
    qed
    then show ?thesis using 1(3) 2(1,3) sub by blast
  qed
  then show ?thesis using le by (simp add: advance_def eq)
qed

lemma advance_delete: "advance (db, n, g) (delete_session sid db, n, g)"
  by (auto simp: advance_def sound_def wf_delete_session)
    (auto simp: sids_def delete_session_def carried_def)

lemma first_queued_row: "first_queued db = r # rs \<Longrightarrow> r \<in> set (jobs db) \<and> j_state r = Queued"
  by (cases "filter (\<lambda>r. j_state r = Queued) (jobs db)") (auto simp: first_queued_def filter_eq_Cons_iff)

lemma advance_running:
  assumes "first_queued db = r # rs"
  shows "advance (db, n, g) (set_running (j_sid r) (j_id r) db, n, g)"
  unfolding set_running_def
proof (rule advance_update_job)
  fix r' assume "wf_journal db" "r' \<in> set (jobs db)" "job_key r' = (j_sid r, j_id r)"
  then have "r' = r" using job_unique first_queued_row [OF assms] by blast
  then show "j_state r' \<le> j_state (r'\<lparr>j_state := Running\<rparr>)" using first_queued_row [OF assms] by simp
qed simp

lemma drawn_Suc: "drawn (Suc n) g = insert (Hex (g n)) (drawn n g)"
  by (auto simp: drawn_def lessThan_Suc)

lemma advance_session:
  assumes s: "s_sid s = Hex (g n)" and i: "insert_session s db = Some db'"
  shows "advance (db, n, g) (db', Suc n, g)"
proof -
  have db': "db' = db\<lparr>sessions := sessions db @ [s]\<rparr>" using i by (simp add: insert_session_def split: if_splits)
  have "Hex (g n) \<notin> drawn n g" if "inj_on (\<lambda>k. Hex (g k)) {..<Suc n}"
    using that by (auto simp: drawn_def dest: inj_onD [of _ _ n])
  then show ?thesis
    using wf_insert_session [OF i] s
    by (auto simp: advance_def sound_def drawn_Suc) (auto simp: db' sids_def carried_def)
qed

lemma advance_job:
  assumes "insert_job sid rid body p t db = Some db'"
  shows "advance (db, n, g) (db', n, g)"
proof (rule advance_same)
  show "sids db' = sids db" using assms by (auto simp: insert_job_def sids_def split: if_splits)
  show "carried r db'" if "r \<in> set (jobs db)" for r
    using assms that by (auto simp: insert_job_def carried_def split: if_splits)
qed (use wf_insert_job [OF assms] in blast)

interpretation lifecycle: journal_relation advance E cfg for E cfg
proof
  fix db n g sz ofs t sid rid
  show "advance (db, n, g) (set_done sz sid rid db, n, g)" "advance (db, n, g) (set_offset ofs sid rid db, n, g)"
    by (auto simp: statement_defs intro!: advance_update_job)
  show "advance (db, n, g) (set_expires t sid db, n, g)"
    using set_expires_map [of t sid db]
    by (intro advance_same) (auto simp: sql_simps sids_def carried_def simp flip: set_map)
  show "advance (db, n, g) (db, Suc n, g)"
    by (auto simp: advance_def sound_def drawn_Suc)
next
  show "advance v v" for v by (auto simp: advance_def split: prod.splits)
qed (rule advance_trans advance_delete advance_running advance_session advance_job; assumption)+

lemma advance_turn: "advance (view_of w) (view_of (snd (Run_turn E cfg H w)))"
  by (rule keepsD [OF lifecycle.keeps_turn]) simp

lemma advance_Complete: "advance (view_of w) (view_of (snd (CompleteWorker w)))"
  by (rule keepsD [OF lifecycle.keeps_CompleteWorker]) simp

lemma advance_Recover: "advance (view_of w) (view_of (snd (Recover E w)))"
  by (rule keepsD [OF lifecycle.keeps_Recover]) simp


definition queued_world :: "(unit, mock) world" where
  "queued_world = (empty_world () (MakeMockBackend 2))\<lparr>w_draws := 1, w_journal := \<lparr>
     sessions = [\<lparr>s_sid = [], s_client = ''alice'', s_registration = ''r'', s_expires = 100\<rparr>],
     jobs = [\<lparr>j_sid = [], j_id = ''a'', j_body = ''{}'', j_state = Queued, j_path = ''p'', j_offset = 0,
              j_size = 0, j_expires = 100\<rparr>]\<rparr>\<rparr>"

lemma queued_world_sound: "sound (view_of queued_world)"
  by (simp add: sound_def view_of_def queued_world_def empty_world_def wf_journal_def sids_def drawn_def Hex_def)


subsection \<open>Runs of the gateway\<close>

text \<open>
  A gateway process is up or down. While it is up, turns of the main loop and executions by the
  worker thread, which also polls the backend, interleave; it goes down when a turn ends it, when it is
  killed at any moment or when it is stopped, which waits for the worker, and comes back by recovery,
  which may fail too. Redis and its clients act at any time.
\<close>

datatype event = Turned | Executed string string | Polled | Completed | Crashed | Stopped | Restarted | Outside

definition reborn :: "'b \<Rightarrow> ('r, 'b) world \<Rightarrow> ('r, 'b) world" where
  "reborn b w = w\<lparr>w_future := Idle, w_active_sid := [], w_active_id := [], w_active_path := [],
     w_last_cleanup := 0, w_backend := b\<rparr>"

inductive step ::
  "env \<Rightarrow> config \<Rightarrow> 'r hiredis \<Rightarrow> 'b backend \<Rightarrow> 'b \<Rightarrow> bool \<times> ('r, 'b) world \<Rightarrow> event \<Rightarrow> bool \<times> ('r, 'b) world \<Rightarrow> bool"
  for E cfg H B b where
  turn: "Run_turn E cfg H w = (Some (), w') \<Longrightarrow> step E cfg H B b (True, w) Turned (True, w')"
| stop: "Run_turn E cfg H w = (None, w') \<Longrightarrow> step E cfg H B b (True, w) Crashed (False, w')"
| work: "w_future w = Submitted request p n \<Longrightarrow>
    step E cfg H B b (True, w) (Executed (w_active_sid w) (w_active_id w)) (True, worker_step E B w)"
| poll: "step E cfg H B b (True, w) Polled (True, w\<lparr>w_backend := b_Poll B (w_backend w)\<rparr>)"
| complete: "CompleteWorker w = (Some (), w') \<Longrightarrow> step E cfg H B b (True, w) Completed (True, w')"
| complete_fails: "CompleteWorker w = (None, w') \<Longrightarrow> step E cfg H B b (True, w) Crashed (False, w')"
| halt: "step E cfg H B b (True, w) Stopped (False, w)"
| kill: "step E cfg H B b (True, w) Crashed (False, w)"
| boot: "Recover E (reborn b w) = (Some (), w') \<Longrightarrow> step E cfg H B b (False, w) Restarted (True, w')"
| boot_fails: "Recover E (reborn b w) = (None, w') \<Longrightarrow> step E cfg H B b (False, w) Crashed (False, w')"
| outside: "step E cfg H B b (up, w) Outside (up, w\<lparr>w_net := r\<rparr>)"

inductive run ::
  "env \<Rightarrow> config \<Rightarrow> 'r hiredis \<Rightarrow> 'b backend \<Rightarrow> 'b \<Rightarrow> bool \<times> ('r, 'b) world \<Rightarrow> event list \<Rightarrow> bool \<times> ('r, 'b) world \<Rightarrow> bool"
  for E cfg H B b s where
  start: "run E cfg H B b s [] s"
| more: "run E cfg H B b s es t \<Longrightarrow> step E cfg H B b t e u \<Longrightarrow> run E cfg H B b s (es @ [e]) u"

fun executed :: "event list \<Rightarrow> (string \<times> string) list" where
  "executed [] = []"
| "executed (Executed sid rid # es) = (sid, rid) # executed es"
| "executed (_ # es) = executed es"

lemma executed_append [simp]: "executed (xs @ ys) = executed xs @ executed ys"
  by (induction xs rule: executed.induct) auto

inductive_cases step_upE: "step E cfg H B b (True, w) e u"
inductive_cases step_downE: "step E cfg H B b (False, w) e u"

subsection \<open>At most one execution\<close>

definition settled :: "string \<times> string \<Rightarrow> view \<Rightarrow> bool" where
  "settled key v = (case v of (db, n, g) \<Rightarrow> fst key \<in> drawn n g \<and>
     (fst key \<notin> sids db \<or> (\<exists>r \<in> set (jobs db). job_key r = key \<and> j_state r \<noteq> Queued)))"

lemma settled_advance:
  assumes "advance v v'" and "inj_on (\<lambda>k. Hex (snd (snd v') k)) {..<fst (snd v')}" and "sound v" and "settled key v"
  shows "settled key v'"
proof -
  obtain db n g db' n' where eq: "v = (db, n, g)" "v' = (db', n', g)" and le: "n \<le> n'"
    using assms(1) by (auto simp: advance_def split: prod.splits)
  have a: "\<forall>r \<in> set (jobs db). carried r db' \<or> j_sid r \<notin> sids db'" "\<forall>sid \<in> drawn n g. sid \<notin> sids db \<longrightarrow> sid \<notin> sids db'"
    using assms(1-3) by (auto simp: advance_def eq)
  have k: "fst key \<in> drawn n g" "fst key \<in> drawn n' g" using assms(4) drawn_mono [OF le] by (auto simp: settled_def eq)
  show ?thesis
  proof (cases "fst key \<in> sids db")
    case False
    then show ?thesis using a(2) k by (auto simp: settled_def eq)
  next
    case True
    then obtain r where r: "r \<in> set (jobs db)" "job_key r = key" "j_state r \<noteq> Queued"
      using assms(4) by (auto simp: settled_def eq)
    from a(1) r(1) consider "carried r db'" | "j_sid r \<notin> sids db'" by blast
    then show ?thesis
    proof cases
      case 1
      then obtain r' where r': "r' \<in> set (jobs db')" "job_key r' = job_key r" "j_state r \<le> j_state r'" by (auto simp: carried_def)
      then have "j_state r' \<noteq> Queued" using r(3) by (cases "j_state r") auto
      then show ?thesis using r' r(2) k by (auto simp: settled_def eq)
    next
      case 2
      then show ?thesis using r(2) k by (auto simp: settled_def eq)
    qed
  qed
qed

lemma settled_not_queued:
  assumes "sound (db, n, g)" and "settled (job_key r) (db, n, g)" and "r \<in> set (jobs db)"
  shows "j_state r \<noteq> Queued"
proof -
  have wf: "wf_journal db" using assms(1) by (simp add: sound_def)
  then have "j_sid r \<in> sids db" using assms(3) by (auto simp: wf_journal_def sids_def)
  then obtain r' where "r' \<in> set (jobs db)" "job_key r' = job_key r" "j_state r' \<noteq> Queued"
    using assms(2) by (auto simp: settled_def)
  then show ?thesis using job_unique [OF wf _ assms(3)] by blast
qed

text \<open>Relations on worlds that are kept by sequences of actions.\<close>

definition related :: "(('r, 'b) world \<Rightarrow> ('r, 'b) world \<Rightarrow> bool) \<Rightarrow> ('r, 'b, 'a) act \<Rightarrow> bool" where
  "related R m \<longleftrightarrow> (\<forall>w. R w (snd (m w)))"

lemma related_seq:
  assumes "\<And>u v x. R u v \<Longrightarrow> R v x \<Longrightarrow> R u x" and "related R m" and "\<And>x. related R (f x)"
  shows "related R (seq_act m f)"
  unfolding related_def
proof
  fix w
  obtain r w' where m: "m w = (r, w')" by force
  have "R w w'" using assms(2) m unfolding related_def by (metis snd_conv)
  moreover have "R w' (snd (f x w'))" for x using assms(3) unfolding related_def by blast
  ultimately show "R w (snd (seq_act m f w))" using assms(1) by (cases r) (auto simp: seq_act_def m)
qed

lemma related_cases:
  "related R m \<Longrightarrow> related R n \<Longrightarrow> related R (if c then m else n)"
  "(\<And>a b. related R (g a b)) \<Longrightarrow> related R (case z of (a, b) \<Rightarrow> g a b)"
  by (auto split: prod.splits)

definition active_key :: "('r, 'b) world \<Rightarrow> string \<times> string" where
  "active_key w = (w_active_sid w, w_active_id w)"

definition hands_over :: "job \<Rightarrow> ('r, 'b) world \<Rightarrow> ('r, 'b) world \<Rightarrow> bool" where
  "hands_over row w w' \<longleftrightarrow> worker_of w' = worker_of w \<or> active_key w' = job_key row"

lemma hands_over_trans: "hands_over row u v \<Longrightarrow> hands_over row v x \<Longrightarrow> hands_over row u x"
  by (auto simp: hands_over_def worker_of_def active_key_def)

lemma related_steady: "steady m \<Longrightarrow> related (hands_over row) m"
  by (simp add: related_def fixed_def hands_over_def)

lemma steady_MarkDone [quiet_rules]: "steady (MarkDone sid rid p)"
  unfolding MarkDone_def by (intro quiet_rules)

lemma steady_immediate [quiet_rules]: "steady (immediate_result E cfg sid st method params)"
  unfolding immediate_result_def by (intro quiet_rules)

lemma related_submit: "related (hands_over row) (submit (j_sid row) (j_id row) p request n)"
  by (simp add: related_def hands_over_def submit_def active_key_def)

lemma run_job_hands_over: "related (hands_over row) (run_job E cfg row)"
proof -
  note rseq = related_seq [where R = "hands_over row", OF hands_over_trans]
  have final: "related (hands_over row) (case immediate of
          Some (st, result) \<Rightarrow>
            seq_act (on_disk (write_single E (j_path row) (j_id row)
                       (if st_ok st then jresult (j_id row) result else jerror (j_id row) st))) (\<lambda>written.
              if \<not> st_ok written then Fail else MarkDone (j_sid row) (j_id row) (j_path row))
        | None \<Rightarrow>
            seq_act (query used_bytes) (\<lambda>used.
            seq_act (query (session_used (j_sid row))) (\<lambda>s_used.
              submit (j_sid row) (j_id row) (j_path row) request
                (min (256 * 1024 * 1024 - int used) (64 * 1024 * 1024 - int s_used)))))" for immediate request
  proof (cases immediate)
    case None
    show ?thesis unfolding None option.case
      by (intro rseq related_submit) (auto intro!: related_steady quiet_rules)
  next
    case (Some a)
    then show ?thesis by (cases a) (auto intro!: related_steady quiet_rules)
  qed
  show ?thesis
    unfolding run_job_def Let_def
    by (intro related_cases rseq final) (auto intro!: related_steady quiet_rules)
qed

lemma StartJob_submits:
  assumes st: "StartJob E cfg w = (Some (), w')" and f: "w_future w' = Submitted rq p k"
    and inj: "inj_on (\<lambda>k. Hex (w_random w' k)) {..<w_draws w'}" and s: "sound (view_of w)"
  shows "w' = w \<or> (\<exists>r \<in> set (jobs (w_journal w)). j_state r = Queued \<and> active_key w' = job_key r \<and>
    settled (active_key w') (view_of w'))"
proof (cases "w_future w = Idle")
  case False
  then show ?thesis using st by (simp add: StartJob_def)
next
  case idle: True
  let ?w1 = "w\<lparr>w_sql := Suc (w_sql w)\<rparr>"
  have ok: "\<not> sql_fails w" using st idle by (auto simp: StartJob_def seq_act_def query_def)
  show ?thesis
  proof (cases "first_queued (w_journal w)")
    case Nil
    then have "w' = ?w1" using st idle ok by (simp add: StartJob_def seq_act_def query_def return_act_def)
    then show ?thesis using f idle by simp
  next
    case (Cons r rs)
    note row = first_queued_row [OF Cons]
    let ?w2 = "?w1\<lparr>w_journal := set_running (j_sid r) (j_id r) (w_journal w), w_sql := Suc (Suc (w_sql w))\<rparr>"
    have "run_job E cfg r ?w2 = (Some (), w')"
      using st idle ok Cons by (auto simp: StartJob_def seq_act_def query_def update_def split: if_splits)
    then have run: "w' = snd (run_job E cfg r ?w2)" by simp
    have adv: "advance (view_of w) (view_of ?w2)" using advance_running [OF Cons] by (simp add: view_of_def)
    have adv': "advance (view_of ?w2) (view_of w')"
      unfolding run by (rule keepsD [OF lifecycle.keeps_run_job, where P = "\<lambda>_. True"]) simp
    have "w_draws w \<le> w_draws w'" "w_random w' = w_random w"
      using advance_trans [OF adv adv'] by (auto simp: advance_def view_of_def)
    then have "inj_on (\<lambda>k. Hex (w_random w k)) {..<w_draws w}" using inj by (auto intro: inj_on_subset)
    then have s2: "sound (view_of ?w2)" using adv s by (auto simp: advance_def view_of_def)
    have "r\<lparr>j_state := Running\<rparr> \<in> set (jobs (set_running (j_sid r) (j_id r) (w_journal w)))"
      using row by (force simp: set_running_def update_job_def)
    then have "\<exists>x \<in> set (jobs (set_running (j_sid r) (j_id r) (w_journal w))). job_key x = job_key r \<and> j_state x \<noteq> Queued"
      by (rule rev_bexI) simp
    moreover have "j_sid r \<in> drawn (w_draws w) (w_random w)"
      using s row by (auto simp: sound_def view_of_def wf_journal_def sids_def)
    ultimately have "settled (job_key r) (view_of ?w2)" by (simp add: settled_def view_of_def)
    then have set: "settled (job_key r) (view_of w')"
      using settled_advance [OF adv' _ s2] inj by (simp add: view_of_def)
    have "hands_over r ?w2 w'" using run_job_hands_over unfolding run related_def by blast
    moreover have "worker_of w' \<noteq> worker_of ?w2" using f idle by (simp add: worker_of_def)
    ultimately have "active_key w' = job_key r" by (simp add: hands_over_def)
    then show ?thesis using row set by auto
  qed
qed

definition drains :: "('r, 'b) world \<Rightarrow> ('r, 'b) world \<Rightarrow> bool" where
  "drains w w' \<longleftrightarrow> w_future w' = Idle \<or> worker_of w' = worker_of w"

lemma drains_trans: "drains u v \<Longrightarrow> drains v x \<Longrightarrow> drains u x"
  by (auto simp: drains_def worker_of_def)

lemma drains_steady: "steady m \<Longrightarrow> related drains m"
  by (simp add: related_def fixed_def drains_def)

lemma steady_open_session [quiet_rules]: "steady (open_session cfg client rid)"
  unfolding open_session_def by (intro quiet_rules)

lemma steady_Register [quiet_rules]: "steady (Register E cfg H)"
  unfolding Register_def register_reply_def Let_def by (intro quiet_rules)

lemma steady_admit [quiet_rules]: "steady (admit E cfg sid rid request body)"
  unfolding admit_def Let_def by (intro quiet_rules)

lemma steady_Receive [quiet_rules]: "steady (Receive E cfg H sid client)"
  unfolding Receive_def Let_def by (intro quiet_rules)

lemma steady_Deliver [quiet_rules]: "steady (Deliver cfg H)"
  unfolding Deliver_def deliver_session_def by (intro quiet_rules)

lemma steady_Cleanup [quiet_rules]: "steady (Cleanup E cfg H)"
  unfolding Cleanup_def expire_session_def [abs_def] by (intro quiet_rules)

lemma steady_periodic [quiet_rules]: "steady (periodic_cleanup E cfg H)"
  unfolding periodic_cleanup_def by (intro quiet_rules) (simp add: fixed_def worker_of_def)

lemma steady_Recover [quiet_rules]: "steady (Recover E)"
  unfolding Recover_def recover_job_def by (intro quiet_rules)

lemma drains_Complete: "related drains CompleteWorker"
  unfolding related_def
proof
  fix w :: "('r, 'b) world"
  have m: "worker_of (snd (MarkDone sid rid p v)) = worker_of v" for sid rid p and v :: "('r, 'b) world"
    using steady_MarkDone unfolding fixed_def by blast
  have "w_future (snd (seq_act (MarkDone sid rid p) (\<lambda>_. clear_active) v)) = w_future v" for sid rid p and v :: "('r, 'b) world"
    using m [of sid rid p v]
    by (cases "MarkDone sid rid p v") (auto simp: seq_act_def clear_active_def worker_of_def split: option.splits)
  then show "drains w (snd (CompleteWorker w))"
    by (auto simp: CompleteWorker_def drains_def Let_def split: future.splits option.splits)
qed

lemma steady_rest [quiet_rules]: "steady (turn_rest E cfg H)"
  unfolding turn_rest_def by (intro quiet_rules)

lemma drains_head: "related drains (turn_head E cfg H)"
  unfolding turn_head_def
  by (rule related_seq [where R = drains, OF drains_trans drains_Complete drains_steady [OF steady_rest]])

lemma advance_head: "advance (view_of w) (view_of (snd (turn_head E cfg H w)))"
  by (rule keepsD [OF lifecycle.keeps_head]) simp

text \<open>What holds between events, for the jobs \<open>X\<close> executed so far.\<close>

definition once_inv :: "(string \<times> string) set \<Rightarrow> bool \<times> ('r, 'b) world \<Rightarrow> bool" where
  "once_inv X s = (case s of (up, w) \<Rightarrow> sound (view_of w) \<and> (\<forall>key \<in> X. settled key (view_of w)) \<and>
     (up \<longrightarrow> (\<forall>rq p n. w_future w = Submitted rq p n \<longrightarrow> settled (active_key w) (view_of w) \<and> active_key w \<notin> X)))"

abbreviation distinct_draws :: "('r, 'b) world \<Rightarrow> bool" where
  "distinct_draws w \<equiv> inj_on (\<lambda>k. Hex (w_random w k)) {..<w_draws w}"

lemma advance_inv:
  assumes "advance (view_of w) (view_of w')" and "distinct_draws w'" and "sound (view_of w)"
  shows "sound (view_of w')" and "settled key (view_of w) \<Longrightarrow> settled key (view_of w')" and "distinct_draws w"
proof -
  show "sound (view_of w')" using assms by (auto simp: advance_def view_of_def)
  show "settled key (view_of w) \<Longrightarrow> settled key (view_of w')"
    using settled_advance [OF assms(1) _ assms(3)] assms(2) by (simp add: view_of_def)
  show "distinct_draws w"
    using assms(1,2) by (auto simp: advance_def view_of_def intro: inj_on_subset)
qed

lemma once_turn:
  assumes inv: "once_inv X (True, w)" and t: "Run_turn E cfg H w = (Some (), w')" and inj: "distinct_draws w'"
  shows "once_inv X (True, w')"
proof -
  have s: "sound (view_of w)" "\<And>key. key \<in> X \<Longrightarrow> settled key (view_of w)" using inv by (auto simp: once_inv_def)
  obtain go w1 where h: "turn_head E cfg H w = (Some go, w1)" and tail: "(if go then StartJob E cfg else return_act ()) w1 = (Some (), w')"
    using t unfolding turn_split seq_act_def by (auto split: prod.splits option.splits)
  have a1: "advance (view_of w) (view_of w1)" using advance_head [of w E cfg H] h by simp
  have a2: "advance (view_of w1) (view_of w')"
  proof -
    have "keeps advance (\<lambda>_. True) (if go then StartJob E cfg else return_act ())"
      by (auto intro!: lifecycle.keeps_StartJob lifecycle.keeps_quiet quiet_rules)
    from keepsD [OF this, of w1] show ?thesis using tail by simp
  qed
  have a: "advance (view_of w) (view_of w')" by (rule advance_trans [OF a1 a2])
  have inj1: "distinct_draws w1" using a2 inj by (auto simp: advance_def view_of_def intro: inj_on_subset)
  note s1 = advance_inv [OF a1 inj1 s(1)]
  have "settled (active_key w') (view_of w') \<and> active_key w' \<notin> X" if f: "w_future w' = Submitted rq p n" for rq p n
  proof (cases "w' = w1")
    case True
    then have "worker_of w' = worker_of w" using drains_head [of E cfg H] h f unfolding related_def drains_def
      by (metis future.distinct(1) snd_conv)
    then have "w_future w = Submitted rq p n" "active_key w' = active_key w" using f by (auto simp: worker_of_def active_key_def)
    then show ?thesis using inv advance_inv(2) [OF a inj s(1)] by (auto simp: once_inv_def)
  next
    case False
    then have st: "StartJob E cfg w1 = (Some (), w')" using tail by (auto simp: return_act_def split: if_splits)
    obtain r where r: "r \<in> set (jobs (w_journal w1))" "j_state r = Queued" "active_key w' = job_key r"
        "settled (active_key w') (view_of w')"
      using StartJob_submits [OF st f inj s1(1)] False by blast
    have "job_key r \<notin> X"
      using settled_not_queued [of "w_journal w1" "w_draws w1" "w_random w1" r] s1 s(2) r(1,2) by (auto simp: view_of_def)
    then show ?thesis using r by simp
  qed
  then show ?thesis using advance_inv [OF a inj s(1)] s(2) by (auto simp: once_inv_def)
qed

lemma view_of_worker: "view_of (worker_step E B w) = view_of w"
  by (simp add: worker_step_def view_of_def split: future.splits option.splits prod.splits)

lemma advance_draws: "advance (view_of w) (view_of w') \<Longrightarrow> distinct_draws w' \<Longrightarrow> distinct_draws w"
  by (auto simp: advance_def view_of_def intro: inj_on_subset)

lemma step_advance: "step E cfg H B b s e t \<Longrightarrow> advance (view_of (snd s)) (view_of (snd t))"
proof (induction rule: step.induct)
  case (boot w w')
  then show ?case using advance_Recover [of "reborn b w" E] by (simp add: reborn_def view_of_def)
next
  case (boot_fails w w')
  then show ?case using advance_Recover [of "reborn b w" E] by (simp add: reborn_def view_of_def)
next
  case (turn w w')
  then show ?case using advance_turn [of w E cfg H] by simp
next
  case (stop w w')
  then show ?case using advance_turn [of w E cfg H] by simp
next
  case (complete w w')
  then show ?case using advance_Complete [of w] by simp
next
  case (complete_fails w w')
  then show ?case using advance_Complete [of w] by simp
qed (simp_all add: view_of_worker lifecycle.J_refl)

lemma once_step:
  assumes "step E cfg H B b s e t" and "once_inv X s" and "distinct_draws (snd t)"
  shows "once_inv (X \<union> set (executed [e])) t \<and> set (executed [e]) \<inter> X = {}"
  using assms(1)
proof cases
  case (turn w w')
  have "advance (view_of w) (view_of w')" using advance_turn [of w E cfg H] turn by simp
  then show ?thesis using once_turn [OF _ turn(4), of X] turn assms(2,3) advance_inv(3)
    by (auto simp: once_inv_def)
next
  case (stop w w')
  have "advance (view_of w) (view_of w')" using advance_turn [of w E cfg H] stop by simp
  from advance_inv [OF this] show ?thesis using stop assms(2,3) by (auto simp: once_inv_def)
next
  case (work w request p n)
  have "w_future (worker_step E B w) \<noteq> Submitted rq q k" for rq q k
    using work(4) by (auto simp: worker_step_def split: option.splits prod.splits)
  moreover have "w_draws (worker_step E B w) = w_draws w" "w_random (worker_step E B w) = w_random w"
    using view_of_worker [of E B w] by (simp_all add: view_of_def)
  ultimately show ?thesis using work assms(2,3) by (auto simp: once_inv_def view_of_worker active_key_def)
next
  case (complete w w')
  have a: "advance (view_of w) (view_of w')" using advance_Complete [of w] complete by simp
  have "drains w w'" using drains_Complete complete(4) unfolding related_def by (metis snd_conv)
  with advance_inv [OF a] show ?thesis using complete assms(2,3)
    by (auto simp: once_inv_def drains_def worker_of_def active_key_def)
next
  case (complete_fails w w')
  have "advance (view_of w) (view_of w')" using advance_Complete [of w] complete_fails by simp
  from advance_inv [OF this] show ?thesis using complete_fails assms(2,3) by (auto simp: once_inv_def)
next
  case (halt w)
  then show ?thesis using assms(2,3) by (simp add: once_inv_def)
next
  case (poll w)
  then show ?thesis using assms(2,3) by (auto simp: once_inv_def active_key_def)
next
  case (kill w)
  then show ?thesis using assms(2,3) by (simp add: once_inv_def)
next
  case (boot w w')
  have v: "view_of (reborn b w) = view_of w" by (simp add: reborn_def view_of_def)
  have "advance (view_of w) (view_of w')" using advance_Recover [of "reborn b w" E] boot v by simp
  note a = advance_inv [OF this]
  have "worker_of w' = worker_of (reborn b w)" using steady_Recover [of E] boot unfolding fixed_def by (metis snd_conv)
  then have "w_future w' = Idle" by (simp add: worker_of_def reborn_def)
  then show ?thesis using boot a assms(2,3) by (auto simp: once_inv_def)
next
  case (boot_fails w w')
  have v: "view_of (reborn b w) = view_of w" by (simp add: reborn_def view_of_def)
  have "advance (view_of w) (view_of w')" using advance_Recover [of "reborn b w" E] boot_fails v by simp
  from advance_inv [OF this] show ?thesis using boot_fails assms(2,3) by (auto simp: once_inv_def)
next
  case (outside up w r)
  then show ?thesis using assms(2,3) by (auto simp: once_inv_def active_key_def)
qed

lemma once_run:
  assumes "run E cfg H B b s es t" and "once_inv {} s" and "distinct_draws (snd t)"
  shows "once_inv (set (executed es)) t \<and> distinct (executed es)"
  using assms
proof (induction rule: run.induct)
  case start
  then show ?case by simp
next
  case (more es t e u)
  let ?X = "set (executed es)"
  have "distinct_draws (snd t)" using advance_draws [OF step_advance [OF more.hyps(2)] more.prems(2)] .
  moreover have "distinct (executed [e])" by (cases e) simp_all
  ultimately show ?case using once_step [OF more.hyps(2), of ?X] more by auto
qed


definition exec_env :: env where
  "exec_env = sample_env\<lparr>parse := (\<lambda>_. list_request ''a'')\<rparr>"

definition online :: "unit hiredis" where
  "online = \<lparr>h_live = (\<lambda>_. True), h_open = (\<lambda>r. r), h_timeout = (\<lambda>r. (True, r)), h_free = (\<lambda>r. r),
     h_send = (\<lambda>args r. (if hd args = ''EVAL'' then Some (RInteger 1) else None, r))\<rparr>"

lemmas act_eval = seq_act_def query_def update_def on_net_def on_disk_def Now_def return_act_def sql_fails_def
  throw_none_def empty_world_def

lemma exec_boot:
  "Recover exec_env (reborn (MakeMockBackend 2) queued_world) =
     (Some (), (reborn (MakeMockBackend 2) queued_world)\<lparr>w_sql := 1\<rparr>)"
  by (simp add: Recover_def reborn_def queued_world_def act_eval started_jobs_def)

lemma unit_net: "w\<lparr>w_net := r\<rparr> = w" for w :: "(unit, 'b) world"
  by (cases w) simp

lemma online_net:
  "Connect online cred () = (True, ())" "ReadFirst online key () = (None, ())"
  "Command online (''EVAL'' # args) () = (Some (RInteger 1), ())"
  by (simp_all add: Connect_def online_def ReadFirst_def Command_def first_entry_def)

lemma online_acts:
  "on_net (Connect online cred) w = (Some True, w)"
  "Register E cfg online w = (Some (), w)"
  "Receive E cfg online sid client w = (Some (), w)"
  "OwnNamespace cfg online w = (Some True, w)"
  "for_each (\<lambda>s. Receive E cfg online (s_sid s) (s_client s)) xs w = (Some (), w)"
proof -
  show r: "Receive E cfg online sid client w = (Some (), w)" for sid client w
    by (simp add: Receive_def Let_def seq_act_def on_net_def online_net return_act_def unit_net)
  show "for_each (\<lambda>s. Receive E cfg online (s_sid s) (s_client s)) xs w = (Some (), w)"
    by (induction xs) (simp_all add: return_act_def seq_act_def r)
qed (simp_all add: Register_def OwnNamespace_def seq_act_def on_net_def online_net return_act_def unit_net Let_def)

lemma exec_turn:
  "\<exists>w' rq p n. Run_turn exec_env sample_config online ((reborn (MakeMockBackend 2) queued_world)\<lparr>w_sql := 1\<rparr>) = (Some (), w') \<and>
     w_future w' = Submitted rq p n \<and> active_key w' = ([], ''a'') \<and> w_draws w' = 1"
  unfolding Run_turn_def seq_act_def [of CompleteWorker] seq_act_def [of "on_net _"] seq_act_def [of "OwnNamespace _ _"]
    seq_act_def [of "Register _ _ _"] seq_act_def [of "for_each _ _"] online_acts
  by (simp add: CompleteWorker_def periodic_cleanup_def Cleanup_def Expire_def ListFiles_def
        Deliver_def deliver_session_def StartJob_def run_job_def resolve_params_def
        immediate_result_def submit_def act_eval reborn_def queued_world_def clean_disk_def next_call_def sys_ok_def
        expired_sessions_def live_sessions_def deliverable_jobs_def first_queued_def set_running_def update_job_def
        exec_env_def list_request_def contains_def jat_def jvalue_def active_key_def online_acts Let_def)


end
