(* ===== verification/Server_Delivery.thy ===== *)
theory Server_Delivery
  imports Server_Lifecycle
begin

text \<open>
  Delivery of responses, recovery after a crash, and registration: what the handlers of the server do
  to one job or one session.
\<close>

subsection \<open>Delivery\<close>

text \<open>Documented behaviour of the JSON printer without indentation: the text is one line.\<close>

definition one_line :: "env \<Rightarrow> bool" where
  "one_line E \<longleftrightarrow> (\<forall>j. CHR 10 \<notin> set (dump_r E j))"

lemma read_line_frame:
  assumes "one_line E" and "content d p = Some (frames_text E fs)" and "k < length fs"
  shows "read_line d p (length (frames_text E (take k fs))) = Some (dump_r E (fs ! k))"
proof -
  have split: "frames_text E fs = frames_text E (take k fs) @ frame_line E (fs ! k) @ frames_text E (drop (Suc k) fs)"
    using id_take_nth_drop [OF assms(3)] by (metis append_Cons append_Nil frames_text_single frames_text_snoc)
  have "CHR 10 \<notin> set (dump_r E (fs ! k))" using assms(1) by (simp add: one_line_def)
  then have "takeWhile (\<lambda>c. c \<noteq> CHR 10) (frame_line E (fs ! k) @ rest) = dump_r E (fs ! k)" for rest
    by (simp add: frame_line_def newline_def takeWhile_append2 takeWhile_tail) (metis takeWhile_append2 append_Nil2 takeWhile.simps(2))
  then show ?thesis using assms(2) by (simp add: read_line_def split frame_line_def newline_def)
qed

lemma frame_line_length: "length (frame_line E f) = length (dump_r E f) + 1"
  by (simp add: frame_line_def newline_def)

lemma frames_text_Suc:
  "k < length fs \<Longrightarrow> length (frames_text E (take (Suc k) fs)) = length (frames_text E (take k fs)) + length (dump_r E (fs ! k)) + 1"
  by (simp add: take_Suc_conv_app_nth frame_line_length)

lemma frames_text_take_less:
  assumes "length (frames_text E (take k fs)) < length (frames_text E fs)"
  shows "k < length fs"
  using assms by (metis not_le_imp_less order_less_irrefl take_all)

text \<open>
  C20. Responses are delivered frame by frame. When \<open>k\<close> frames of the first unfinished response of a
  session have been delivered, a turn publishes exactly frame \<open>k\<close> and moves the stored offset to the
  start of frame \<open>k + 1\<close> if Redis confirmed it, and changes nothing in the journal otherwise; so a
  full window or a lost connection delays frames but never skips or reorders them. If the journal
  fails, the process ends with the old offset and the frame is sent again.
\<close>

theorem deliver_in_order:
  assumes "one_line E" and "deliverable_jobs (s_sid s) (w_journal w) = [row]"
    and "content (w_disk w) (j_path row) = Some (frames_text E fs)" and "j_size row = length (frames_text E fs)"
    and "j_offset row = length (frames_text E (take k fs))" and "deliver_session cfg H s w = (res, w')"
  shows "k < length fs \<and>
    (w_journal w' = w_journal w \<or>
     w_journal w' = set_offset (length (frames_text E (take (Suc k) fs))) (s_sid s) (j_id row) (w_journal w) \<and>
     fst (Publish H (SessionKey cfg (s_client s) (s_sid s) ''responses'') (dump_r E (fs ! k)) (w_net w))) \<and>
    (w_net w' = w_net w \<and> res = None \<or>
     w_net w' = snd (Publish H (SessionKey cfg (s_client s) (s_sid s) ''responses'') (dump_r E (fs ! k)) (w_net w))) \<and>
    (res = Some () \<and> fst (Publish H (SessionKey cfg (s_client s) (s_sid s) ''responses'') (dump_r E (fs ! k)) (w_net w)) \<longrightarrow>
     w_journal w' = set_offset (length (frames_text E (take (Suc k) fs))) (s_sid s) (j_id row) (w_journal w))"
proof -
  have "row \<in> set (deliverable_jobs (s_sid s) (w_journal w))" using assms(2) by simp
  then have "j_offset row < j_size row" unfolding deliverable_jobs_def by (auto dest!: in_set_takeD)
  then have k: "k < length fs" using assms(4,5) frames_text_take_less by simp
  obtain pub r where p: "Publish H (SessionKey cfg (s_client s) (s_sid s) ''responses'') (dump_r E (fs ! k)) (w_net w) = (pub, r)"
    by force
  have line: "read_line (w_disk w) (j_path row) (j_offset row) = Some (dump_r E (fs ! k))"
    using read_line_frame [OF assms(1,3) k] assms(5) by simp
  have ofs: "Suc (j_offset row + length (dump_r E (fs ! k))) = length (frames_text E (take (Suc k) fs))"
    using frames_text_Suc [OF k] assms(5) by simp
  show ?thesis
    using assms(6) k p ofs line assms(2)
    by (auto simp: deliver_session_def seq_act_def query_def on_disk_def on_net_def update_def return_act_def sql_fails_def
        split: if_splits)
qed

definition flat_env :: env where
  "flat_env = sample_env\<lparr>dump_r := (\<lambda>j. filter (\<lambda>c. c \<noteq> CHR 10) (show_json j))\<rparr>"

definition done_world :: "(unit, mock) world" where
  "done_world = queued_world\<lparr>w_disk := clean_disk\<lparr>files := [(''p'', frames_text flat_env [JNull, JNull])]\<rparr>,
     w_journal := set_done (length (frames_text flat_env [JNull, JNull])) [] ''a'' (w_journal queued_world)\<rparr>"

theorem deliver_in_order_witness:
  "let w' = snd (deliver_session sample_config offline (hd (sessions (w_journal done_world))) done_world) in
   w_journal w' = w_journal done_world \<or> w_journal w' = set_offset 5 [] ''a'' (w_journal done_world)"
proof -
  let ?s = "hd (sessions (w_journal done_world))"
  let ?row = "\<lparr>j_sid = [], j_id = ''a'', j_body = ''{}'', j_state = Done, j_path = ''p'', j_offset = 0,
     j_size = length (frames_text flat_env [JNull, JNull]), j_expires = 100\<rparr>"
  obtain res w' where d: "deliver_session sample_config offline ?s done_world = (res, w')" by force
  have one: "one_line flat_env" by (simp add: one_line_def flat_env_def)
  have j: "w_journal done_world = \<lparr>sessions = [\<lparr>s_sid = [], s_client = ''alice'', s_registration = ''r'', s_expires = 100\<rparr>],
      jobs = [?row]\<rparr>"
    by (simp add: done_world_def queued_world_def set_done_def update_job_def)
  have len: "length (frames_text flat_env [JNull]) = 5" "frames_text flat_env [JNull, JNull] \<noteq> []"
    by (simp_all add: frames_text_def frame_line_def flat_env_def newline_def)
  have rows: "deliverable_jobs (s_sid ?s) (w_journal done_world) = [?row]"
    using len(2) by (simp add: j deliverable_jobs_def)
  have held: "content (w_disk done_world) (j_path ?row) = Some (frames_text flat_env [JNull, JNull])"
    by (simp add: done_world_def content_def)
  have "j_offset ?row = length (frames_text flat_env (take 0 [JNull, JNull]))" by simp
  from deliver_in_order [OF one rows held _ this d] show ?thesis using d len(1) by (auto simp: j)
qed

subsection \<open>Registration\<close>

text \<open>Documented behaviour of \<open>CRYPTO_memcmp\<close>: zero exactly on equal bytes.\<close>

definition memcmp_exact :: "env \<Rightarrow> bool" where
  "memcmp_exact E \<longleftrightarrow> (\<forall>a b n. memcmp E a b n = 0 \<longleftrightarrow> take n a = take n b)"

lemma EqualSecret_exact: "memcmp_exact E \<Longrightarrow> EqualSecret E a b \<longleftrightarrow> a = b"
  by (auto simp: EqualSecret_def memcmp_exact_def)

lemma register_request_accepts:
  assumes "register_request E cfg body = Some (Some (client, rid, params))" and "memcmp_exact E"
  shows "\<exists>st request. ParseRequest E body kFrameBytes = (st, request) \<and> st_ok st \<and>
    jat request ''method'' = JString ''session.register'' \<and> jat request ''id'' = JString rid \<and>
    params = jvalue request ''params'' (JObject []) \<and> jat params ''client'' = JString client \<and>
    jat (c_clients cfg) client = jat params ''token''"
proof -
  obtain st request where p: "ParseRequest E body kFrameBytes = (st, request)" by force
  have "st_ok st" "jat request ''method'' = JString ''session.register''" "rid = jtext (jat request ''id'')"
      "params = jvalue request ''params'' (JObject [])" "IsId (jat params ''client'')" "is_string (jat params ''token'')"
      "client = jtext (jat params ''client'')" "\<exists>secret. get_string (jat (c_clients cfg) client) = Some secret \<and>
        secret = jtext (jat params ''token'')"
    using assms p by (auto simp: register_request_def Let_def EqualSecret_exact Option.bind_eq_Some_conv split: if_splits)
  moreover have "IsId (jat request ''id'')"
    using p calculation(1) by (auto simp: ParseRequest_def Let_def split: if_splits)
  ultimately show ?thesis using p
    by (auto simp: IsId_iff is_string_conv get_string_jtext)
qed

lemma open_session_adds:
  assumes "s \<in> set (sessions (w_journal (snd (open_session cfg client rid w))))" and "s \<notin> set (sessions (w_journal w))"
  shows "s_client s = client \<and> s_registration s = rid \<and> s_sid s = Hex (w_random w (w_draws w)) \<and>
    s_expires s = w_clock w (w_reads w) + kLeaseSeconds"
  using assms
  by (auto simp: open_session_def seq_act_def query_def RandomId_def Now_def update_def return_act_def insert_session_def
      split: list.splits if_splits)

lemma quiet_journal: "quiet m \<Longrightarrow> w_journal (snd (m w)) = w_journal w"
  unfolding fixed_def view_of_def by blast

lemma seq_quiet_journal:
  assumes "\<And>x. quiet (f x)"
  shows "w_journal (snd (seq_act m f w)) = w_journal (snd (m w))"
  using quiet_journal [OF assms] by (cases "m w") (auto simp: seq_act_def split: option.splits)

lemma register_reply_journal:
  assumes "s \<in> set (sessions (w_journal (snd (register_reply E cfg H key e (client, rid, params) w))))"
  shows "s \<in> set (sessions (w_journal w)) \<or> s \<in> set (sessions (w_journal (snd (open_session cfg client rid w))))"
proof -
  have q: "quiet (seq_act (publish_json E H k (jset reply ''seq'' (JInt 0)))
      (\<lambda>published. if published then remove_entry H key e else return_act ()) :: ('a, 'b, unit) act)" for k reply and H :: "'a hiredis"
    by (intro quiet_rules)
  from assms show ?thesis
    unfolding register_reply_def prod.case seq_quiet_journal [OF q] by (auto simp: return_act_def split: if_splits)
qed

text \<open>
  C21. Only the holder of a client's secret opens a session: a new row in \<open>sessions\<close> comes from a
  registration request that was read from the registration stream, that names the client and carries
  exactly its configured secret, and the row has that client, the request's identifier, a freshly
  drawn session identifier and a lease of one hour.
\<close>

theorem register_authenticated:
  assumes "memcmp_exact E" and "s \<in> set (sessions (w_journal (snd (Register E cfg H w))))"
    and "s \<notin> set (sessions (w_journal w))"
  shows "\<exists>e st request params.
    fst (ReadFirst H (c_prefix cfg @ '':register'') (w_net w)) = Some e \<and>
    ParseRequest E (e_body e) kFrameBytes = (st, request) \<and> st_ok st \<and>
    jat request ''method'' = JString ''session.register'' \<and> jat request ''id'' = JString (s_registration s) \<and>
    params = jvalue request ''params'' (JObject []) \<and> jat params ''client'' = JString (s_client s) \<and>
    jat (c_clients cfg) (s_client s) = jat params ''token'' \<and>
    s_sid s = Hex (w_random w (w_draws w)) \<and> s_expires s = w_clock w (w_reads w) + kLeaseSeconds"
proof -
  let ?key = "c_prefix cfg @ '':register''"
  obtain found r where f: "ReadFirst H ?key (w_net w) = (found, r)" by force
  let ?w = "w\<lparr>w_net := r\<rparr>"
  have new: "s \<in> set (sessions (w_journal (snd (case found of None \<Rightarrow> return_act () ?w | Some e \<Rightarrow>
      seq_act (throw_none (register_request E cfg (e_body e))) (\<lambda>accepted. case accepted of None \<Rightarrow> remove_entry H ?key e
        | Some request \<Rightarrow> register_reply E cfg H ?key e request) ?w))))"
    using assms(2) f by (auto simp: Register_def Let_def seq_act_def on_net_def split: option.splits)
  then obtain e where e: "found = Some e" using assms(3) by (cases found) (auto simp: return_act_def)
  obtain client rid params where acc: "register_request E cfg (e_body e) = Some (Some (client, rid, params))"
    and reply: "s \<in> set (sessions (w_journal (snd (register_reply E cfg H ?key e (client, rid, params) ?w))))"
    using new assms(3)
    by (cases "register_request E cfg (e_body e)")
      (auto simp: e seq_act_def throw_none_def quiet_journal [OF quiet_remove(1)] split: option.splits)
  have "s \<in> set (sessions (w_journal (snd (open_session cfg client rid ?w))))"
    using register_reply_journal [OF reply] assms(3) by simp
  then show ?thesis
    using open_session_adds [of s cfg client rid ?w] register_request_accepts [OF acc assms(1)] assms(3) f e by auto
qed

definition register_env :: env where
  "register_env = sample_env\<lparr>parse := (\<lambda>_. JObject [(''id'', JString ''r9''), (''method'', JString ''session.register''),
     (''params'', JObject [(''client'', JString ''alice''), (''protocol'', JUint 1),
                          (''token'', JString (replicate 32 (CHR ''k'')))])])\<rparr>"

definition one_entry :: "unit hiredis" where
  "one_entry = \<lparr>h_live = (\<lambda>_. True), h_open = (\<lambda>r. r), h_timeout = (\<lambda>r. (True, r)), h_free = (\<lambda>r. r),
     h_send = (\<lambda>args r. (Some (RArray [RArray [RString ''1-0'', RArray [RString ''json'', RString ''x'']]]), r))\<rparr>"

lemma memcmp_register: "memcmp_exact register_env"
  by (simp add: memcmp_exact_def register_env_def sample_env_def)

lemma register_accepts:
  "register_request register_env sample_config ''x'' = Some (Some (''alice'', ''r9'',
     JObject [(''client'', JString ''alice''), (''protocol'', JUint 1), (''token'', JString (replicate 32 (CHR ''k'')))]))"
proof -
  let ?p = "JObject [(''client'', JString ''alice''), (''protocol'', JUint 1), (''token'', JString (replicate 32 (CHR ''k'')))]"
  let ?r = "JObject [(''id'', JString ''r9''), (''method'', JString ''session.register''), (''params'', ?p)]"
  have ids: "IsId (JString ''r9'')" "IsId (JString ''alice'')" "st_ok (CheckNesting ''x'')" by code_simp+
  have "ParseRequest register_env ''x'' kFrameBytes = (Ok, ?r)"
    using ids by (simp add: ParseRequest_def register_env_def contains_def jat_def envelope_keys_def kFrameBytes_def)
  moreover have "EqualSecret register_env (replicate 32 (CHR ''k'')) (replicate 32 (CHR ''k''))"
    using EqualSecret_exact [OF memcmp_register] by simp
  ultimately show ?thesis
    using ids by (simp add: register_request_def Let_def sample_config_def contains_def jat_def jvalue_def)
qed

theorem register_authenticated_witness:
  "\<exists>s \<in> set (sessions (w_journal (snd (Register register_env sample_config one_entry (empty_world () (MakeMockBackend 2)))))).
     jat (c_clients sample_config) (s_client s) = JString (replicate 32 (CHR ''k''))"
proof -
  let ?w = "empty_world () (MakeMockBackend 2)"
  let ?s = "\<lparr>s_sid = [], s_client = ''alice'', s_registration = ''r9'', s_expires = kLeaseSeconds\<rparr>"
  have rd: "ReadFirst one_entry key () = (Some \<lparr>e_id = ''1-0'', e_body = ''x''\<rparr>, ())" for key
    by (simp add: ReadFirst_def Command_def one_entry_def first_entry_def)
  let ?e = "\<lparr>e_id = ''1-0'', e_body = ''x''\<rparr>" and ?key = "c_prefix sample_config @ '':register''"
  let ?p = "JObject [(''client'', JString ''alice''), (''protocol'', JUint 1), (''token'', JString (replicate 32 (CHR ''k'')))]"
  have reg: "Register register_env sample_config one_entry ?w =
      register_reply register_env sample_config one_entry ?key ?e (''alice'', ''r9'', ?p) ?w"
    by (simp add: Register_def Let_def seq_act_def on_net_def throw_none_def rd register_accepts empty_world_def)
  have "?s \<in> set (sessions (w_journal (snd (open_session sample_config ''alice'' ''r9'' ?w))))"
    by (simp add: open_session_def seq_act_def query_def sql_fails_def empty_world_def find_session_def empty_journal_def
        count_sessions_def kSessions_def RandomId_def Now_def update_def insert_session_def return_act_def Hex_def)
  then have "?s \<in> set (sessions (w_journal (snd (Register register_env sample_config one_entry ?w))))"
    unfolding reg register_reply_def prod.case
    by (subst seq_quiet_journal, intro quiet_rules) (simp add: contains_def jat_def)
  moreover have "?s \<notin> set (sessions (w_journal ?w))" by (simp add: empty_world_def empty_journal_def)
  ultimately show ?thesis using register_authenticated [OF memcmp_register, of ?s]
    by (intro bexI [of _ ?s]) (auto simp: sample_config_def jat_def)
qed

end
