(* ===== verification/Recovery.thy ===== *)
theory Recovery
  imports Server
begin

text \<open>
  What a restart does to the jobs that the previous process left behind (\<open>ApiServer::Recover\<close>): the exact
  journal and the exact spool files after a recovery that succeeds.
\<close>

subsection \<open>The answer to an interrupted job\<close>

definition unknown_frame :: "string \<Rightarrow> json" where
  "unknown_frame rid = jset (jerror rid kUnknown) ''seq'' (JUint 0)"

definition unknown_text :: "env \<Rightarrow> string \<Rightarrow> string" where
  "unknown_text E rid = frames_text E [unknown_frame rid]"

text \<open>The error frame is a line of the spool: identifiers have at most 96 characters, a line 256 KiB.\<close>

definition short_error :: "env \<Rightarrow> string \<Rightarrow> bool" where
  "short_error E rid \<longleftrightarrow> length (dump_r E (jerror rid kUnknown)) + 64 \<le> kFrameBytes \<and> length (unknown_text E rid) \<le> kFrameBytes"

definition interrupted :: "disk \<Rightarrow> job \<Rightarrow> bool" where
  "interrupted d r \<longleftrightarrow> j_state r = Running \<or> j_state r = Done \<and> content d (j_path r) = None"

definition answer_job :: "env \<Rightarrow> job \<Rightarrow> job" where
  "answer_job E r = r\<lparr>j_state := Done, j_size := length (unknown_text E (j_id r)), j_offset := 0\<rparr>"

lemma write_single_exact:
  assumes "write_single E p rid (jerror rid kUnknown) d = (st, d')" and "st_ok st" and "short_error E rid"
  shows "content d' p = Some (unknown_text E rid) \<and> only_file p d d'"
proof -
  obtain sp d1 where n: "Spool_new d p rid kSpoolBytes = (sp, d1)" by force
  obtain sp' where s: "Spool_Single E sp d1 (jerror rid kUnknown) = (st, sp', d')"
    using assms(1) n by (auto simp: write_single_def split: prod.splits)
  have path: "sp_path sp = p" "sp_seq sp = 0" "sp_bytes sp = 0" "sp_limit sp = kSpoolBytes"
    using n by (auto simp: Spool_new_def Let_def split: prod.split_asm if_split_asm)
  have o: "only_file p d d'" using only_file_new [OF n] only_file_Single [OF s] path(1) by (auto intro: only_file_trans)
  have fd: "sp_fd sp" using closed_never_ok [OF _ s] assms(2) by blast
  then have h: "spool_holds E sp d1 []"
    using n by (auto simp: Spool_new_def open_trunc_def spool_holds_def io_simps numbered_def bounded_lines_def
        split: prod.split_asm if_split_asm)
  obtain ok sp1 d2 where w: "WriteRecord E sp d1 (jerror rid kUnknown) = (ok, sp1, d2)"
    by (cases "WriteRecord E sp d1 (jerror rid kUnknown)")
  have w': "Spool_Write E sp d1 (jerror rid kUnknown) False = (ok, sp1, d2)"
    using w assms(3) by (simp add: WriteRecord_def short_error_def)
  have ok: ok
  proof (rule ccontr)
    assume "\<not> ok"
    then have "st_code (sp_status sp1) = ''storage_error''"
      using w' assms(3) path fd
      by (auto simp: Spool_Write_def Let_def short_error_def unknown_text_def unknown_frame_def frame_line_def kFrameBytes_def
          kSpoolBytes_def split: if_split_asm prod.split_asm)
    moreover have "Spool_Finish E sp1 d2 (sp_status sp1) = (st, sp', d')" using s w \<open>\<not> ok\<close> by (simp add: Spool_Single_def)
    ultimately have "st_code st = ''storage_error''" by (auto simp: Spool_Finish_def)
    then show False using assms(2) by (simp add: st_ok_def)
  qed
  then have "spool_holds E sp1 d2 [unknown_frame rid] \<and> sp_path sp1 = p" "d' = next_call d2"
    using Spool_Write_True [of E sp d1 "jerror rid kUnknown" False sp1 d2 "[]"] only_file_Write [OF w'] w' h path s w
    by (auto simp: unknown_frame_def jerror_def Spool_Single_def sync_call_def split: if_split_asm)
  then show ?thesis using o by (auto simp: spool_holds_def unknown_text_def io_simps)
qed

subsection \<open>One job\<close>

lemma SyncDirectory_world:
  assumes "SyncDirectory w = (x, w')"
  shows "w_journal w' = w_journal w \<and> content (w_disk w') p = content (w_disk w) p"
  using assms by (auto simp: SyncDirectory_def seq_act_def on_disk_def sync_call_def Fail_def return_act_def io_simps
      split: if_split_asm)

lemma recover_job_exact:
  assumes "recover_job E r w = (Some (), w')" and "short_error E (j_id r)" and "j_state r \<noteq> Queued"
  shows "if interrupted (w_disk w) r
    then w_journal w' = set_done (length (unknown_text E (j_id r))) (j_sid r) (j_id r) (w_journal w) \<and>
         content (w_disk w') (j_path r) = Some (unknown_text E (j_id r)) \<and>
         (\<forall>q. q \<noteq> j_path r \<longrightarrow> content (w_disk w') q = content (w_disk w) q)
    else w_journal w' = w_journal w \<and> w_disk w' = w_disk w"
proof (cases "interrupted (w_disk w) r")
  case False
  then have "\<not> (j_state r = Running \<or> FileSize (w_disk w) (j_path r) < 0)"
    using assms(3) by (cases "j_state r") (auto simp: interrupted_def FileSize_def split: option.split)
  then show ?thesis using assms(1) False by (auto simp: recover_job_def seq_act_def on_disk_def return_act_def)
next
  case True
  then have "j_state r = Running \<or> FileSize (w_disk w) (j_path r) < 0" by (auto simp: interrupted_def FileSize_def)
  then obtain st d where s: "write_single E (j_path r) (j_id r) (jerror (j_id r) kUnknown) (w_disk w) = (st, d)" "st_ok st"
      "MarkDone (j_sid r) (j_id r) (j_path r) (w\<lparr>w_disk := d\<rparr>) = (Some (), w')"
    using assms(1) by (auto simp: recover_job_def seq_act_def on_disk_def Fail_def split: prod.split_asm if_split_asm)
  note x = write_single_exact [OF s(1,2) assms(2)]
  obtain u w1 where y: "SyncDirectory (w\<lparr>w_disk := d\<rparr>) = (Some u, w1)"
    using s(3) by (cases "SyncDirectory (w\<lparr>w_disk := d\<rparr>)") (auto simp: MarkDone_def seq_act_def split: option.split_asm)
  have w1: "w_journal w1 = w_journal w" "content (w_disk w1) = content d"
    using SyncDirectory_world [OF y] by auto
  have "w_journal w' = set_done (length (unknown_text E (j_id r))) (j_sid r) (j_id r) (w_journal w)" "w_disk w' = w_disk w1"
    using s(3) y w1 x
    by (auto simp: MarkDone_def seq_act_def on_disk_def update_def FileSize_def split: if_split_asm option.split_asm)
  then show ?thesis using True x w1(2) by (simp add: only_file_def)
qed


subsection \<open>All jobs\<close>

lemma answer_job_simps [simp]:
  "j_sid (answer_job E r) = j_sid r" "j_id (answer_job E r) = j_id r" "j_path (answer_job E r) = j_path r"
  "answer_job E (answer_job E r) = answer_job E r"
  by (simp_all add: answer_job_def)

lemma set_done_answers:
  "jobs (set_done (length (unknown_text E i)) sid i db) = map (\<lambda>r. if job_key r = (sid, i) then answer_job E r else r) (jobs db)"
  by (auto simp: set_done_def update_job_def answer_job_def)

lemma recover_all_exact:
  assumes "for_each (recover_job E) rows w = (Some (), w')" and "distinct (map job_key rows)" and "distinct (map j_path rows)"
    and "list_all (\<lambda>r. short_error E (j_id r) \<and> j_state r \<noteq> Queued) rows"
  shows "jobs (w_journal w') =
      map (\<lambda>r. if job_key r \<in> job_key ` set (filter (interrupted (w_disk w)) rows) then answer_job E r else r) (jobs (w_journal w)) \<and>
    (\<forall>r \<in> set rows. content (w_disk w') (j_path r) =
      (if interrupted (w_disk w) r then Some (unknown_text E (j_id r)) else content (w_disk w) (j_path r))) \<and>
    (\<forall>q. q \<notin> j_path ` set rows \<longrightarrow> content (w_disk w') q = content (w_disk w) q)"
  using assms
proof (induction rows arbitrary: w)
  case Nil
  then show ?case by (auto simp: return_act_def)
next
  case (Cons r rows)
  obtain w1 where w1: "recover_job E r w = (Some (), w1)" "for_each (recover_job E) rows w1 = (Some (), w')"
    using Cons.prems(1) by (cases "recover_job E r w") (auto simp: seq_act_def split: option.split_asm)
  have x: "if interrupted (w_disk w) r
    then w_journal w1 = set_done (length (unknown_text E (j_id r))) (j_sid r) (j_id r) (w_journal w) \<and>
         content (w_disk w1) (j_path r) = Some (unknown_text E (j_id r)) \<and>
         (\<forall>q. q \<noteq> j_path r \<longrightarrow> content (w_disk w1) q = content (w_disk w) q)
    else w_journal w1 = w_journal w \<and> w_disk w1 = w_disk w"
    using recover_job_exact [OF w1(1)] Cons.prems(4) by simp
  have other: "content (w_disk w1) q = content (w_disk w) q" if "q \<noteq> j_path r" for q using x that by (auto split: if_split_asm)
  have same: "interrupted (w_disk w1) q \<longleftrightarrow> interrupted (w_disk w) q" if "q \<in> set rows" for q
    using Cons.prems(3) that by (auto simp: interrupted_def other image_iff)
  then have f: "filter (interrupted (w_disk w1)) rows = filter (interrupted (w_disk w)) rows" by (rule filter_cong [OF refl])
  have IH: "jobs (w_journal w') =
      map (\<lambda>r. if job_key r \<in> job_key ` set (filter (interrupted (w_disk w)) rows) then answer_job E r else r) (jobs (w_journal w1))"
    "\<forall>r \<in> set rows. content (w_disk w') (j_path r) =
      (if interrupted (w_disk w1) r then Some (unknown_text E (j_id r)) else content (w_disk w1) (j_path r))"
    "\<forall>q. q \<notin> j_path ` set rows \<longrightarrow> content (w_disk w') q = content (w_disk w1) q"
    using Cons.IH [OF w1(2)] Cons.prems(2-4) unfolding f by auto
  have "jobs (w_journal w1) = map (\<lambda>q. if interrupted (w_disk w) r \<and> job_key q = job_key r then answer_job E q else q) (jobs (w_journal w))"
    using x set_done_answers [of E "j_id r" "j_sid r" "w_journal w"] by (cases "interrupted (w_disk w) r") simp_all
  then have "jobs (w_journal w') =
      map (\<lambda>q. if job_key q \<in> job_key ` set (filter (interrupted (w_disk w)) (r # rows)) then answer_job E q else q) (jobs (w_journal w))"
    unfolding IH(1) by auto
  moreover have "content (w_disk w') (j_path r) =
      (if interrupted (w_disk w) r then Some (unknown_text E (j_id r)) else content (w_disk w) (j_path r))"
    using IH(3) Cons.prems(3) x by (auto split: if_split_asm)
  moreover have "content (w_disk w') (j_path q) =
      (if interrupted (w_disk w) q then Some (unknown_text E (j_id q)) else content (w_disk w) (j_path q))" if "q \<in> set rows" for q
    using IH(2) same [OF that] other [of "j_path q"] Cons.prems(3) that by (auto simp: image_iff)
  ultimately show ?case using IH(3) other by auto
qed

text \<open>
  C40. After a restart every interrupted job has an answer, and only those. When recovery succeeds, the
  jobs that were running, and the finished ones whose file is gone, are done, ready to be delivered
  from the start, and their files hold exactly one frame, the error \<open>outcome_unknown\<close> that tells the client
  not to repeat the request blindly; every other job is as it was, in the journal and on disk.
\<close>

theorem recovery_answers:
  assumes "Recover E w = (Some (), w')" and "distinct (map job_key (jobs (w_journal w)))" and "distinct (map j_path (jobs (w_journal w)))"
    and "list_all (\<lambda>r. short_error E (j_id r)) (jobs (w_journal w))"
  shows "jobs (w_journal w') = map (\<lambda>r. if interrupted (w_disk w) r then answer_job E r else r) (jobs (w_journal w)) \<and>
    (\<forall>r \<in> set (jobs (w_journal w)). content (w_disk w') (j_path r) =
      (if interrupted (w_disk w) r then Some (unknown_text E (j_id r)) else content (w_disk w) (j_path r)))"
proof -
  let ?rows = "started_jobs (w_journal w)" and ?jobs = "jobs (w_journal w)"
  have r: "for_each (recover_job E) ?rows (w\<lparr>w_sql := Suc (w_sql w)\<rparr>) = (Some (), w')"
    using assms(1) by (auto simp: Recover_def seq_act_def query_def split: if_split_asm)
  have d: "distinct (map job_key ?rows)" "distinct (map j_path ?rows)"
      "list_all (\<lambda>r. short_error E (j_id r) \<and> j_state r \<noteq> Queued) ?rows"
    using assms(2-4) by (auto simp: started_jobs_def distinct_map_filter list_all_iff)
  have i: "interrupted (w_disk w) q \<Longrightarrow> j_state q \<noteq> Queued" for q by (auto simp: interrupted_def)
  have k: "job_key q \<in> job_key ` set (filter (interrupted (w_disk w)) ?rows) \<longleftrightarrow> interrupted (w_disk w) q" if "q \<in> set ?jobs" for q
  proof -
    have "q' = q" if "q' \<in> set ?jobs" "job_key q' = job_key q" for q'
      using assms(2) \<open>q \<in> set ?jobs\<close> that by (auto simp: distinct_map inj_on_def)
    then have "(\<exists>q' \<in> set ?jobs. j_state q' \<noteq> Queued \<and> interrupted (w_disk w) q' \<and> job_key q' = job_key q) \<longleftrightarrow> interrupted (w_disk w) q"
      using that i by blast
    then show ?thesis by (auto simp: started_jobs_def image_iff)
  qed
  have "jobs (w_journal w') =
      map (\<lambda>r. if job_key r \<in> job_key ` set (filter (interrupted (w_disk w)) ?rows) then answer_job E r else r) ?jobs"
    using recover_all_exact [OF r d] by simp
  also have "\<dots> = map (\<lambda>q. if interrupted (w_disk w) q then answer_job E q else q) ?jobs"
    by (rule map_cong [OF refl]) (simp only: k)
  finally have "jobs (w_journal w') = map (\<lambda>q. if interrupted (w_disk w) q then answer_job E q else q) ?jobs" .
  moreover have "content (w_disk w') (j_path q) =
      (if interrupted (w_disk w) q then Some (unknown_text E (j_id q)) else content (w_disk w) (j_path q))" if "q \<in> set ?jobs" for q
  proof (cases "j_state q = Queued")
    case True
    then have "j_path q \<notin> j_path ` set ?rows"
      using assms(3) that by (auto simp: started_jobs_def distinct_map inj_on_def)
    then show ?thesis using recover_all_exact [OF r d] True i by auto
  next
    case False
    then have "q \<in> set ?rows" using that by (simp add: started_jobs_def)
    then show ?thesis using recover_all_exact [OF r d] by auto
  qed
  ultimately show ?thesis by blast
qed


text \<open>A process that was killed while it ran one job, with another one in the queue.\<close>

definition killed_world :: "(unit, unit) world" where
  "killed_world = \<lparr>w_journal = \<lparr>sessions = [], jobs =
       [\<lparr>j_sid = ''s'', j_id = ''a'', j_body = ''{}'', j_state = Running, j_path = ''p'', j_offset = 0, j_size = 0, j_expires = 9\<rparr>,
        \<lparr>j_sid = ''s'', j_id = ''b'', j_body = ''{}'', j_state = Queued, j_path = ''q'', j_offset = 0, j_size = 0, j_expires = 9\<rparr>]\<rparr>,
     w_disk = clean_disk, w_net = (), w_backend = (), w_future = Idle, w_active_sid = [], w_active_id = [], w_active_path = [],
     w_last_cleanup = 0, w_sql = 0, w_sql_fault = (\<lambda>_. False), w_reads = 0, w_clock = (\<lambda>_. 0), w_draws = 0, w_random = (\<lambda>_. [])\<rparr>"

lemma killed_recovers: "\<exists>w'. Recover sample_env killed_world = (Some (), w')"
  by (simp add: Recover_def recover_job_def seq_act_def query_def update_def sql_fails_def on_disk_def return_act_def MarkDone_def
      SyncDirectory_def write_single_def killed_world_def started_jobs_def FileSize_def kUnknown_def WriteRecord_def spool_eval)

theorem recovery_answers_witness:
  "\<exists>w'. Recover sample_env killed_world = (Some (), w') \<and> map j_state (jobs (w_journal w')) = [Done, Queued] \<and>
     content (w_disk w') ''p'' = Some (unknown_text sample_env ''a'')"
proof -
  obtain w' where w': "Recover sample_env killed_world = (Some (), w')" using killed_recovers by blast
  have d: "distinct (map job_key (jobs (w_journal killed_world)))" "distinct (map j_path (jobs (w_journal killed_world)))"
    by (simp_all add: killed_world_def)
  have s: "list_all (\<lambda>r. short_error sample_env (j_id r)) (jobs (w_journal killed_world))"
    by (simp add: killed_world_def short_error_def unknown_text_def unknown_frame_def frame_line_def kUnknown_def spool_eval)
  from recovery_answers [OF w' d s] w' show ?thesis by (auto simp: killed_world_def interrupted_def answer_job_def)
qed

end
