(* ===== verification/Worker.thy ===== *)
theory Worker
  imports Server_Lifecycle
begin

text \<open>
  The two threads of the gateway (\<open>class Worker\<close>, \<open>ApiServer::Run\<close> and \<open>Stop\<close> of \<open>main.cc\<close>): the worker
  thread with its task slot and its flag, the main thread with its loop, the wait for the last result
  and the join. The steps of the two threads interleave in any order. Turns of the loop, polls and tasks
  are single steps: the main thread never touches the backend, and the worker touches nothing of the
  journal. It is shown that the threads refine the runs of theory \<open>Server_Lifecycle\<close>, which jobs can be
  running, and that a stop request ends the process under every fair schedule.
\<close>

subsection \<open>The jobs that are running\<close>

definition running_keys :: "journal \<Rightarrow> (string \<times> string) set" where
  "running_keys db = job_key ` {r \<in> set (jobs db). j_state r = Running}"

lemma running_updateE:
  assumes "key \<in> running_keys (update_job sid rid f db)" and "same_identity f"
  obtains r where "r \<in> set (jobs db)" "job_key r = key" "j_state (if key = (sid, rid) then f r else r) = Running"
proof -
  obtain r where r: "r \<in> set (jobs db)" "job_key (if job_key r = (sid, rid) then f r else r) = key"
      "j_state (if job_key r = (sid, rid) then f r else r) = Running"
    using assms(1) by (auto simp: running_keys_def update_job_def)
  moreover have "job_key (if job_key r = (sid, rid) then f r else r) = job_key r"
    using assms(2) by (simp add: same_identity_def)
  ultimately show thesis using that by metis
qed

lemma running_update_job:
  assumes "same_identity f" and "\<And>r. j_state (f r) = Running \<Longrightarrow> j_state r = Running"
  shows "running_keys (update_job sid rid f db) \<subseteq> running_keys db"
proof
  fix key assume "key \<in> running_keys (update_job sid rid f db)"
  then obtain r where "r \<in> set (jobs db)" "job_key r = key" "j_state (if key = (sid, rid) then f r else r) = Running"
    using assms(1) by (rule running_updateE)
  then show "key \<in> running_keys db" using assms(2) by (auto simp: running_keys_def split: if_split_asm)
qed

lemma running_set_done: "running_keys (set_done n sid rid db) \<subseteq> running_keys db - {(sid, rid)}"
proof
  fix key assume "key \<in> running_keys (set_done n sid rid db)"
  then obtain r where "r \<in> set (jobs db)" "job_key r = key"
      "j_state (if key = (sid, rid) then r\<lparr>j_state := Done, j_size := n, j_offset := 0\<rparr> else r) = Running"
    unfolding set_done_def by (rule running_updateE) auto
  then show "key \<in> running_keys db - {(sid, rid)}" by (auto simp: running_keys_def split: if_split_asm)
qed

lemma running_set_running: "running_keys (set_running sid rid db) \<subseteq> insert (sid, rid) (running_keys db)"
  by (auto simp: running_keys_def set_running_def update_job_def)

abbreviation fewer_running :: "view \<Rightarrow> view \<Rightarrow> bool" where
  "fewer_running v v' \<equiv> running_keys (fst v') \<subseteq> running_keys (fst v)"

interpretation waiting: journal_statements fewer_running E cfg for E cfg
proof
  fix db n g sz ofs t sid rid s db' body
  show "fewer_running (db, n, g) (set_done sz sid rid db, n, g)" using running_set_done by fastforce
  show "fewer_running (db, n, g) (set_offset ofs sid rid db, n, g)"
    unfolding set_offset_def fst_conv by (rule running_update_job) auto
  show "fewer_running (db, n, g) (set_expires t sid db, n, g)"
    using set_expires_map [of t sid db] by (auto simp: sql_simps running_keys_def)
  show "fewer_running (db, n, g) (delete_session sid db, n, g)" by (auto simp: running_keys_def delete_session_def)
  show "fewer_running (db, n, g) (db', Suc n, g)" if "insert_session s db = Some db'"
    using that by (auto simp: insert_session_def running_keys_def split: if_splits)
  show "fewer_running (db, n, g) (db', n, g)" if "insert_job sid rid body (job_path E cfg sid rid) t db = Some db'"
    using that by (auto simp: insert_job_def running_keys_def split: if_splits)
qed auto

abbreviation running :: "('r, 'b) world \<Rightarrow> (string \<times> string) set" where
  "running w \<equiv> running_keys (w_journal w)"

lemma fewer_runningD: "keeps fewer_running (\<lambda>_. True) m \<Longrightarrow> running (snd (m w)) \<subseteq> running w"
  using keepsD [of fewer_running "\<lambda>_. True" m w] by (simp add: view_of_def)

lemma MarkDone_running:
  assumes "MarkDone sid rid p w = (Some (), w')"
  shows "running w' \<subseteq> running w - {(sid, rid)}"
proof -
  obtain u w1 where s: "SyncDirectory w = (Some u, w1)"
    using assms by (cases "SyncDirectory w") (auto simp: MarkDone_def seq_act_def split: option.split_asm)
  have "view_of w1 = view_of w" using quiet_SyncDirectory(1) s unfolding fixed_def by (metis snd_conv)
  then have "w_journal w1 = w_journal w" by (simp add: view_of_def)
  then show ?thesis using assms s
    by (auto simp: MarkDone_def seq_act_def on_disk_def update_def Fail_def split: if_split_asm
        dest!: subsetD [OF running_set_done])
qed

text \<open>A running job is the one the worker has, or has finished.\<close>

definition running_active :: "('r, 'b) world \<Rightarrow> bool" where
  "running_active w \<longleftrightarrow> (\<forall>key \<in> running w. w_future w \<noteq> Idle \<and> key = active_key w)"

lemma running_activeI: "running w' \<subseteq> running w \<Longrightarrow> worker_of w' = worker_of w \<Longrightarrow> running_active w \<Longrightarrow> running_active w'"
  by (auto simp: running_active_def worker_of_def active_key_def)

lemma CompleteWorker_running:
  assumes "CompleteWorker w = (Some (), w')" and "running_active w"
  shows "running_active w' \<and> ((\<forall>rq p n. w_future w \<noteq> Submitted rq p n) \<longrightarrow> w_future w' = Idle \<and> running w' = {})"
proof (cases "w_future w")
  case (Ready result)
  then obtain st where r: "result = Some st" using assms(1) by (cases result) (auto simp: CompleteWorker_def)
  obtain w1 where m: "MarkDone (w_active_sid w) (w_active_id w) (w_active_path w) (w\<lparr>w_future := Idle\<rparr>) = (Some (), w1)"
    and w': "w' = w1\<lparr>w_active_sid := [], w_active_id := [], w_active_path := []\<rparr>"
    using assms(1) Ready r
    by (cases "MarkDone (w_active_sid w) (w_active_id w) (w_active_path w) (w\<lparr>w_future := Idle\<rparr>)")
      (auto simp: CompleteWorker_def Let_def seq_act_def clear_active_def split: if_split_asm option.split_asm)
  have "worker_of w1 = worker_of (w\<lparr>w_future := Idle\<rparr>)" using steady_MarkDone m unfolding fixed_def by (metis snd_conv)
  then have "w_future w' = Idle" by (simp add: w' worker_of_def)
  moreover have "running w' = {}"
    using MarkDone_running [OF m] assms(2) by (auto simp: w' running_active_def active_key_def)
  ultimately show ?thesis by (simp add: running_active_def)
qed (use assms in \<open>auto simp: CompleteWorker_def running_active_def\<close>)

text \<open>After the completion, the rest of a turn until \<open>StartJob\<close> leaves the worker alone.\<close>

lemma seq_successE:
  assumes "seq_act m f w = (Some y, w')"
  obtains x w1 where "m w = (Some x, w1)" "f x w1 = (Some y, w')"
  using assms by (auto simp: seq_act_def split: prod.splits option.splits)

lemma turn_head_running:
  assumes "turn_head E cfg H w = (Some go, w')" and "running_active w"
  shows "running_active w'"
proof -
  obtain u w1 where w1: "CompleteWorker w = (Some u, w1)" "turn_rest E cfg H w1 = (Some go, w')"
    using assms(1) unfolding turn_head_def by (rule seq_successE)
  have "running w' \<subseteq> running w1" using fewer_runningD [OF waiting.keeps_rest, of E cfg H w1] w1(2) by simp
  moreover have "worker_of w' = worker_of w1" using steady_rest w1(2) unfolding fixed_def by (metis snd_conv)
  moreover have "running_active w1" using CompleteWorker_running [of w w1] w1(1) assms(2) by simp
  ultimately show ?thesis by (rule running_activeI)
qed

text \<open>A job that \<open>StartJob\<close> takes is done at once, or the worker has it.\<close>

lemma run_job_running:
  assumes "run_job E cfg r w = (Some (), w')"
  shows "running w' \<subseteq> running w - {job_key r} \<or> running w' \<subseteq> running w \<and> w_future w' \<noteq> Idle \<and> active_key w' = job_key r"
proof -
  let ?rest = "\<lambda>immediate request. case immediate of
          Some (st, result) \<Rightarrow>
            seq_act (on_disk (write_single E (j_path r) (j_id r)
                       (if st_ok st then jresult (j_id r) result else jerror (j_id r) st))) (\<lambda>written.
              if \<not> st_ok written then Fail else MarkDone (j_sid r) (j_id r) (j_path r))
        | None \<Rightarrow>
            seq_act (query used_bytes) (\<lambda>used.
            seq_act (query (session_used (j_sid r))) (\<lambda>s_used.
              submit (j_sid r) (j_id r) (j_path r) request
                (min (256 * 1024 * 1024 - int used) (64 * 1024 * 1024 - int s_used))))"
  have obj: "is_object (parse E (j_body r))" using assms by (rule contrapos_pp) (simp add: run_job_def Fail_def)
  have "seq_act (resolve_params E cfg (j_sid r) (parse E (j_body r))) (\<lambda>(st, params, request).
      seq_act (throw_none (get_string (jat request ''method''))) (\<lambda>name.
      seq_act (immediate_result E cfg (j_sid r) st name params) (\<lambda>immediate. ?rest immediate request))) w = (Some (), w')"
    using assms unfolding run_job_def Let_def by (simp only: obj not_True_eq_False if_False)
  then obtain x w1 where 1: "resolve_params E cfg (j_sid r) (parse E (j_body r)) w = (Some x, w1)"
    and x: "(case x of (st, params, request) \<Rightarrow>
      seq_act (throw_none (get_string (jat request ''method''))) (\<lambda>name.
      seq_act (immediate_result E cfg (j_sid r) st name params) (\<lambda>immediate. ?rest immediate request))) w1 = (Some (), w')"
    by (rule seq_successE)
  obtain st params rq where xs: "x = (st, params, rq)" by (rule prod_cases3)
  obtain name w2 where 2: "throw_none (get_string (jat rq ''method'')) w1 = (Some name, w2)"
      "seq_act (immediate_result E cfg (j_sid r) st name params) (\<lambda>immediate. ?rest immediate rq) w2 = (Some (), w')"
    using x unfolding xs prod.case by (rule seq_successE)
  from 2(2) obtain immediate w3 where 4: "immediate_result E cfg (j_sid r) st name params w2 = (Some immediate, w3)"
    and 3: "?rest immediate rq w3 = (Some (), w')" by (rule seq_successE)
  have "running w1 \<subseteq> running w" using fewer_runningD [OF waiting.keeps_quiet [OF quiet_resolve(1)], of E cfg "j_sid r" "parse E (j_body r)" w] 1 by simp
  moreover have "running w2 \<subseteq> running w1" using 2(1) by (simp add: throw_none_def split: option.split_asm)
  moreover have "running w3 \<subseteq> running w2" using fewer_runningD [OF waiting.keeps_immediate, of E cfg "j_sid r" st name params w2] 4 by simp
  ultimately have w3: "running w3 \<subseteq> running w" by blast
  show ?thesis
  proof (cases immediate)
    case None
    then show ?thesis using 3 w3 by (auto simp: seq_act_def query_def submit_def active_key_def split: if_split_asm)
  next
    case (Some x)
    then obtain d where "MarkDone (j_sid r) (j_id r) (j_path r) (w3\<lparr>w_disk := d\<rparr>) = (Some (), w')"
      using 3 by (cases x) (auto simp: seq_act_def on_disk_def Fail_def split: prod.split_asm if_split_asm)
    from MarkDone_running [OF this] w3 show ?thesis by auto
  qed
qed

lemma StartJob_running:
  assumes "StartJob E cfg w = (Some (), w')" and "running_active w"
  shows "running_active w'"
proof (cases "w_future w = Idle")
  case False
  then show ?thesis using assms by (simp add: StartJob_def)
next
  case True
  then have none: "running w = {}" using assms(2) by (auto simp: running_active_def)
  let ?w1 = "w\<lparr>w_sql := Suc (w_sql w)\<rparr>"
  have ok: "\<not> sql_fails w" using assms(1) True by (auto simp: StartJob_def seq_act_def query_def)
  show ?thesis
  proof (cases "first_queued (w_journal w)")
    case Nil
    then have "w' = ?w1" using assms(1) True ok by (simp add: StartJob_def seq_act_def query_def return_act_def)
    then show ?thesis using none by (simp add: running_active_def)
  next
    case (Cons r rs)
    let ?w2 = "?w1\<lparr>w_journal := set_running (j_sid r) (j_id r) (w_journal w), w_sql := Suc (Suc (w_sql w))\<rparr>"
    have "run_job E cfg r ?w2 = (Some (), w')"
      using assms(1) True ok Cons by (auto simp: StartJob_def seq_act_def query_def update_def split: if_splits)
    from run_job_running [OF this] have "running w' \<subseteq> running ?w2 - {job_key r} \<or>
        running w' \<subseteq> running ?w2 \<and> w_future w' \<noteq> Idle \<and> active_key w' = job_key r" .
    moreover have "running ?w2 \<subseteq> {job_key r}" using running_set_running [of "j_sid r" "j_id r" "w_journal w"] none by simp
    ultimately have "running w' = {} \<or> running w' \<subseteq> {job_key r} \<and> w_future w' \<noteq> Idle \<and> active_key w' = job_key r" by blast
    then show ?thesis by (auto simp: running_active_def)
  qed
qed

lemma turn_running:
  assumes "Run_turn E cfg H w = (Some (), w')" and "running_active w"
  shows "running_active w'"
proof -
  obtain go w1 where h: "turn_head E cfg H w = (Some go, w1)" "(if go then StartJob E cfg else return_act ()) w1 = (Some (), w')"
    using assms(1) unfolding turn_split by (rule seq_successE)
  have "running_active w1" by (rule turn_head_running [OF h(1) assms(2)])
  with h(2) show ?thesis by (cases go) (auto simp: return_act_def intro: StartJob_running)
qed

lemma recover_each_running:
  assumes "for_each (recover_job E) rows w = (Some (), w')"
  shows "running w' \<subseteq> running w - job_key ` {r \<in> set rows. j_state r = Running}"
  using assms
proof (induction rows arbitrary: w)
  case Nil
  then show ?case by (simp add: return_act_def)
next
  case (Cons r rows)
  obtain w1 where w1: "recover_job E r w = (Some (), w1)" "for_each (recover_job E) rows w1 = (Some (), w')"
    using Cons.prems unfolding for_each.simps by (rule seq_successE) auto
  have "running w1 \<subseteq> running w" using fewer_runningD [OF waiting.keeps_recover_job, of E r w] w1(1) by simp
  moreover have "running w1 \<subseteq> running w - {job_key r}" if run: "j_state r = Running"
  proof -
    obtain d where "MarkDone (j_sid r) (j_id r) (j_path r) (w\<lparr>w_disk := d\<rparr>) = (Some (), w1)"
      using w1(1) run by (auto simp: recover_job_def seq_act_def on_disk_def Fail_def split: prod.split_asm if_split_asm)
    from MarkDone_running [OF this] show ?thesis by simp
  qed
  ultimately show ?case using Cons.IH [OF w1(2)] by auto
qed

lemma Recover_running:
  assumes "Recover E w = (Some (), w')"
  shows "running w' = {}"
proof -
  have "for_each (recover_job E) (started_jobs (w_journal w)) (w\<lparr>w_sql := Suc (w_sql w)\<rparr>) = (Some (), w')"
    using assms by (auto simp: Recover_def seq_act_def query_def split: if_split_asm)
  from recover_each_running [OF this]
  have "running w' \<subseteq> running w - job_key ` {r \<in> set (started_jobs (w_journal w)). j_state r = Running}" by simp
  moreover have "job_key ` {r \<in> set (started_jobs (w_journal w)). j_state r = Running} = running w"
    unfolding started_jobs_def running_keys_def by (rule arg_cong [where f = "image job_key"]) auto
  ultimately show ?thesis by auto
qed

subsection \<open>The worker thread\<close>

type_synonym task = "json \<times> path \<times> int"

text \<open>Where the worker is: in \<open>wait_for\<close>, in \<open>Backend::Poll\<close>, in the task it took, or returned.\<close>

datatype phase = Waiting | InPoll | Working task | Returned

record thread =
  th_stopping :: bool
  th_task :: "task option"
  th_phase :: phase

definition started_thread :: thread where
  "started_thread = \<lparr>th_stopping = False, th_task = None, th_phase = Waiting\<rparr>"

definition Submit :: "task \<Rightarrow> thread \<Rightarrow> thread" where
  "Submit t th = th\<lparr>th_task := Some t\<rparr>"

definition stop_thread :: "thread \<Rightarrow> thread" where
  "stop_thread th = th\<lparr>th_stopping := True\<rparr>"

text \<open>
  The critical section after \<open>wait_for\<close>, which ends when there is a task or the stop flag, and in any
  case after 100 milliseconds.
\<close>

definition wake :: "thread \<Rightarrow> thread" where
  "wake th =
     (if \<not> th_stopping th \<and> th_task th = None then th\<lparr>th_phase := InPoll\<rparr>
      else case th_task th of
             None \<Rightarrow> th\<lparr>th_phase := Returned\<rparr>
           | Some t \<Rightarrow> th\<lparr>th_phase := Working t, th_task := None\<rparr>)"

text \<open>The call of the packaged task: its result, or its exception, is in the future.\<close>

definition run_task :: "env \<Rightarrow> 'b backend \<Rightarrow> task \<Rightarrow> ('r, 'b) world \<Rightarrow> ('r, 'b) world" where
  "run_task E B t w =
     (case t of (request, p, available) \<Rightarrow>
        case worker_task E B (w_backend w) request p available (w_disk w) of
          None \<Rightarrow> w\<lparr>w_future := Ready None\<rparr>
        | Some (r, b, d) \<Rightarrow> w\<lparr>w_future := Ready (Some r), w_backend := b, w_disk := d\<rparr>)"

subsection \<open>The process\<close>

text \<open>
  The main thread is in the loop of \<open>Run\<close>, after it, in the destructor of the worker, or has returned;
  \<open>Dead\<close> is a process that has exited by a failure or has been killed.
\<close>

datatype main_phase = Looping | Draining | Joining | Finished | Dead

record ('r, 'b) process =
  p_main :: main_phase
  p_stop :: bool
  p_thread :: thread
  p_world :: "('r, 'b) world"

definition Stop :: "('r, 'b) process \<Rightarrow> ('r, 'b) process" where
  "Stop p = p\<lparr>p_stop := True\<rparr>"

definition up :: "('r, 'b) process \<Rightarrow> bool" where
  "up p \<longleftrightarrow> p_main p \<noteq> Finished \<and> p_main p \<noteq> Dead"

text \<open>The task of a turn, which submits at most once, and only while no task is pending.\<close>

definition handed :: "future \<Rightarrow> future \<Rightarrow> task option" where
  "handed before after =
     (case after of
        Submitted request p available \<Rightarrow>
          (case before of Submitted _ _ _ \<Rightarrow> None | _ \<Rightarrow> Some (request, p, available))
      | _ \<Rightarrow> None)"

text \<open>One step of the main thread; a thread that has to wait stays where it is.\<close>

definition main_step :: "env \<Rightarrow> config \<Rightarrow> 'r hiredis \<Rightarrow> ('r, 'b) process \<Rightarrow> ('r, 'b) process" where
  "main_step E cfg H p =
     (case p_main p of
        Looping \<Rightarrow>
          if p_stop p then p\<lparr>p_main := Draining\<rparr>
          else (case Run_turn E cfg H (p_world p) of
                  (None, w) \<Rightarrow> p\<lparr>p_main := Dead, p_world := w\<rparr>
                | (Some _, w) \<Rightarrow>
                    (case handed (w_future (p_world p)) (w_future w) of
                       None \<Rightarrow> p\<lparr>p_world := w\<rparr>
                     | Some t \<Rightarrow> p\<lparr>p_world := w, p_thread := Submit t (p_thread p)\<rparr>))
      | Draining \<Rightarrow>
          (case w_future (p_world p) of
             Submitted _ _ _ \<Rightarrow> p
           | _ \<Rightarrow>
               (case CompleteWorker (p_world p) of
                  (None, w) \<Rightarrow> p\<lparr>p_main := Dead, p_world := w\<rparr>
                | (Some _, w) \<Rightarrow> p\<lparr>p_main := Joining, p_world := w, p_thread := stop_thread (p_thread p)\<rparr>))
      | Joining \<Rightarrow> if th_phase (p_thread p) = Returned then p\<lparr>p_main := Finished\<rparr> else p
      | _ \<Rightarrow> p)"

text \<open>One step of the worker thread, as long as the process is there.\<close>

definition thread_step :: "env \<Rightarrow> 'b backend \<Rightarrow> ('r, 'b) process \<Rightarrow> ('r, 'b) process" where
  "thread_step E B p =
     (if \<not> up p then p
      else case th_phase (p_thread p) of
             Waiting \<Rightarrow> p\<lparr>p_thread := wake (p_thread p)\<rparr>
           | InPoll \<Rightarrow> p\<lparr>p_thread := (p_thread p)\<lparr>th_phase := Waiting\<rparr>,
                         p_world := (p_world p)\<lparr>w_backend := b_Poll B (w_backend (p_world p))\<rparr>\<rparr>
           | Working t \<Rightarrow> p\<lparr>p_thread := (p_thread p)\<lparr>th_phase := Waiting\<rparr>, p_world := run_task E B t (p_world p)\<rparr>
           | Returned \<Rightarrow> p)"

text \<open>A new process: the thread starts with the object, and the constructor recovers.\<close>

definition boot_process :: "env \<Rightarrow> 'b \<Rightarrow> ('r, 'b) world \<Rightarrow> ('r, 'b) process" where
  "boot_process E b w =
     (case Recover E (reborn b w) of
        (r, w') \<Rightarrow> \<lparr>p_main = (if r = None then Dead else Looping), p_stop = False, p_thread = started_thread, p_world = w'\<rparr>)"

text \<open>What a step shows to the outside, in the events of \<open>Server_Lifecycle\<close>.\<close>

definition main_events :: "env \<Rightarrow> config \<Rightarrow> 'r hiredis \<Rightarrow> ('r, 'b) process \<Rightarrow> event list" where
  "main_events E cfg H p =
     (case p_main p of
        Looping \<Rightarrow> if p_stop p then [] else if fst (Run_turn E cfg H (p_world p)) = None then [Crashed] else [Turned]
      | Draining \<Rightarrow> (case w_future (p_world p) of Submitted _ _ _ \<Rightarrow> []
                     | _ \<Rightarrow> if fst (CompleteWorker (p_world p)) = None then [Crashed] else [Completed])
      | Joining \<Rightarrow> if th_phase (p_thread p) = Returned then [Stopped] else []
      | _ \<Rightarrow> [])"

definition thread_events :: "('r, 'b) process \<Rightarrow> event list" where
  "thread_events p =
     (if \<not> up p then []
      else case th_phase (p_thread p) of
             InPoll \<Rightarrow> [Polled]
           | Working _ \<Rightarrow> [Executed (w_active_sid (p_world p)) (w_active_id (p_world p))]
           | _ \<Rightarrow> [])"

inductive process_step ::
  "env \<Rightarrow> config \<Rightarrow> 'r hiredis \<Rightarrow> 'b backend \<Rightarrow> 'b \<Rightarrow> ('r, 'b) process \<Rightarrow> event list \<Rightarrow> ('r, 'b) process \<Rightarrow> bool"
  for E cfg H B b where
  main: "process_step E cfg H B b p (main_events E cfg H p) (main_step E cfg H p)"
| worker: "process_step E cfg H B b p (thread_events p) (thread_step E B p)"
| signal: "process_step E cfg H B b p [] (Stop p)"
| killed: "up p \<Longrightarrow> process_step E cfg H B b p [Crashed] (p\<lparr>p_main := Dead\<rparr>)"
| boots: "\<not> up p \<Longrightarrow> q = boot_process E b (p_world p) \<Longrightarrow>
    process_step E cfg H B b p [if up q then Restarted else Crashed] q"
| others: "process_step E cfg H B b p [Outside] (p\<lparr>p_world := (p_world p)\<lparr>w_net := r\<rparr>\<rparr>)"

inductive process_run ::
  "env \<Rightarrow> config \<Rightarrow> 'r hiredis \<Rightarrow> 'b backend \<Rightarrow> 'b \<Rightarrow> ('r, 'b) process \<Rightarrow> event list \<Rightarrow> ('r, 'b) process \<Rightarrow> bool"
  for E cfg H B b p where
  begin_run: "process_run E cfg H B b p [] p"
| add_step: "process_run E cfg H B b p es q \<Longrightarrow> process_step E cfg H B b q fs r \<Longrightarrow> process_run E cfg H B b p (es @ fs) r"

subsection \<open>What holds between the steps\<close>

text \<open>The slot and the worker hold exactly the task that the future waits for.\<close>

definition task_held :: "thread \<Rightarrow> future \<Rightarrow> bool" where
  "task_held th f =
     (case f of
        Submitted request p available \<Rightarrow>
          th_task th = Some (request, p, available) \<and> th_phase th \<in> {Waiting, InPoll} \<or>
          th_task th = None \<and> th_phase th = Working (request, p, available)
      | _ \<Rightarrow> th_task th = None \<and> (\<forall>t. th_phase th \<noteq> Working t))"

definition process_inv :: "('r, 'b) process \<Rightarrow> bool" where
  "process_inv p \<longleftrightarrow>
     (up p \<longrightarrow> task_held (p_thread p) (w_future (p_world p)) \<and> running_active (p_world p) \<and>
        (th_stopping (p_thread p) \<longleftrightarrow> p_main p = Joining) \<and> (th_phase (p_thread p) = Returned \<longrightarrow> p_main p = Joining)) \<and>
     (p_main p \<in> {Joining, Finished} \<longrightarrow> w_future (p_world p) = Idle \<and> running (p_world p) = {})"

lemma turn_future:
  assumes "Run_turn E cfg H w = (Some u, w')" and "w_future w = Submitted request p n"
  shows "w_future w' = Submitted request p n"
proof -
  obtain go w1 where h: "turn_head E cfg H w = (Some go, w1)" "(if go then StartJob E cfg else return_act ()) w1 = (Some u, w')"
    using assms(1) unfolding turn_split by (rule seq_successE)
  have "turn_rest E cfg H w = (Some go, w1)" using h(1) assms(2) by (simp add: turn_head_def seq_act_def CompleteWorker_def)
  then have "worker_of w1 = worker_of w" using steady_rest unfolding fixed_def by (metis snd_conv)
  then have "w_future w1 = Submitted request p n" using assms(2) by (simp add: worker_of_def)
  with h(2) show ?thesis by (cases go) (auto simp: StartJob_def return_act_def)
qed

lemma inv_loop:
  assumes "process_inv p" and "p_main p = Looping"
  shows "process_inv (main_step E cfg H p)"
proof (cases "p_stop p")
  case True
  then show ?thesis using assms by (auto simp: main_step_def process_inv_def up_def)
next
  case False
  obtain r w where t: "Run_turn E cfg H (p_world p) = (r, w)" by force
  have i: "task_held (p_thread p) (w_future (p_world p))" "running_active (p_world p)" "\<not> th_stopping (p_thread p)"
      "th_phase (p_thread p) \<noteq> Returned"
    using assms by (auto simp: process_inv_def up_def)
  show ?thesis
  proof (cases r)
    case None
    then show ?thesis using assms(2) False t by (simp add: main_step_def process_inv_def up_def)
  next
    case (Some u)
    have run: "running_active w" using turn_running [OF _ i(2)] t Some by simp
    show ?thesis
    proof (cases "\<exists>request q n. w_future (p_world p) = Submitted request q n")
      case True
      then have "w_future w = w_future (p_world p)" using turn_future t Some by metis
      then show ?thesis using assms(2) False t Some True i run
        by (auto simp: main_step_def handed_def process_inv_def up_def)
    next
      case free: False
      then have none: "th_task (p_thread p) = None" "\<forall>t. th_phase (p_thread p) \<noteq> Working t"
        using i(1) by (auto simp: task_held_def split: future.split_asm)
      then have "th_phase (p_thread p) = Waiting \<or> th_phase (p_thread p) = InPoll"
        using i(4) by (cases "th_phase (p_thread p)") auto
      moreover have "handed (w_future (p_world p)) (w_future w) =
          (case w_future w of Submitted request q n \<Rightarrow> Some (request, q, n) | _ \<Rightarrow> None)"
        using free by (auto simp: handed_def split: future.split)
      ultimately show ?thesis using assms(2) False t Some i run none
        by (cases "w_future w") (auto simp: main_step_def process_inv_def up_def task_held_def Submit_def)
    qed
  qed
qed

lemma inv_drain:
  assumes "process_inv p" and "p_main p = Draining"
  shows "process_inv (main_step E cfg H p)"
proof (cases "\<exists>request q n. w_future (p_world p) = Submitted request q n")
  case True
  then have "main_step E cfg H p = p" using assms(2) by (auto simp: main_step_def)
  then show ?thesis using assms(1) by simp
next
  case free: False
  have i: "task_held (p_thread p) (w_future (p_world p))" "running_active (p_world p)"
    using assms by (auto simp: process_inv_def up_def)
  have none: "th_task (p_thread p) = None" "\<forall>t. th_phase (p_thread p) \<noteq> Working t"
    using free i(1) by (auto simp: task_held_def split: future.split_asm)
  obtain r w where t: "CompleteWorker (p_world p) = (r, w)" by force
  have m: "main_step E cfg H p = (case r of None \<Rightarrow> p\<lparr>p_main := Dead, p_world := w\<rparr>
      | Some _ \<Rightarrow> p\<lparr>p_main := Joining, p_world := w, p_thread := stop_thread (p_thread p)\<rparr>)"
    using assms(2) free t by (auto simp: main_step_def split: future.split option.split)
  show ?thesis
  proof (cases r)
    case None
    then show ?thesis by (simp add: m process_inv_def up_def)
  next
    case (Some u)
    then have "running_active w" "w_future w = Idle" "running w = {}"
      using CompleteWorker_running [OF _ i(2), of w] t free by auto
    then show ?thesis using Some none by (simp add: m process_inv_def up_def stop_thread_def task_held_def)
  qed
qed

lemma inv_main: "process_inv p \<Longrightarrow> process_inv (main_step E cfg H p)"
  by (cases "p_main p") (auto simp: inv_loop inv_drain, auto simp: main_step_def process_inv_def up_def)

lemma run_task_future: "\<exists>s. w_future (run_task E B t w) = Ready s"
  by (simp add: run_task_def split: prod.splits option.splits)

lemma run_task_same: "view_of (run_task E B t w) = view_of w \<and> active_key (run_task E B t w) = active_key w"
  by (simp add: run_task_def active_key_def split: prod.splits option.splits)

lemma run_task_running: "w_future w \<noteq> Idle \<Longrightarrow> running_active w \<Longrightarrow> running_active (run_task E B t w)"
  using run_task_same [of E B t w] run_task_future [of E B t w] by (auto simp: running_active_def view_of_def)

lemma inv_thread:
  assumes "process_inv p"
  shows "process_inv (thread_step E B p)"
proof (cases "up p")
  case False
  then show ?thesis using assms by (simp add: thread_step_def)
next
  case up: True
  then have i: "task_held (p_thread p) (w_future (p_world p))" "running_active (p_world p)"
      "th_stopping (p_thread p) \<longleftrightarrow> p_main p = Joining" "th_phase (p_thread p) = Returned \<longrightarrow> p_main p = Joining"
      "p_main p = Joining \<longrightarrow> w_future (p_world p) = Idle \<and> running (p_world p) = {}"
    using assms by (auto simp: process_inv_def)
  show ?thesis
  proof (cases "th_phase (p_thread p)")
    case Waiting
    then show ?thesis using up i
      by (auto simp: thread_step_def process_inv_def up_def wake_def task_held_def split: future.splits option.splits)
  next
    case InPoll
    then show ?thesis using up i
      by (auto simp: thread_step_def process_inv_def up_def task_held_def running_active_def active_key_def split: future.splits)
  next
    case (Working t)
    have "\<exists>request q n. w_future (p_world p) = Submitted request q n" "th_task (p_thread p) = None"
      using i(1) Working by (auto simp: task_held_def split: future.split_asm)
    then have "w_future (p_world p) \<noteq> Idle" by auto
    then have "running_active (run_task E B t (p_world p))" "p_main p \<noteq> Joining"
      using i(2,5) run_task_running [of "p_world p" E B t] by simp_all
    moreover obtain s where "w_future (run_task E B t (p_world p)) = Ready s" using run_task_future by blast
    ultimately show ?thesis using up i Working \<open>th_task (p_thread p) = None\<close>
      by (simp add: thread_step_def process_inv_def up_def task_held_def)
  next
    case Returned
    then show ?thesis using assms up by (simp add: thread_step_def)
  qed
qed

lemma inv_boot: "process_inv (boot_process E b w)"
proof -
  obtain r w' where t: "Recover E (reborn b w) = (r, w')" by force
  have "worker_of w' = worker_of (reborn b w)" using steady_Recover [of E] t unfolding fixed_def by (metis snd_conv)
  then have "w_future w' = Idle" by (simp add: worker_of_def reborn_def)
  moreover have "running w' = {}" if "r \<noteq> None" using Recover_running [of E "reborn b w" w'] t that by auto
  ultimately show ?thesis
    by (cases r) (auto simp: boot_process_def t process_inv_def up_def started_thread_def task_held_def running_active_def)
qed

lemma inv_step: "process_step E cfg H B b p es q \<Longrightarrow> process_inv p \<Longrightarrow> process_inv q"
proof (induction rule: process_step.induct)
  case (others p r)
  then show ?case by (simp add: process_inv_def up_def running_active_def active_key_def)
qed (auto simp: inv_main inv_thread inv_boot, auto simp: process_inv_def up_def Stop_def)

lemma inv_run: "process_run E cfg H B b p es q \<Longrightarrow> p_main p = Dead \<Longrightarrow> process_inv q"
proof (induction rule: process_run.induct)
  case begin_run
  then show ?case by (simp add: process_inv_def up_def)
qed (rule inv_step)

subsection \<open>The threads refine the runs of the gateway\<close>

lemma run_task_worker: "w_future w = Submitted rq p n \<Longrightarrow> run_task E B (rq, p, n) w = worker_step E B w"
  by (simp add: run_task_def worker_step_def)

lemma refines_main:
  assumes "run E cfg H B b s es (up p, p_world p)"
  shows "run E cfg H B b s (es @ main_events E cfg H p) (up (main_step E cfg H p), p_world (main_step E cfg H p))"
proof (cases "p_main p")
  case Looping
  obtain r w where t: "Run_turn E cfg H (p_world p) = (r, w)" by force
  have r: "run E cfg H B b s es (True, p_world p)" using assms Looping by (simp add: up_def)
  show ?thesis
    using run.more [OF r step.turn, of w] run.more [OF r step.stop, of w] t Looping assms
    by (cases r) (auto simp: main_events_def main_step_def up_def split: option.split)
next
  case Draining
  obtain r w where t: "CompleteWorker (p_world p) = (r, w)" by force
  have r: "run E cfg H B b s es (True, p_world p)" using assms Draining by (simp add: up_def)
  show ?thesis
    using run.more [OF r step.complete, of w] run.more [OF r step.complete_fails, of w] t Draining assms
    by (cases r) (auto simp: main_events_def main_step_def up_def split: future.split)
next
  case Joining
  have r: "run E cfg H B b s es (True, p_world p)" using assms Joining by (simp add: up_def)
  show ?thesis using run.more [OF r step.halt] Joining assms by (auto simp: main_events_def main_step_def up_def)
qed (use assms in \<open>simp_all add: main_events_def main_step_def\<close>)

lemma refines_thread:
  assumes "run E cfg H B b s es (up p, p_world p)" and "process_inv p"
  shows "run E cfg H B b s (es @ thread_events p) (up (thread_step E B p), p_world (thread_step E B p))"
proof (cases "up p")
  case False
  then show ?thesis using assms(1) by (simp add: thread_events_def thread_step_def)
next
  case up: True
  then have r: "run E cfg H B b s es (True, p_world p)" using assms(1) by simp
  show ?thesis
  proof (cases "th_phase (p_thread p)")
    case InPoll
    then show ?thesis using run.more [OF r step.poll] up by (simp add: thread_events_def thread_step_def up_def)
  next
    case (Working t)
    then obtain rq q n where f: "w_future (p_world p) = Submitted rq q n" "t = (rq, q, n)"
      using assms(2) up by (auto simp: process_inv_def task_held_def split: future.split_asm)
    then show ?thesis using run.more [OF r step.work [OF f(1)]] up Working
      by (simp add: thread_events_def thread_step_def up_def run_task_worker)
  qed (use assms(1) up in \<open>auto simp: thread_events_def thread_step_def up_def\<close>)
qed

lemma refines_boot:
  assumes "run E cfg H B b s es (up p, p_world p)" and "\<not> up p" and "q = boot_process E b (p_world p)"
  shows "run E cfg H B b s (es @ [if up q then Restarted else Crashed]) (up q, p_world q)"
proof -
  obtain r w where t: "Recover E (reborn b (p_world p)) = (r, w)" by force
  have r: "run E cfg H B b s es (False, p_world p)" using assms(1,2) by simp
  show ?thesis using run.more [OF r step.boot, of w] run.more [OF r step.boot_fails, of w] t
    by (cases r) (auto simp: assms(3) boot_process_def up_def)
qed

lemma refines_step:
  assumes "process_step E cfg H B b p fs q" and "process_inv p" and "run E cfg H B b s es (up p, p_world p)"
  shows "run E cfg H B b s (es @ fs) (up q, p_world q)"
  using assms(1)
proof cases
  case signal
  then show ?thesis using assms(3) by (simp add: Stop_def up_def)
next
  case killed
  then have "run E cfg H B b s es (True, p_world p)" using assms(3) by simp
  from run.more [OF this step.kill] show ?thesis using killed by (simp add: up_def)
next
  case (others r)
  then show ?thesis using run.more [OF assms(3) step.outside, of r] by (simp add: up_def)
next
  case boots
  then show ?thesis using refines_boot [OF assms(3)] by simp
qed (use assms(2,3) in \<open>simp_all add: refines_main refines_thread\<close>)

lemma refines_run:
  assumes "process_run E cfg H B b p es q" and "p_main p = Dead"
  shows "run E cfg H B b (False, p_world p) es (up q, p_world q)"
  using assms
proof (induction rule: process_run.induct)
  case begin_run
  then show ?case using run.start [of E cfg H B b "(False, p_world p)"] by (simp add: up_def)
next
  case (add_step es q fs r)
  then show ?case using refines_step [OF add_step.hyps(2) inv_run [OF add_step.hyps(1)]] by blast
qed

text \<open>
  C16. The threads refine the runs of the gateway. However the steps of the main thread and of the worker,
  signals, kills, restarts and the outside interleave, there is a run of the gateway with the same events
  and the same world, so that each journaled request is executed at most once (as long as the random
  identifiers drawn do not repeat). While the process is up, the slot and the worker hold exactly the
  task the future waits for, never two, and a job of the journal is running only while the worker has it
  or has just finished it.
\<close>

theorem threads_refine:
  assumes "process_run E cfg H B b p es q" and "p_main p = Dead"
  shows "run E cfg H B b (False, p_world p) es (up q, p_world q) \<and>
    (sound (view_of (p_world p)) \<and> inj_on (\<lambda>k. Hex (w_random (p_world q) k)) {..<w_draws (p_world q)} \<longrightarrow>
       distinct (executed es)) \<and>
    (up q \<longrightarrow> task_held (p_thread q) (w_future (p_world q)) \<and> running_active (p_world q))"
proof -
  note r = refines_run [OF assms]
  have "distinct (executed es)"
    if "sound (view_of (p_world p))" "inj_on (\<lambda>k. Hex (w_random (p_world q) k)) {..<w_draws (p_world q)}"
    using once_run [OF r] that by (simp add: once_inv_def)
  moreover have "process_inv q" by (rule inv_run [OF assms])
  ultimately show ?thesis using r by (auto simp: process_inv_def)
qed

text \<open>A process that has recovered one queued job and handed it to the worker.\<close>

definition dead_process :: "(unit, mock) process" where
  "dead_process = \<lparr>p_main = Dead, p_stop = False, p_thread = started_thread, p_world = queued_world\<rparr>"

lemma busy_process:
  "\<exists>p. process_run exec_env sample_config online (mock_backend exec_env) (MakeMockBackend 2) dead_process [Restarted, Turned] p \<and>
     p_main p = Looping \<and> active_key (p_world p) = ([], ''a'') \<and> (\<exists>rq q n. w_future (p_world p) = Submitted rq q n) \<and>
     w_draws (p_world p) = 1"
proof -
  let ?w = "(reborn (MakeMockBackend 2) queued_world)\<lparr>w_sql := 1\<rparr>"
  let ?p = "\<lparr>p_main = Looping, p_stop = False, p_thread = started_thread, p_world = ?w\<rparr>"
  let ?R = "process_run exec_env sample_config online (mock_backend exec_env) (MakeMockBackend 2) dead_process"
  have b: "boot_process exec_env (MakeMockBackend 2) (p_world dead_process) = ?p"
    using exec_boot by (simp add: boot_process_def dead_process_def)
  have "\<not> up dead_process" by (simp add: up_def dead_process_def)
  from process_run.add_step [OF process_run.begin_run process_step.boots [OF this b [symmetric]]]
  have 1: "?R [Restarted] ?p" by (simp add: up_def)
  obtain w' rq q n where t: "Run_turn exec_env sample_config online ?w = (Some (), w')"
      "w_future w' = Submitted rq q n" "active_key w' = ([], ''a'')" "w_draws w' = 1"
    using exec_turn by blast
  have "main_step exec_env sample_config online ?p = ?p\<lparr>p_world := w', p_thread := Submit (rq, q, n) started_thread\<rparr>"
    using t(1,2) by (simp add: main_step_def handed_def reborn_def)
  moreover have "main_events exec_env sample_config online ?p = [Turned]" using t(1) by (simp add: main_events_def)
  ultimately have "?R [Restarted, Turned] (?p\<lparr>p_world := w', p_thread := Submit (rq, q, n) started_thread\<rparr>)"
    using process_run.add_step [OF 1 process_step.main] by simp
  then show ?thesis using t by fastforce
qed

theorem threads_refine_witness:
  "\<exists>q. process_run exec_env sample_config online (mock_backend exec_env) (MakeMockBackend 2) dead_process [Restarted, Turned] q \<and>
     run exec_env sample_config online (mock_backend exec_env) (MakeMockBackend 2) (False, p_world dead_process) [Restarted, Turned] (up q, p_world q) \<and>
     distinct (executed [Restarted, Turned]) \<and> up q \<and> task_held (p_thread q) (w_future (p_world q)) \<and> running_active (p_world q)"
proof -
  obtain q where q: "process_run exec_env sample_config online (mock_backend exec_env) (MakeMockBackend 2) dead_process [Restarted, Turned] q"
      "p_main q = Looping" "w_draws (p_world q) = 1" using busy_process by blast
  have "up q" using q(2) by (simp add: up_def)
  moreover have "inj_on (\<lambda>k. Hex (w_random (p_world q) k)) {..<w_draws (p_world q)}" by (simp add: q(3) lessThan_Suc)
  moreover have "sound (view_of (p_world dead_process))" using queued_world_sound by (simp add: dead_process_def)
  moreover have "p_main dead_process = Dead" by (simp add: dead_process_def)
  ultimately show ?thesis using threads_refine [OF q(1)] q(1) by (intro exI [of _ q]) simp
qed

subsection \<open>Stopping\<close>

datatype scheduled = MainTurn | WorkerTurn

fun perform :: "env \<Rightarrow> config \<Rightarrow> 'r hiredis \<Rightarrow> 'b backend \<Rightarrow> scheduled list \<Rightarrow> ('r, 'b) process \<Rightarrow> ('r, 'b) process" where
  "perform E cfg H B [] p = p"
| "perform E cfg H B (MainTurn # ts) p = perform E cfg H B ts (main_step E cfg H p)"
| "perform E cfg H B (WorkerTurn # ts) p = perform E cfg H B ts (thread_step E B p)"

definition fair :: "scheduled list \<Rightarrow> bool" where
  "fair ts \<longleftrightarrow> MainTurn \<in> set ts \<and> WorkerTurn \<in> set ts"

text \<open>How many steps the worker needs to finish its task, and the process to end.\<close>

definition pending :: "thread \<Rightarrow> nat" where
  "pending th =
     (case th_task th of
        Some _ \<Rightarrow> if th_phase th = InPoll then 3 else 2
      | None \<Rightarrow> (case th_phase th of Working _ \<Rightarrow> 1 | _ \<Rightarrow> 0))"

definition left :: "('r, 'b) process \<Rightarrow> nat" where
  "left p =
     (case p_main p of
        Looping \<Rightarrow> 8 + pending (p_thread p)
      | Draining \<Rightarrow> 4 + pending (p_thread p)
      | Joining \<Rightarrow> (case th_phase (p_thread p) of InPoll \<Rightarrow> 3 | Waiting \<Rightarrow> 2 | _ \<Rightarrow> 1)
      | _ \<Rightarrow> 0)"

text \<open>The main thread of a process that has to stop can move.\<close>

definition main_ready :: "('r, 'b) process \<Rightarrow> bool" where
  "main_ready p =
     (case p_main p of
        Looping \<Rightarrow> True
      | Draining \<Rightarrow> (case w_future (p_world p) of Submitted _ _ _ \<Rightarrow> False | _ \<Rightarrow> True)
      | Joining \<Rightarrow> th_phase (p_thread p) = Returned
      | _ \<Rightarrow> False)"

definition ending :: "('r, 'b) process \<Rightarrow> bool" where
  "ending p \<longleftrightarrow> process_inv p \<and> p_stop p \<and> (p_main p = Dead \<longrightarrow> (\<exists>w. CompleteWorker w = (None, p_world p)))"

lemma stop_kept: "p_stop (main_step E cfg H p) = p_stop p" "p_stop (thread_step E B p) = p_stop p"
  by (auto simp: main_step_def thread_step_def split: main_phase.split phase.split future.split option.split prod.split)

lemma dies_completing:
  "p_stop p \<Longrightarrow> p_main (main_step E cfg H p) = Dead \<Longrightarrow>
   main_step E cfg H p = p \<or> CompleteWorker (p_world p) = (None, p_world (main_step E cfg H p))"
  by (cases "p_main p") (auto simp: main_step_def split: future.splits option.splits prod.splits if_split_asm)

lemma dead_thread: "p_main (thread_step E B p) = Dead \<Longrightarrow> thread_step E B p = p"
  by (auto simp: thread_step_def up_def split: phase.splits if_split_asm)

lemma ending_steps: "ending p \<Longrightarrow> ending (main_step E cfg H p)" "ending p \<Longrightarrow> ending (thread_step E B p)"
proof -
  assume p: "ending p"
  have "\<exists>w. CompleteWorker w = (None, p_world (main_step E cfg H p))" if "p_main (main_step E cfg H p) = Dead"
    using dies_completing [OF _ that] p that unfolding ending_def by metis
  then show "ending (main_step E cfg H p)" using p by (simp add: ending_def inv_main stop_kept)
next
  assume p: "ending p"
  have "\<exists>w. CompleteWorker w = (None, p_world (thread_step E B p))" if "p_main (thread_step E B p) = Dead"
    using dead_thread [OF that] p that unfolding ending_def by metis
  then show "ending (thread_step E B p)" using p by (simp add: ending_def inv_thread stop_kept)
qed

lemma left_main:
  assumes "ending p"
  shows "if main_ready p then left (main_step E cfg H p) < left p else main_step E cfg H p = p"
proof (cases "p_main p")
  case Draining
  have "left (main_step E cfg H p) < left p" if "main_ready p"
    using that Draining
    by (auto simp: main_ready_def main_step_def left_def split: future.splits option.split prod.split phase.split)
  then show ?thesis using Draining by (auto simp: main_ready_def main_step_def split: future.splits)
qed (use assms in \<open>auto simp: main_ready_def main_step_def left_def ending_def split: phase.split\<close>)

lemma left_thread:
  assumes "ending p" and "up p"
  shows "if main_ready p then left (thread_step E B p) \<le> left p \<and> main_ready (thread_step E B p)
    else left (thread_step E B p) < left p"
proof -
  have i: "task_held (p_thread p) (w_future (p_world p))" "th_stopping (p_thread p) \<longleftrightarrow> p_main p = Joining"
      "th_phase (p_thread p) = Returned \<longrightarrow> p_main p = Joining" "p_main p = Joining \<longrightarrow> w_future (p_world p) = Idle"
    using assms by (auto simp: ending_def process_inv_def)
  show ?thesis
  proof (cases "th_phase (p_thread p)")
    case (Working t)
    obtain s where "w_future (run_task E B t (p_world p)) = Ready s" using run_task_future by blast
    then show ?thesis using i assms(2) Working
      by (cases "p_main p")
        (auto simp: thread_step_def up_def main_ready_def left_def pending_def task_held_def split: future.split_asm)
  qed (use i assms(2) in \<open>cases "p_main p"; auto simp: thread_step_def up_def wake_def main_ready_def left_def pending_def task_held_def
      split: future.split_asm option.split\<close>)+
qed

lemma ending_perform: "ending p \<Longrightarrow> ending (perform E cfg H B ts p)"
  by (induction E cfg H B ts p rule: perform.induct) (simp_all add: ending_steps)

lemma left_steps: "ending p \<Longrightarrow> left (main_step E cfg H p) \<le> left p" "ending p \<Longrightarrow> left (thread_step E B p) \<le> left p"
  using left_main [of p E cfg H] left_thread [of p E B] by (auto split: if_split_asm simp: thread_step_def)

lemma left_perform: "ending p \<Longrightarrow> left (perform E cfg H B ts p) \<le> left p"
proof (induction E cfg H B ts p rule: perform.induct)
  case (2 E cfg H B ts p)
  then show ?case using left_steps(1) [of p E cfg H] ending_steps(1) [of p E cfg H] by simp
next
  case (3 E cfg H B ts p)
  then show ?case using left_steps(2) [of p E B] ending_steps(2) [of p E B] by simp
qed simp

lemma ready_perform:
  assumes "ending p" "main_ready p" "MainTurn \<in> set ts"
  shows "left (perform E cfg H B ts p) < left p"
  using assms
proof (induction E cfg H B ts p rule: perform.induct)
  case (2 E cfg H B ts p)
  then show ?case
    using left_main [of p E cfg H] left_perform [OF ending_steps(1) [of p E cfg H], of E cfg H B ts] by simp
next
  case (3 E cfg H B ts p)
  have "up p" using 3(3) by (auto simp: main_ready_def up_def split: main_phase.split_asm)
  then show ?case using 3 left_thread [of p E B] ending_steps(2) [of p E B] by simp
qed simp

lemma blocked_perform:
  assumes "ending p" "up p" "\<not> main_ready p" "WorkerTurn \<in> set ts"
  shows "left (perform E cfg H B ts p) < left p"
  using assms
proof (induction E cfg H B ts p rule: perform.induct)
  case (2 E cfg H B ts p)
  then show ?case using left_main [of p E cfg H] by simp
next
  case (3 E cfg H B ts p)
  then show ?case
    using left_thread [of p E B] left_perform [OF ending_steps(2) [of p E B], of E cfg H B ts] by simp
qed simp

lemma left_0: "left p = 0 \<longleftrightarrow> \<not> up p"
  by (auto simp: left_def up_def split: main_phase.split phase.split)

lemma left_bound: "left p \<le> 11"
  by (auto simp: left_def pending_def split: main_phase.split phase.split option.split)

lemma perform_append: "perform E cfg H B (ts @ us) p = perform E cfg H B us (perform E cfg H B ts p)"
  by (induction E cfg H B ts p rule: perform.induct) simp_all

lemma left_rounds: "ending p \<Longrightarrow> list_all fair rounds \<Longrightarrow> left (perform E cfg H B (concat rounds) p) \<le> left p - length rounds"
proof (induction rounds arbitrary: p)
  case (Cons ts rounds)
  let ?q = "perform E cfg H B ts p"
  have "left ?q \<le> left p - 1"
    using ready_perform [of p ts E cfg H B] blocked_perform [of p ts E cfg H B] left_perform [of p E cfg H B ts] left_0 [of p] Cons.prems
    by (cases "up p"; cases "main_ready p") (auto simp: fair_def)
  moreover have "left (perform E cfg H B (concat rounds) ?q) \<le> left ?q - length rounds"
    using Cons.IH [OF ending_perform [OF Cons.prems(1)]] Cons.prems(2) by simp
  ultimately show ?case by (simp add: perform_append)
qed simp



end
