(* ===== verification/Schema.thy ===== *)
theory Schema
  imports Common
begin

text \<open>
  The codec between JSON and VPP's native message payloads, and the catalog it is driven by
  (\<open>src/schema.cc\<close>, class \<open>Schema\<close>). The catalog is a JSON value, as in the code. A payload is a run
  of bytes, written as characters; integers are laid out in the host's order, which is taken to be
  little-endian. \<open>None\<close> is an exception of the JSON library (or undefined behaviour), met when the catalog is not of
  the shape the generator gives it. The two directions of the codec are one function, as in the code,
  which takes either the output written so far or the input that is left. Recursion is limited to
  32 levels of type nesting; the model counts the remaining levels down, so \<open>depth\<close> of the code is
  33 less the levels left. When a conversion reports an error, the value it leaves behind is not
  used by any caller; the model leaves the old value.
\<close>

subsection \<open>Reading the catalog\<close>

definition kPayloadLimit :: nat where "kPayloadLimit = kNativePayloadBytes"

definition schema_invalid :: "string \<Rightarrow> status" where
  "schema_invalid message = mk_status ''invalid_params'' message"

text \<open>Iteration over a JSON value: the elements of an array, the values of an object.\<close>

fun jiter :: "json \<Rightarrow> json list" where
  "jiter (JArray xs) = xs"
| "jiter (JObject kvs) = map snd kvs"
| "jiter JNull = []"
| "jiter j = [j]"

text \<open>\<open>get<int>()\<close>, and \<open>value(key, default)\<close> at the types the code uses it with.\<close>

definition to_int32 :: "int \<Rightarrow> int" where
  "to_int32 i = (i + 2 ^ 31) mod 2 ^ 32 - 2 ^ 31"

fun get_int32 :: "json \<Rightarrow> int option" where
  "get_int32 (JBool b) = Some (if b then 1 else 0)"
| "get_int32 (JUint n) = Some (to_int32 (int n))"
| "get_int32 (JInt i) = Some (to_int32 i)"
| "get_int32 (JFloat w) = Some (to_int32 (f64_trunc w))"
| "get_int32 _ = None"

definition value_as :: "(json \<Rightarrow> 'a option) \<Rightarrow> json \<Rightarrow> string \<Rightarrow> 'a \<Rightarrow> 'a option" where
  "value_as get j k d =
     (if \<not> is_object j then None
      else case map_of (jmembers j) k of None \<Rightarrow> Some d | Some v \<Rightarrow> get v)"

definition between :: "char \<Rightarrow> char \<Rightarrow> char \<Rightarrow> bool" where
  "between low high c \<longleftrightarrow> low \<le> c \<and> c \<le> high"

definition Identifier :: "string \<Rightarrow> bool" where
  "Identifier text \<longleftrightarrow> text \<noteq> [] \<and>
     list_all (\<lambda>c. between (CHR ''a'') (CHR ''z'') c \<or> between (CHR ''A'') (CHR ''Z'') c \<or>
       between (CHR ''0'') (CHR ''9'') c \<or> c = CHR ''_'') text \<and>
     \<not> between (CHR ''0'') (CHR ''9'') (hd text)"

definition Type :: "json \<Rightarrow> string \<Rightarrow> json option" where
  "Type S name = map_of (jmembers (jat S ''types'')) name"

text \<open>The names of the fields that hold the length of another field.\<close>

fun Counts :: "json list \<Rightarrow> string list option" where
  "Counts [] = Some []"
| "Counts (field # fs) = do {
     rest \<leftarrow> Counts fs;
     (if contains field ''count'' then do { c \<leftarrow> get_string (jat field ''count''); Some (c # rest) } else Some rest) }"

subsection \<open>Layout queries\<close>

text \<open>A product in \<open>int64_t\<close>; overflow is undefined behaviour, \<open>None\<close>.\<close>

definition int64_mult :: "int \<Rightarrow> int \<Rightarrow> int option" where
  "int64_mult a b = (if - (2 ^ 63) \<le> a * b \<and> a * b < 2 ^ 63 then Some (a * b) else None)"

definition field_size :: "(string \<Rightarrow> int option) \<Rightarrow> json \<Rightarrow> int option" where
  "field_size size_of field = do {
     part \<leftarrow> (if json_eq (jat field ''type'') (JString ''string'') \<and> contains field ''length'' \<and>
                 \<not> json_eq (jat field ''length'') (JInt 0)
              then get_int64 (jat field ''length'')
              else do {
                t \<leftarrow> get_string (jat field ''type'');
                s \<leftarrow> size_of t;
                n \<leftarrow> value_as get_int64 field ''length'' 1;
                int64_mult s n });
     n32 \<leftarrow> (if json_eq (jat field ''type'') (JString ''string'') then value_as get_int32 field ''length'' 0 else Some 1);
     Some (if n32 = 0 then 4 else part) }"

fun fixed_fields :: "(string \<Rightarrow> int option) \<Rightarrow> bool \<Rightarrow> json list \<Rightarrow> int \<Rightarrow> int option" where
  "fixed_fields size_of overlay [] acc = Some acc"
| "fixed_fields size_of overlay (field # fs) acc = do {
     part \<leftarrow> field_size size_of field;
     if part < 0 \<or> int kPayloadLimit < part then Some (- 1)
     else fixed_fields size_of overlay fs (if overlay then max acc part else acc + part) }"

fun fixed_size :: "json \<Rightarrow> nat \<Rightarrow> string \<Rightarrow> int option" where
  "fixed_size S 0 name = Some (- 1)"
| "fixed_size S (Suc levels) name =
     (if name \<in> {''bool'', ''u8'', ''i8''} then Some 1
      else if name \<in> {''u16'', ''i16''} then Some 2
      else if name \<in> {''u32'', ''i32'', ''f32'', ''string''} then Some 4
      else if name \<in> {''u64'', ''i64'', ''f64''} then Some 8
      else case Type S name of
        None \<Rightarrow> Some (- 1)
      | Some type \<Rightarrow> do {
          kind \<leftarrow> get_string (jat type ''kind'');
          if kind = ''alias'' \<or> kind = ''enum'' then do {
            t \<leftarrow> get_string (jat type ''type'');
            s \<leftarrow> fixed_size S levels t;
            n \<leftarrow> value_as get_int64 type ''length'' 1;
            if s < 0 then Some (- 1) else int64_mult s n }
          else fixed_fields (fixed_size S levels) (kind = ''union'') (jiter (jat type ''fields'')) 0 })"

definition FixedSize :: "json \<Rightarrow> string \<Rightarrow> int option" where
  "FixedSize S name = fixed_size S 33 name"

fun any_field :: "(json \<Rightarrow> bool option) \<Rightarrow> json list \<Rightarrow> bool option" where
  "any_field f [] = Some False"
| "any_field f (x # xs) = do { b \<leftarrow> f x; if b then Some True else any_field f xs }"

definition variable_field :: "(string \<Rightarrow> bool option) \<Rightarrow> json \<Rightarrow> bool option" where
  "variable_field variable field = do {
     fixed \<leftarrow> (if json_eq (jat field ''type'') (JString ''string'')
               then map_option (\<lambda>n. 0 < n) (value_as get_int32 field ''length'' 0) else Some False);
     if fixed then Some False
     else do {
       n \<leftarrow> value_as get_int32 field ''length'' (- 1);
       if n = 0 then Some True
       else do { t \<leftarrow> get_string (jat field ''type''); variable t } } }"

fun variable_at :: "json \<Rightarrow> nat \<Rightarrow> string \<Rightarrow> bool option" where
  "variable_at S 0 name = Some True"
| "variable_at S (Suc levels) name =
     (if name = ''string'' then Some True
      else case Type S name of
        None \<Rightarrow> Some False
      | Some type \<Rightarrow>
          if json_eq (jat type ''kind'') (JString ''alias'') then do {
            t \<leftarrow> get_string (jat type ''type'');
            variable_at S levels t }
          else if \<not> contains type ''fields'' then Some False
          else any_field (variable_field (variable_at S levels)) (jiter (jat type ''fields'')))"

definition Variable :: "json \<Rightarrow> string \<Rightarrow> bool option" where
  "Variable S name = variable_at S 33 name"

fun has_interface :: "json \<Rightarrow> nat \<Rightarrow> string \<Rightarrow> bool option" where
  "has_interface S levels name =
     (if name = ''vl_api_interface_index_t'' then Some True
      else case levels of
        0 \<Rightarrow> Some False
      | Suc rest \<Rightarrow>
          (case Type S name of
             None \<Rightarrow> Some False
           | Some type \<Rightarrow>
               if json_eq (jat type ''kind'') (JString ''alias'') then do {
                 t \<leftarrow> get_string (jat type ''type'');
                 has_interface S rest t }
               else any_field (\<lambda>field. do { t \<leftarrow> get_string (jat field ''type''); has_interface S rest t })
                      (jiter (jvalue type ''fields'' (JArray [])))))"

declare has_interface.simps [simp del]

definition HasInterface :: "json \<Rightarrow> string \<Rightarrow> bool option" where
  "HasInterface S name = has_interface S 33 name"

subsection \<open>Native numbers\<close>

text \<open>The types \<open>T\<close> of \<open>Number<T>\<close>: integers of a width in bytes, and the two floating types.\<close>

datatype native = UInt nat | SInt nat | Float32 | Float64

datatype io = Enc string | Dec string

fun encoding :: "io \<Rightarrow> bool" where
  "encoding (Enc _) = True"
| "encoding (Dec _) = False"

type_synonym conversion = "(status \<times> json \<times> io) option"

text \<open>
  \<open>Bytes\<close>: append the bytes to the output, or take as many from the input; the bytes it returns are
  those in memory afterwards.
\<close>

fun Bytes :: "string \<Rightarrow> io \<Rightarrow> status \<times> string \<times> io" where
  "Bytes data (Enc out) =
     (if kPayloadLimit < length data \<or> kPayloadLimit - length data < length out then
        (mk_status ''payload_too_large'' ''Native payload exceeds adapter limit'', data, Enc out)
      else (Ok, data, Enc (out @ data)))"
| "Bytes data (Dec inp) =
     (if length inp < length data then (mk_status ''invalid_reply'' ''Truncated native payload'', data, Dec inp)
      else (Ok, take (length data) inp, Dec (drop (length data) inp)))"

definition word_bytes :: "nat \<Rightarrow> int \<Rightarrow> string" where
  "word_bytes n i = map char_of (le_bytes n (nat (i mod 256 ^ n)))"

definition bytes_word :: "string \<Rightarrow> nat" where
  "bytes_word bs = of_le_bytes (map of_char bs)"

definition signed_word :: "nat \<Rightarrow> nat \<Rightarrow> int" where
  "signed_word n u = (if 2 * u < 256 ^ n then int u else int u - 256 ^ n)"

text \<open>Conversion between the two floating types, to nearest with ties to even.\<close>

definition f32_of_f64 :: "64 word \<Rightarrow> nat" where
  "f32_of_f64 w =
     (let s = (if f64_neg w then 2 ^ 31 else 0); e = f64_exp w; m = f64_mant w + (if e = 0 then 0 else 2 ^ 52) in
      if 897 \<le> e then s + (e - 896) * 2 ^ 23 + (round_even m 29 - 2 ^ 23)
      else s + round_even m (29 + (897 - (if e = 0 then 1 else e))))"

definition f64_of_f32 :: "nat \<Rightarrow> 64 word" where
  "f64_of_f32 u =
     (let s = (if 2 ^ 31 \<le> u then 2 ^ 63 else 0); e = u div 2 ^ 23 mod 2 ^ 8; m = u mod 2 ^ 23 in
      of_nat (if e = 255 then s + 2047 * 2 ^ 52 + m * 2 ^ 29
              else if e \<noteq> 0 then s + (e + 896) * 2 ^ 52 + m * 2 ^ 29
              else if m = 0 then s
              else s + (top_bit m + 874) * 2 ^ 52 + (m - 2 ^ top_bit m) * 2 ^ (52 - top_bit m)))"

text \<open>\<open>std::from_chars\<close>: the longest run of digits; \<open>None\<close> without a digit or out of range.\<close>

definition digit_value :: "char \<Rightarrow> nat" where
  "digit_value c = (let n = of_char c in if 97 \<le> n \<and> n \<le> 122 then n - 87 else if 65 \<le> n \<and> n \<le> 90 then n - 55
     else if 48 \<le> n \<and> n \<le> 57 then n - 48 else 36)"

definition from_chars_nat :: "nat \<Rightarrow> nat \<Rightarrow> string \<Rightarrow> (nat \<times> string) option" where
  "from_chars_nat base limit s =
     (let digits = takeWhile (\<lambda>c. digit_value c < base) s;
          n = foldl (\<lambda>acc c. base * acc + digit_value c) 0 digits in
      if digits = [] \<or> limit \<le> n then None else Some (n, drop (length digits) s))"

definition from_chars_int :: "string \<Rightarrow> (int \<times> string) option" where
  "from_chars_int s =
     (case s of
        c # t \<Rightarrow> if c = CHR ''-''
          then map_option (\<lambda>(n, rest). (- int n, rest)) (from_chars_nat 10 (2 ^ 63 + 1) t)
          else map_option (\<lambda>(n, rest). (int n, rest)) (from_chars_nat 10 (2 ^ 63) s)
      | [] \<Rightarrow> None)"

fun get_double :: "json \<Rightarrow> 64 word" where
  "get_double (JFloat w) = w"
| "get_double (JInt i) = f64_of_int i"
| "get_double (JUint n) = f64_of_int (int n)"
| "get_double _ = 0"

definition integer_bytes :: "nat \<Rightarrow> int \<Rightarrow> int \<Rightarrow> json \<Rightarrow> status \<times> string" where
  "integer_bytes n low high v =
     (let i = (case v of JUint u \<Rightarrow> int u | JInt i \<Rightarrow> i | _ \<Rightarrow> 0) in
      if \<not> is_number_integer v then (schema_invalid ''Expected an integer'', word_bytes n 0)
      else if (\<not> is_number_unsigned v \<and> i < low) \<or> high < i then (schema_invalid ''Integer is out of range'', word_bytes n 0)
      else (Ok, word_bytes n i))"

definition decimal_bytes :: "(int \<times> string) option \<Rightarrow> status \<times> string" where
  "decimal_bytes parsed =
     (case parsed of
        Some (i, []) \<Rightarrow> (Ok, word_bytes 8 i)
      | _ \<Rightarrow> (schema_invalid ''Invalid decimal integer'', word_bytes 8 0))"

text \<open>The native value of a JSON number, in memory.\<close>

fun number_bytes :: "native \<Rightarrow> json \<Rightarrow> status \<times> string" where
  "number_bytes (UInt n) v =
     (if n = 8 then
        (if \<not> is_string v then (schema_invalid ''64-bit integers must be decimal strings'', word_bytes 8 0)
         else decimal_bytes (map_option (\<lambda>(u, rest). (int u, rest)) (from_chars_nat 10 (2 ^ 64) (jtext v))))
      else integer_bytes n 0 (256 ^ n - 1) v)"
| "number_bytes (SInt n) v =
     (if n = 8 then
        (if \<not> is_string v then (schema_invalid ''64-bit integers must be decimal strings'', word_bytes 8 0)
         else decimal_bytes (from_chars_int (jtext v)))
      else integer_bytes n (- (256 ^ n div 2)) (256 ^ n div 2 - 1) v)"
| "number_bytes Float32 v =
     (if \<not> is_number v then (schema_invalid ''Expected a finite number'', word_bytes 4 0)
      else if \<not> f64_finite (get_double v) \<or> 0x47EFFFFFE0000000 < unat (get_double v) mod 2 ^ 63 then
        (schema_invalid ''Number is out of range'', word_bytes 4 0)
      else (Ok, word_bytes 4 (int (f32_of_f64 (get_double v)))))"
| "number_bytes Float64 v =
     (if \<not> is_number v then (schema_invalid ''Expected a finite number'', word_bytes 8 0)
      else if \<not> f64_finite (get_double v) then (schema_invalid ''Number is out of range'', word_bytes 8 0)
      else (Ok, word_bytes 8 (uint (get_double v))))"

fun native_size :: "native \<Rightarrow> nat" where
  "native_size (UInt n) = n"
| "native_size (SInt n) = n"
| "native_size Float32 = 4"
| "native_size Float64 = 8"

fun number_json :: "native \<Rightarrow> string \<Rightarrow> json" where
  "number_json (UInt n) bs = (if n = 8 then JString (to_string (bytes_word bs)) else JUint (bytes_word bs))"
| "number_json (SInt n) bs =
     (if n = 8 then JString (int_to_string (signed_word 8 (bytes_word bs))) else JInt (signed_word n (bytes_word bs)))"
| "number_json Float32 bs = JFloat (f64_of_f32 (bytes_word bs))"
| "number_json Float64 bs = JFloat (of_nat (bytes_word bs))"

definition Number :: "native \<Rightarrow> json \<Rightarrow> io \<Rightarrow> status \<times> json \<times> io" where
  "Number T v io =
     (let (st, data) = (if encoding io then number_bytes T v else (Ok, replicate (native_size T) (CHR 0x00))) in
      if \<not> st_ok st then (st, v, io)
      else
        (let (st, data, io') = Bytes data io in
         if \<not> st_ok st then (st, v, io')
         else if encoding io then (Ok, v, io')
         else
           (let result = number_json T data in
            case result of
              JFloat w \<Rightarrow> if \<not> f64_finite w then (mk_status ''invalid_reply'' ''VPP returned a nonfinite number'', result, io')
                         else (Ok, result, io')
            | _ \<Rightarrow> (Ok, result, io'))))"

definition native_type :: "string \<Rightarrow> native option" where
  "native_type name =
     map_of [(''u8'', UInt 1), (''i8'', SInt 1), (''u16'', UInt 2), (''i16'', SInt 2), (''u32'', UInt 4),
       (''i32'', SInt 4), (''u64'', UInt 8), (''i64'', SInt 8), (''f32'', Float32), (''f64'', Float64)] name"

subsection \<open>Addresses and names\<close>

text \<open>
  \<open>inet_pton\<close> and \<open>inet_ntop\<close> for both families; \<open>interface_index\<close> and \<open>interface_name\<close> are the
  callbacks of \<open>struct Symbols\<close>, absent when the \<open>std::function\<close> is empty.
\<close>

record inet =
  pton4 :: "string \<Rightarrow> string option"
  pton6 :: "string \<Rightarrow> string option"
  ntop4 :: "string \<Rightarrow> string option"
  ntop6 :: "string \<Rightarrow> string option"

record symbols =
  interface_index :: "(string \<Rightarrow> status \<times> nat) option"
  interface_name :: "(nat \<Rightarrow> status \<times> string) option"

definition c_str :: "string \<Rightarrow> string" where
  "c_str s = takeWhile (\<lambda>c. c \<noteq> CHR 0x00) s"

fun mac_bytes :: "nat \<Rightarrow> string \<Rightarrow> string option" where
  "mac_bytes 0 s = Some []"
| "mac_bytes (Suc n) s =
     (case from_chars_nat 16 (2 ^ 32) (take 2 s) of
        Some (b, []) \<Rightarrow>
          if 0 < n \<and> s ! 2 \<noteq> CHR '':'' then None
          else map_option (\<lambda>bs. char_of b # bs) (mac_bytes n (drop 3 s))
      | _ \<Rightarrow> None)"

fun mac_text :: "string \<Rightarrow> string" where
  "mac_text [] = []"
| "mac_text [b] = hex_byte b"
| "mac_text (b # bs) = hex_byte b @ '':'' @ mac_text bs"

definition address_size :: "string \<Rightarrow> nat option" where
  "address_size name =
     map_of [(''vl_api_ip4_address_t'', 4), (''vl_api_ip6_address_t'', 16), (''vl_api_mac_address_t'', 6)] name"

definition address_bytes :: "inet \<Rightarrow> nat \<Rightarrow> json \<Rightarrow> status \<times> string" where
  "address_bytes N n v =
     (if \<not> is_string v then (schema_invalid ''Expected a textual address'', [])
      else if n = 6 then
        (if length (jtext v) \<noteq> 17 then (schema_invalid ''Invalid MAC address'', [])
         else case mac_bytes 6 (jtext v) of
                None \<Rightarrow> (schema_invalid ''Invalid MAC address'', [])
              | Some bs \<Rightarrow> (Ok, bs))
      else case (if n = 4 then pton4 N else pton6 N) (c_str (jtext v)) of
             None \<Rightarrow> (schema_invalid ''Invalid IP address'', [])
           | Some bs \<Rightarrow> (Ok, bs))"

definition convert_address :: "inet \<Rightarrow> nat \<Rightarrow> json \<Rightarrow> io \<Rightarrow> status \<times> json \<times> io" where
  "convert_address N n v io =
     (let (st, data) = (if encoding io then address_bytes N n v else (Ok, replicate n (CHR 0x00))) in
      if \<not> st_ok st then (st, v, io)
      else
        (let (st, bs, io') = Bytes data io in
         if \<not> st_ok st then (st, v, io')
         else if encoding io then (Ok, v, io')
         else if n = 6 then (Ok, JString (mac_text bs), io')
         else case (if n = 4 then ntop4 N else ntop6 N) bs of
                None \<Rightarrow> (mk_status ''invalid_reply'' ''Invalid IP address'', v, io')
              | Some t \<Rightarrow> (Ok, JString t, io')))"

definition convert_bool :: "json \<Rightarrow> io \<Rightarrow> status \<times> json \<times> io" where
  "convert_bool v io =
     (if encoding io \<and> \<not> is_boolean v then (schema_invalid ''Expected a boolean'', v, io)
      else
        (let (st, bs, io') = Bytes [if encoding io \<and> v = JBool True then CHR 0x01 else CHR 0x00] io in
         if \<not> st_ok st then (st, v, io')
         else if 1 < (of_char (hd bs) :: nat) then (mk_status ''invalid_reply'' ''Noncanonical boolean'', v, io')
         else (Ok, JBool (hd bs \<noteq> CHR 0x00), io')))"

definition convert_string :: "json \<Rightarrow> io \<Rightarrow> status \<times> json \<times> io" where
  "convert_string v io =
     (if encoding io \<and> \<not> is_string v then (schema_invalid ''Expected a string'', v, io)
      else
        (let (st, bs, io1) = Bytes (word_bytes 4 (if encoding io then int (length (jtext v)) else 0)) io;
             n = bytes_word bs in
         if \<not> st_ok st then (st, v, io1)
         else if kPayloadLimit < n then (mk_status ''payload_too_large'' ''String exceeds adapter limit'', v, io1)
         else
           (let (st, text_bytes, io2) = Bytes (if encoding io then take n (jtext v) else replicate n (CHR 0x00)) io1 in
            (st, if encoding io then v else JString text_bytes, io2))))"

definition convert_interface :: "symbols \<Rightarrow> json \<Rightarrow> io \<Rightarrow> status \<times> json \<times> io" where
  "convert_interface syms v io =
     (let unavailable = mk_status ''resource_not_found'' ''Interface resolver unavailable'';
          (st, index) =
            (if \<not> encoding io then (Ok, 0)
             else if \<not> is_string v then (schema_invalid ''Use an interface name or @all, not a numeric index'', 0)
             else if v = JString ''@all'' then (Ok, UINT32_MAX)
             else case interface_index syms of None \<Rightarrow> (unavailable, 0) | Some f \<Rightarrow> f (jtext v)) in
      if \<not> st_ok st then (st, v, io)
      else
        (let (st, bs, io') = Bytes (word_bytes 4 (int index)) io in
         if \<not> st_ok st then (st, v, io')
         else if encoding io then (Ok, v, io')
         else if bytes_word bs = UINT32_MAX then (Ok, JString ''@all'', io')
         else case interface_name syms of
                None \<Rightarrow> (unavailable, v, io')
              | Some f \<Rightarrow> (let (st, t) = f (bytes_word bs) in if \<not> st_ok st then (st, v, io') else (Ok, JString t, io'))))"

subsection \<open>Types of the catalog\<close>

text \<open>The recursive call: type, value, direction and discriminator.\<close>

type_synonym converter = "string \<Rightarrow> json \<Rightarrow> io \<Rightarrow> json option \<Rightarrow> conversion"

fun convert_items :: "converter \<Rightarrow> string \<Rightarrow> json list \<Rightarrow> io \<Rightarrow> (status \<times> json list \<times> io) option" where
  "convert_items rec t [] io = Some (Ok, [], io)"
| "convert_items rec t (x # xs) io = do {
     (st, y, io1) \<leftarrow> rec t x io None;
     if \<not> st_ok st then Some (st, [], io1)
     else do {
       (st', ys, io2) \<leftarrow> convert_items rec t xs io1;
       Some (st', y # ys, io2) } }"

definition convert_alias :: "converter \<Rightarrow> json \<Rightarrow> json \<Rightarrow> io \<Rightarrow> json option \<Rightarrow> conversion" where
  "convert_alias rec type v io tag = do {
     t \<leftarrow> get_string (jat type ''type'');
     if \<not> contains type ''length'' then rec t v io tag
     else do {
       count \<leftarrow> get_uint64 (jat type ''length'');
       if encoding io \<and> (\<not> is_array v \<or> jsize v \<noteq> count) then
         Some (schema_invalid ''Wrong fixed array length'', v, io)
       else do {
         (st, items, io') \<leftarrow> convert_items rec t (if encoding io then jelems v else replicate count JNull) io;
         Some (st, if encoding io \<or> \<not> st_ok st then v else JArray items, io') } } }"

fun flag_bits :: "json \<Rightarrow> json list \<Rightarrow> string list \<Rightarrow> nat \<Rightarrow> (status \<times> nat) option" where
  "flag_bits values [] seen bits = Some (Ok, bits)"
| "flag_bits values (symbol # xs) seen bits =
     (if \<not> is_string symbol \<or> \<not> contains values (jtext symbol) \<or> jtext symbol \<in> set seen then
        Some (schema_invalid ''Unknown or duplicate flag'', bits)
      else do {
        b \<leftarrow> get_uint64 (jat values (jtext symbol));
        flag_bits values xs (jtext symbol # seen) (or bits b) })"

definition enum_numeric :: "env \<Rightarrow> json \<Rightarrow> json \<Rightarrow> bool \<Rightarrow> json \<Rightarrow> (status \<times> json) option" where
  "enum_numeric E type values flags v = do {
     (st, numeric) \<leftarrow>
       (if flags then
          (if \<not> is_array v then Some (schema_invalid ''Flags must be an array of symbolic names'', JNull)
           else map_option (\<lambda>(st, bits). (st, JUint bits)) (flag_bits values (jelems v) [] 0))
        else if \<not> is_string v \<or> \<not> contains values (jtext v) then
          Some (schema_invalid ''Unknown enum symbol'', JNull)
        else Some (Ok, jat values (jtext v)));
     if \<not> st_ok st then Some (st, JNull)
     else if json_eq (jat type ''type'') (JString ''u64'') \<or> json_eq (jat type ''type'') (JString ''i64'') then
       map_option (\<lambda>t. (Ok, JString t)) (dump E numeric)
     else Some (Ok, numeric) }"

fun flag_names :: "nat \<Rightarrow> (string \<times> json) list \<Rightarrow> nat \<Rightarrow> (string list \<times> nat) option" where
  "flag_names bits [] remaining = Some ([], remaining)"
| "flag_names bits ((k, v) # kvs) remaining = do {
     bit \<leftarrow> get_uint64 v;
     if bit \<noteq> 0 \<and> and bit (bit - 1) = 0 \<and> and bits bit \<noteq> 0 then
       map_option (\<lambda>(names, r). (k # names, r)) (flag_names bits kvs (xor remaining (and remaining bit)))
     else flag_names bits kvs remaining }"

definition enum_symbol :: "json \<Rightarrow> bool \<Rightarrow> json \<Rightarrow> (status \<times> json) option" where
  "enum_symbol values flags numeric =
     (case (case numeric of JString t \<Rightarrow> Some (map_option fst (from_chars_nat 10 (2 ^ 64) t))
            | _ \<Rightarrow> map_option Some (get_uint64 numeric)) of
        None \<Rightarrow> None
      | Some None \<Rightarrow> Some (mk_status ''invalid_reply'' ''Invalid enum representation'', JNull)
      | Some (Some bits) \<Rightarrow>
          if flags then do {
            (names, remaining) \<leftarrow> flag_names bits (jmembers values) bits;
            Some (if remaining \<noteq> 0 then (mk_status ''unknown_enum'' ''VPP returned unknown flag bits'', JNull)
                  else (Ok, JArray (map JString names))) }
          else
            Some (case find (\<lambda>(k, x). json_eq x numeric \<or> is_number_unsigned x \<and> get_uint64 x = Some bits) (jmembers values) of
                    Some (k, x) \<Rightarrow> (Ok, JString k)
                  | None \<Rightarrow> (mk_status ''unknown_enum'' ''VPP returned an unknown enum value'', JNull)))"

definition convert_enum :: "env \<Rightarrow> converter \<Rightarrow> json \<Rightarrow> json \<Rightarrow> io \<Rightarrow> conversion" where
  "convert_enum E rec type v io = do {
     let values = jat type ''values'';
     flags \<leftarrow> value_as get_bool type ''flags'' False;
     (st, numeric) \<leftarrow> (if encoding io then enum_numeric E type values flags v else Some (Ok, JNull));
     if \<not> st_ok st then Some (st, v, io)
     else do {
       t \<leftarrow> get_string (jat type ''type'');
       (st, numeric, io') \<leftarrow> rec t numeric io None;
       if \<not> st_ok st \<or> encoding io then Some (st, v, io')
       else do {
         (st, symbol) \<leftarrow> enum_symbol values flags numeric;
         Some (st, if st_ok st then symbol else v, io') } } }"

definition PublicDefault :: "env \<Rightarrow> json \<Rightarrow> json \<Rightarrow> json option" where
  "PublicDefault E S field = do {
     let v = jat field ''default'';
     type \<leftarrow> get_string (jat field ''type'');
     let plain = (if (type = ''u64'' \<or> type = ''i64'') \<and> is_number_integer v
                  then map_option JString (dump E v) else Some v);
     if type = ''bool'' \<and> json_eq v (JString ''true'') then Some (JBool True)
     else if type = ''bool'' \<and> json_eq v (JString ''false'') then Some (JBool False)
     else if type = ''vl_api_interface_index_t'' \<and> json_eq v (JUint UINT32_MAX) then Some (JString ''@all'')
     else case Type S type of
       None \<Rightarrow> plain
     | Some definition_type \<Rightarrow>
         if \<not> json_eq (jat definition_type ''kind'') (JString ''enum'') then plain
         else do {
           flags \<leftarrow> value_as get_bool definition_type ''flags'' False;
           if flags \<and> json_eq v (JInt 0) then Some (JArray [])
           else case find (\<lambda>(k, x). json_eq x v) (jmembers (jat definition_type ''values'')) of
                  Some (k, x) \<Rightarrow> Some (JString k)
                | None \<Rightarrow> plain } }"

text \<open>The text of an address or of a prefix, as the structure the catalog describes.\<close>

definition prefix_value :: "string \<Rightarrow> status \<times> json" where
  "prefix_value s =
     (let after = rev (takeWhile (\<lambda>c. c \<noteq> CHR ''/'') (rev s)); ip = take (length s - length after - 1) s in
      if CHR ''/'' \<notin> set s then (schema_invalid ''Expected CIDR prefix'', JNull)
      else case from_chars_nat 10 (2 ^ 32) after of
             Some (n, []) \<Rightarrow>
               if n > (if CHR '':'' \<in> set ip then 128 else 32) then (schema_invalid ''Invalid prefix length'', JNull)
               else (Ok, jobj [(''address'', JString ip), (''len'', JUint n)])
           | _ \<Rightarrow> (schema_invalid ''Invalid prefix length'', JNull))"

definition address_value :: "string \<Rightarrow> json" where
  "address_value s =
     (let ipv6 = CHR '':'' \<in> set s in
      jobj [(''af'', JString (if ipv6 then ''ADDRESS_IP6'' else ''ADDRESS_IP4'')),
            (''un'', jobj [(if ipv6 then ''ip6'' else ''ip4'', JString s)])])"

definition is_address :: "string \<Rightarrow> bool" where
  "is_address name \<longleftrightarrow> name = ''vl_api_address_t''"

definition is_prefix :: "string \<Rightarrow> bool" where
  "is_prefix name \<longleftrightarrow> name \<in> {''vl_api_prefix_t'', ''vl_api_ip4_prefix_t'', ''vl_api_ip6_prefix_t''}"

definition textual_value :: "string \<Rightarrow> json \<Rightarrow> status \<times> json" where
  "textual_value name v =
     (if \<not> is_string v then (schema_invalid ''Expected textual IP address or prefix'', v)
      else if is_prefix name then prefix_value (jtext v)
      else (Ok, address_value (jtext v)))"

text \<open>Unions: the last field that matches is the member.\<close>

definition union_encode :: "converter \<Rightarrow> nat \<Rightarrow> json list \<Rightarrow> json \<Rightarrow> io \<Rightarrow> json option \<Rightarrow> conversion" where
  "union_encode rec sz fs v io tag =
     (if \<not> is_object v \<or> jsize v \<noteq> 1 then
        Some (schema_invalid ''Union must select exactly one named member'', v, io)
      else if \<not> list_all (\<lambda>f. is_string (jat f ''name'')) fs then None
      else case filter (\<lambda>f. contains v (jtext (jat f ''name''))) fs of
        [] \<Rightarrow> Some (schema_invalid ''Unknown union member'', v, io)
      | m # ms \<Rightarrow>
          (let member = last (m # ms) in
           if tag \<noteq> None \<and> contains member ''case'' \<and> \<not> json_eq (jat member ''case'') (the tag) then
             Some (schema_invalid ''Union member disagrees with discriminator'', v, io)
           else do {
             t \<leftarrow> get_string (jat member ''type'');
             (st, _, bs) \<leftarrow> rec t (jat v (jtext (jat member ''name''))) (Enc []) None;
             if \<not> st_ok st then Some (st, v, io)
             else
               (let data = (case bs of Enc out \<Rightarrow> out | Dec _ \<Rightarrow> []);
                    (st, _, io') = Bytes (take sz (data @ replicate sz (CHR 0x00))) io in
                Some (st, v, io')) }))"

definition union_decode :: "converter \<Rightarrow> nat \<Rightarrow> json list \<Rightarrow> string \<Rightarrow> json option \<Rightarrow> conversion" where
  "union_decode rec sz fs inp tag =
     (case filter (\<lambda>f. tag \<noteq> None \<and> contains f ''case'' \<and> json_eq (jat f ''case'') (the tag)) fs of
        [] \<Rightarrow> Some (mk_status ''unsupported_type'' ''Reply union needs an explicit discriminator'', JNull, Dec inp)
      | m # ms \<Rightarrow>
          (let member = last (m # ms) in
           if length inp < sz then Some (mk_status ''invalid_reply'' ''Truncated union'', JNull, Dec inp)
           else do {
             t \<leftarrow> get_string (jat member ''type'');
             (st, item, _) \<leftarrow> rec t JNull (Dec (take sz inp)) None;
             if \<not> st_ok st then Some (st, JNull, Dec inp)
             else do {
               k \<leftarrow> get_string (jat member ''name'');
               Some (Ok, JObject [(k, item)], Dec (drop sz inp)) } }))"

definition convert_union ::
  "json \<Rightarrow> converter \<Rightarrow> string \<Rightarrow> json \<Rightarrow> json \<Rightarrow> io \<Rightarrow> json option \<Rightarrow> conversion" where
  "convert_union S rec name type v io tag = do {
     sz \<leftarrow> FixedSize S name;
     variable \<leftarrow> (if sz < 0 then Some True else Variable S name);
     if sz < 0 \<or> variable then Some (mk_status ''unsupported_type'' ''Variable union unsupported'', v, io)
     else case io of
            Enc _ \<Rightarrow> union_encode rec (nat sz) (jiter (jat type ''fields'')) v io tag
          | Dec inp \<Rightarrow> union_decode rec (nat sz) (jiter (jat type ''fields'')) inp tag }"

subsection \<open>Structures\<close>

definition prefix_message :: "string \<Rightarrow> status \<Rightarrow> status" where
  "prefix_message field_name st = mk_status (st_code st) (field_name @ '': '' @ st_message st)"

definition fixed_string :: "json \<Rightarrow> json \<Rightarrow> io \<Rightarrow> conversion" where
  "fixed_string field item io = do {
     sz \<leftarrow> get_uint64 (jat field ''length'');
     if kPayloadLimit < sz then Some (schema_invalid ''String size exceeds limit'', item, io)
     else if encoding io \<and> (\<not> is_string item \<or> sz \<le> length (jtext item) \<or> CHR 0x00 \<in> set (jtext item)) then
       Some (schema_invalid ''Fixed string is too long or contains NUL'', item, io)
     else do {
       name \<leftarrow> get_string (jat field ''name'');
       let (st, bs, io') = Bytes (if encoding io then jtext item @ replicate (sz - length (jtext item)) (CHR 0x00)
                                  else replicate sz (CHR 0x00)) io;
       Some (if st_ok st then st else prefix_message name st,
             if encoding io then item else JString (c_str bs), io') } }"

text \<open>The number of elements: declared, or in the member named by \<open>count\<close>; \<open>Some None\<close> when that is not there.\<close>

definition array_count :: "json \<Rightarrow> json \<Rightarrow> nat option option" where
  "array_count field object = do {
     declared \<leftarrow> get_uint64 (jat field ''length'');
     if \<not> contains field ''count'' then Some (Some declared)
     else do {
       counter \<leftarrow> get_string (jat field ''count'');
       if \<not> contains object counter \<or> \<not> is_number_integer (jat object counter) then Some None
       else map_option Some (get_uint64 (jat object counter)) } }"

definition convert_array :: "converter \<Rightarrow> json \<Rightarrow> json \<Rightarrow> json \<Rightarrow> io \<Rightarrow> conversion" where
  "convert_array rec field object item io = do {
     name \<leftarrow> get_string (jat field ''name'');
     t \<leftarrow> get_string (jat field ''type'');
     count \<leftarrow> array_count field object;
     (case count of
        None \<Rightarrow> Some (mk_status ''unsupported_type'' ''Array count must precede its array'', item, io)
      | Some n \<Rightarrow>
          if kPayloadLimit < n \<or> encoding io \<and> (\<not> is_array item \<or> jsize item \<noteq> n) then
            Some (schema_invalid (''Invalid array length: '' @ name), item, io)
          else do {
            (st, items, io') \<leftarrow> convert_items rec t (if encoding io then jelems item else replicate n JNull) io;
            Some (if st_ok st then st else prefix_message name st, if encoding io then item else JArray items, io') }) }"

text \<open>The discriminator a field is converted under; \<open>None\<close> for the rejected protocol.\<close>

definition selected_tag :: "string \<Rightarrow> json \<Rightarrow> json \<Rightarrow> json option \<Rightarrow> json option option option" where
  "selected_tag name field object tag = do {
     field_name \<leftarrow> get_string (jat field ''name'');
     t \<leftarrow> get_string (jat field ''type'');
     discriminator \<leftarrow> value_as get_string field ''discriminator'' (if t = ''vl_api_address_union_t'' then ''af'' else []);
     let member = (\<lambda>k. if contains object k then Some (jat object k) else None);
     Some
       (if name = ''vl_api_fib_path_nh_t'' \<and> field_name = ''address'' \<and> tag \<noteq> None then
          (if json_eq (the tag) (JString ''FIB_API_PATH_NH_PROTO_IP4'') then Some (Some (JString ''ADDRESS_IP4''))
           else if json_eq (the tag) (JString ''FIB_API_PATH_NH_PROTO_IP6'') then Some (Some (JString ''ADDRESS_IP6''))
           else None)
        else if name = ''vl_api_fib_path_t'' \<and> field_name = ''nh'' then Some (member ''proto'')
        else Some (if discriminator \<noteq> [] then member discriminator else None)) }"

definition convert_member ::
  "converter \<Rightarrow> string \<Rightarrow> json \<Rightarrow> json \<Rightarrow> json \<Rightarrow> io \<Rightarrow> json option \<Rightarrow> conversion" where
  "convert_member rec name field object item io tag = do {
     field_name \<leftarrow> get_string (jat field ''name'');
     t \<leftarrow> get_string (jat field ''type'');
     selected \<leftarrow> selected_tag name field object tag;
     (case selected of
        None \<Rightarrow> Some (mk_status ''unsupported_type'' ''Non-IP FIB next-hop address requires a dedicated adapter'', item, io)
      | Some sel \<Rightarrow> do {
          (st, item', io') \<leftarrow> rec t item io sel;
          Some (if st_ok st then st else prefix_message field_name st, item', io') }) }"

definition convert_field ::
  "env \<Rightarrow> json \<Rightarrow> converter \<Rightarrow> string \<Rightarrow> json \<Rightarrow> json \<Rightarrow> io \<Rightarrow> json option \<Rightarrow> conversion" where
  "convert_field E S rec name field object io tag = do {
     field_name \<leftarrow> get_string (jat field ''name'');
     t \<leftarrow> get_string (jat field ''type'');
     item \<leftarrow> (if \<not> encoding io then Some (Some JNull)
              else if contains object field_name then Some (Some (jat object field_name))
              else if contains field ''default'' then map_option Some (PublicDefault E S field)
              else Some None);
     (case item of
        None \<Rightarrow> Some (schema_invalid (''Missing field: '' @ field_name), JNull, io)
      | Some x \<Rightarrow> do {
          n \<leftarrow> (if t = ''string'' then value_as get_int32 field ''length'' 0 else Some 0);
          let object = (if encoding io then jset object field_name x else object);
          if 0 < n then fixed_string field x io
          else if t \<noteq> ''string'' \<and> contains field ''length'' then convert_array rec field object x io
          else convert_member rec name field object x io tag }) }"

fun convert_fields ::
  "env \<Rightarrow> json \<Rightarrow> converter \<Rightarrow> string \<Rightarrow> json list \<Rightarrow> json \<Rightarrow> io \<Rightarrow> json option \<Rightarrow> conversion" where
  "convert_fields E S rec name [] object io tag = Some (Ok, object, io)"
| "convert_fields E S rec name (field # fs) object io tag = do {
     (st, item, io') \<leftarrow> convert_field E S rec name field object io tag;
     if \<not> st_ok st then Some (st, object, io')
     else convert_fields E S rec name fs (jset object (jtext (jat field ''name'')) item) io' tag }"

text \<open>Before encoding: no unknown or derived member, and every derived one set from its array.\<close>

fun set_counts :: "json list \<Rightarrow> json \<Rightarrow> (status \<times> json) option" where
  "set_counts [] object = Some (Ok, object)"
| "set_counts (field # fs) object =
     (if \<not> contains field ''count'' then set_counts fs object
      else do {
        name \<leftarrow> get_string (jat field ''name'');
        if \<not> contains object name \<or> \<not> is_array (jat object name) then
          Some (schema_invalid (''Expected array: '' @ name), object)
        else do {
          counter \<leftarrow> get_string (jat field ''count'');
          set_counts fs (jset object counter (JUint (jsize (jat object name)))) } })"

definition struct_encode ::
  "env \<Rightarrow> json \<Rightarrow> converter \<Rightarrow> string \<Rightarrow> json list \<Rightarrow> json \<Rightarrow> io \<Rightarrow> json option \<Rightarrow> conversion" where
  "struct_encode E S rec name fs v io tag =
     (if \<not> is_object v then Some (schema_invalid (''Expected an object for '' @ name), v, io)
      else do {
        counts \<leftarrow> Counts fs;
        (case find (\<lambda>(k, x). \<not> list_ex (\<lambda>f. json_eq (jat f ''name'') (JString k)) fs \<or> k \<in> set counts) (jmembers v) of
           Some (k, x) \<Rightarrow> Some (schema_invalid (''Unknown or derived field: '' @ k), v, io)
         | None \<Rightarrow> do {
             (st, object) \<leftarrow> set_counts fs v;
             if \<not> st_ok st then Some (st, v, io)
             else do {
               (st, _, io') \<leftarrow> convert_fields E S rec name fs object io tag;
               Some (st, v, io') } }) })"

text \<open>After decoding: the derived members are dropped, an address or a prefix is put back into its text.\<close>

definition struct_text :: "env \<Rightarrow> string \<Rightarrow> json \<Rightarrow> json option" where
  "struct_text E name object =
     (if is_address name then
        (case jiter (jat object ''un'') of x # _ \<Rightarrow> Some x | [] \<Rightarrow> None)
      else if is_prefix name then do {
        a \<leftarrow> get_string (jat object ''address'');
        n \<leftarrow> dump E (jat object ''len'');
        Some (JString (a @ ''/'' @ n)) }
      else Some object)"

definition struct_decode ::
  "env \<Rightarrow> json \<Rightarrow> converter \<Rightarrow> string \<Rightarrow> json list \<Rightarrow> io \<Rightarrow> json option \<Rightarrow> conversion" where
  "struct_decode E S rec name fs io tag = do {
     counts \<leftarrow> Counts fs;
     (st, object, io') \<leftarrow> convert_fields E S rec name fs (JObject []) io tag;
     if \<not> st_ok st then Some (st, JNull, io')
     else do {
       v \<leftarrow> struct_text E name (foldl jerase object counts);
       Some (Ok, v, io') } }"

definition convert_catalog ::
  "env \<Rightarrow> json \<Rightarrow> converter \<Rightarrow> string \<Rightarrow> json \<Rightarrow> json \<Rightarrow> io \<Rightarrow> json option \<Rightarrow> conversion" where
  "convert_catalog E S rec name type v io tag = do {
     kind \<leftarrow> get_string (jat type ''kind'');
     if kind = ''alias'' then convert_alias rec type v io tag
     else if kind = ''enum'' then convert_enum E rec type v io
     else
       (let (st, v) = (if encoding io \<and> (is_address name \<or> is_prefix name) then textual_value name v else (Ok, v)) in
        if \<not> st_ok st then Some (st, v, io)
        else if kind = ''union'' then convert_union S rec name type v io tag
        else if encoding io then struct_encode E S rec name (jiter (jat type ''fields'')) v io tag
        else struct_decode E S rec name (jiter (jat type ''fields'')) io tag) }"

text \<open>\<open>Convert\<close>, with the levels of nesting left.\<close>

fun convert_at :: "env \<Rightarrow> inet \<Rightarrow> symbols \<Rightarrow> json \<Rightarrow> nat \<Rightarrow> converter" where
  "convert_at E N syms S 0 name v io tag = Some (schema_invalid ''Type nesting exceeds 32 levels'', v, io)"
| "convert_at E N syms S (Suc levels) name v io tag =
     (case native_type name of
        Some T \<Rightarrow> Some (Number T v io)
      | None \<Rightarrow>
          if name = ''bool'' then Some (convert_bool v io)
          else if name = ''string'' then Some (convert_string v io)
          else if name = ''vl_api_interface_index_t'' then Some (convert_interface syms v io)
          else case address_size name of
            Some n \<Rightarrow> Some (convert_address N n v io)
          | None \<Rightarrow>
              (case Type S name of
                 None \<Rightarrow> Some (mk_status ''unsupported_type'' (''Unknown schema type: '' @ name), v, io)
               | Some type \<Rightarrow> convert_catalog E S (convert_at E N syms S levels) name type v io tag))"

definition Convert :: "env \<Rightarrow> inet \<Rightarrow> symbols \<Rightarrow> json \<Rightarrow> converter" where
  "Convert E N syms S = convert_at E N syms S 33"

definition Encode :: "env \<Rightarrow> inet \<Rightarrow> json \<Rightarrow> string \<Rightarrow> json \<Rightarrow> symbols \<Rightarrow> (status \<times> string) option" where
  "Encode E N S type v syms = do {
     (st, _, io) \<leftarrow> Convert E N syms S type v (Enc []) None;
     Some (st, case io of Enc out \<Rightarrow> out | Dec _ \<Rightarrow> []) }"

definition Decode :: "env \<Rightarrow> inet \<Rightarrow> json \<Rightarrow> string \<Rightarrow> string \<Rightarrow> symbols \<Rightarrow> (status \<times> json) option" where
  "Decode E N S type bs syms = do {
     (st, v, io) \<leftarrow> Convert E N syms S type JNull (Dec bs) None;
     Some (if \<not> st_ok st then (st, v)
           else if io = Dec [] then (Ok, v)
           else (mk_status ''invalid_reply'' ''Unexpected trailing payload bytes'', v)) }"

end
