(* ===== verification/Schema_Stream.thy ===== *)
theory Schema_Stream
  imports Schema Sample
begin

text \<open>
  The stream discipline of the codec: a conversion only appends to the output, within the payload
  limit, or only consumes from the front of the input. The recursive call is an interface, the
  locale \<open>streaming\<close>; each part of \<open>Convert\<close> keeps the discipline when its recursive calls do, and the
  levels of nesting are then an induction.
\<close>

text \<open>Evaluation at a numeral number of levels.\<close>

named_theorems schema_eval \<open>evaluation of the codec on concrete values\<close>

lemmas levels_numeral [schema_eval] =
  convert_at.simps(2) [where levels = "pred_numeral k" for k, folded numeral_eq_Suc]
  fixed_size.simps(2) [where levels = "pred_numeral k" for k, folded numeral_eq_Suc]
  variable_at.simps(2) [where levels = "pred_numeral k" for k, folded numeral_eq_Suc]
  le_bytes.simps(2) [where n = "pred_numeral k" for k, folded numeral_eq_Suc]

lemmas [schema_eval] = Encode_def Decode_def Convert_def native_type_def Number_def integer_bytes_def word_bytes_def
  bytes_word_def kPayloadLimit_def kNativePayloadBytes_def convert_bool_def convert_string_def convert_interface_def
  convert_address_def convert_catalog_def address_size_def Type_def jat_def contains_def

fun flows :: "io \<Rightarrow> io \<Rightarrow> bool" where
  "flows (Enc out) io' \<longleftrightarrow> (\<exists>t. io' = Enc (out @ t) \<and> (length out \<le> kPayloadLimit \<longrightarrow> length (out @ t) \<le> kPayloadLimit))"
| "flows (Dec inp) io' \<longleftrightarrow> (\<exists>t. io' = Dec t \<and> suffix t inp)"

named_theorems flow_rules \<open>conversions that keep the stream discipline\<close>

lemma flows_refl [simp, flow_rules]: "flows io io"
  by (cases io) auto

lemma flows_trans: "flows a b \<Longrightarrow> flows b c \<Longrightarrow> flows a c"
  by (cases a) (auto intro: suffix_order.trans)

lemma encoding_flows: "flows a b \<Longrightarrow> encoding a = encoding b"
  by (cases a) auto

lemma Bytes_flows [flow_rules]: "Bytes data io = (st, bs, io') \<Longrightarrow> flows io io'"
  by (cases io) (auto simp: suffix_drop split: if_splits)

lemma Bytes_flows_snd [simp]: "flows io (snd (snd (Bytes data io)))"
  using Bytes_flows [of data io "fst (Bytes data io)" "fst (snd (Bytes data io))" "snd (snd (Bytes data io))"] by simp

lemma Number_flows [flow_rules]: "Number T v io = (st, v', io') \<Longrightarrow> flows io io'"
  by (auto simp: Number_def Let_def split: prod.splits if_splits json.splits intro: flow_rules)

lemma leaf_flows [flow_rules]:
  "convert_bool v io = (st, v', io') \<Longrightarrow> flows io io'"
  "convert_interface syms v io = (st, v', io') \<Longrightarrow> flows io io'"
  "convert_address N n v io = (st, v', io') \<Longrightarrow> flows io io'"
  by (auto simp: convert_bool_def convert_interface_def convert_address_def Let_def
      split: prod.splits if_splits option.splits intro: flow_rules)

lemma convert_string_flows [flow_rules]: "convert_string v io = (st, v', io') \<Longrightarrow> flows io io'"
  by (auto simp: convert_string_def Let_def split: prod.splits if_splits intro: flow_rules flows_trans [OF Bytes_flows])

lemma fixed_string_flows [flow_rules]: "fixed_string field x io = Some (st, v', io') \<Longrightarrow> flows io io'"
  by (auto simp: fixed_string_def Option.bind_eq_Some_conv Let_def case_prod_beta split: if_splits)

locale streaming =
  fixes rec :: converter
  assumes flow: "rec t v io tag = Some (st, v', io') \<Longrightarrow> flows io io'"
begin

lemma items_flow: "convert_items rec t xs io = Some (st, ys, io') \<Longrightarrow> flows io io'"
  by (induction xs arbitrary: io st ys)
    (auto simp: Option.bind_eq_Some_conv split: if_splits intro: flow flows_trans [OF flow])

lemma alias_flow: "convert_alias rec type v io tag = Some (st, v', io') \<Longrightarrow> flows io io'"
  by (auto simp: convert_alias_def Option.bind_eq_Some_conv split: if_split_asm intro: flow items_flow)

lemma enum_flow: "convert_enum E rec type v io = Some (st, v', io') \<Longrightarrow> flows io io'"
  by (auto simp: convert_enum_def Option.bind_eq_Some_conv Let_def split: if_splits intro: flow)

lemma union_encode_flow: "union_encode rec sz fs v io tag = Some (st, v', io') \<Longrightarrow> flows io io'"
  by (auto simp: union_encode_def Option.bind_eq_Some_conv Let_def case_prod_beta split: if_split_asm list.split_asm)

lemma union_decode_flow: "union_decode rec sz fs inp tag = Some (st, v', io') \<Longrightarrow> flows (Dec inp) io'"
  by (auto simp: union_decode_def Option.bind_eq_Some_conv Let_def suffix_drop split: if_split_asm list.split_asm)

lemma union_flow: "convert_union S rec name type v io tag = Some (st, v', io') \<Longrightarrow> flows io io'"
  by (cases io)
    (auto simp: convert_union_def Option.bind_eq_Some_conv simp del: flows.simps split: if_split_asm
      intro: union_encode_flow union_decode_flow)

lemma array_flow: "convert_array rec field object x io = Some (st, v', io') \<Longrightarrow> flows io io'"
  unfolding convert_array_def Option.bind_eq_Some_conv
  by (elim exE conjE, simp split: option.split_asm if_split_asm) (auto simp: Option.bind_eq_Some_conv dest: items_flow)

lemma member_flow: "convert_member rec name field object x io tag = Some (st, v', io') \<Longrightarrow> flows io io'"
  by (auto simp: convert_member_def Option.bind_eq_Some_conv split: if_split_asm option.split_asm dest: flow)

lemma field_flow: "convert_field E S rec name field object io tag = Some (st, v', io') \<Longrightarrow> flows io io'"
  by (auto simp: convert_field_def Option.bind_eq_Some_conv Let_def split: if_split_asm option.split_asm
      intro: fixed_string_flows array_flow member_flow)

lemma fields_flow: "convert_fields E S rec name fs object io tag = Some (st, v', io') \<Longrightarrow> flows io io'"
  by (induction fs arbitrary: object io)
    (auto simp: Option.bind_eq_Some_conv split: if_splits intro: field_flow flows_trans [OF field_flow])

lemma catalog_flow: "convert_catalog E S rec name type v io tag = Some (st, v', io') \<Longrightarrow> flows io io'"
  by (auto simp: convert_catalog_def struct_encode_def struct_decode_def Option.bind_eq_Some_conv Let_def
      split: if_splits option.splits prod.splits intro: alias_flow enum_flow union_flow fields_flow)

end

lemma streaming_convert_at: "streaming (convert_at E N syms S n)"
proof (induction n)
  case 0
  show ?case by unfold_locales auto
next
  case (Suc n)
  show ?case
    by unfold_locales
      (auto split: option.splits if_splits intro: flow_rules streaming.catalog_flow [OF Suc])
qed

interpretation codec: streaming "convert_at E N syms S n" for E N syms S n
  by (rule streaming_convert_at)

text \<open>
  C22. Whatever the catalog and the request, no native message exceeds 1 MiB: the bytes produced by
  \<open>Encode\<close> are within the payload limit, also when it reports an error.
\<close>

theorem encode_bounded:
  assumes "Encode E N S type v syms = Some (st, out)"
  shows "length out \<le> 1024 * 1024"
proof -
  obtain st' v' io where c: "convert_at E N syms S 33 type v (Enc []) None = Some (st', v', io)"
    "out = (case io of Enc out \<Rightarrow> out | Dec _ \<Rightarrow> [])"
    using assms by (auto simp: Encode_def Convert_def Option.bind_eq_Some_conv)
  from codec.flow [OF c(1)] c(2) show ?thesis by (auto simp: kPayloadLimit_def kNativePayloadBytes_def)
qed

definition sample_inet :: inet where
  "sample_inet = \<lparr>pton4 = (\<lambda>s. if s = ''10.0.0.1'' then Some [CHR 0x0A, CHR 0x00, CHR 0x00, CHR 0x01] else None),
     pton6 = (\<lambda>_. None),
     ntop4 = (\<lambda>bs. if bs = [CHR 0x0A, CHR 0x00, CHR 0x00, CHR 0x01] then Some ''10.0.0.1'' else None),
     ntop6 = (\<lambda>_. None)\<rparr>"

definition sample_symbols :: symbols where
  "sample_symbols = \<lparr>
     interface_index = Some (\<lambda>name. if name = ''loop0'' then (Ok, 7)
       else (mk_status ''resource_not_found'' ''Interface name did not resolve uniquely'', 0)),
     interface_name = Some (\<lambda>index. if index = 7 then (Ok, ''loop0'')
       else (mk_status ''resource_not_found'' ''VPP returned an unresolved interface index'', []))\<rparr>"

theorem encode_bounded_witness:
  "Encode sample_env sample_inet (JObject []) ''u16'' (JUint 258) sample_symbols = Some (Ok, [CHR 0x02, CHR 0x01]) \<and>
   length [CHR 0x02, CHR 0x01] \<le> 1024 * 1024"
proof -
  have "Encode sample_env sample_inet (JObject []) ''u16'' (JUint 258) sample_symbols = Some (Ok, [CHR 0x02, CHR 0x01])"
    by (simp add: schema_eval) code_simp
  then show ?thesis using encode_bounded by blast
qed

end
