(* ===== verification/Schema_Size.thy ===== *)
theory Schema_Size
  imports Schema_Stream
begin

text \<open>
  \<open>FixedSize\<close> tells the truth: a value of a type that is not \<open>Variable\<close> always encodes to \<open>FixedSize\<close>
  bytes, so the \<open>resize\<close> of a union member only pads. The catalog is assumed to be of the shape the
  generator gives it (\<open>sane_catalog\<close>): lengths are unsigned numbers, counted arrays are declared with
  length 0, enumerations have a native base type, and VPP's own index and address types have their
  usual layout.
\<close>

subsection \<open>The shape of a catalog\<close>

definition sane_length :: "json \<Rightarrow> bool" where
  "sane_length j \<longleftrightarrow> (contains j ''length'' \<longrightarrow> (case jat j ''length'' of JUint n \<Rightarrow> n < 2 ^ 31 | _ \<Rightarrow> False))"

definition sane_field :: "json \<Rightarrow> bool" where
  "sane_field f \<longleftrightarrow> is_object f \<and> sane_length f \<and>
     (contains f ''count'' \<longrightarrow> contains f ''length'' \<and> jat f ''length'' = JUint 0)"

definition sane_type :: "json \<Rightarrow> bool" where
  "sane_type T \<longleftrightarrow> is_object T \<and> sane_length T \<and> list_all sane_field (jiter (jat T ''fields'')) \<and>
     (jat T ''kind'' = JString ''enum'' \<longrightarrow> \<not> contains T ''length'' \<and> native_type (jtext (jat T ''type'')) \<noteq> None)"

definition native_names :: "string list" where
  "native_names = [''bool'', ''u8'', ''i8'', ''u16'', ''i16'', ''u32'', ''i32'', ''u64'', ''i64'', ''f32'', ''f64'']"

definition alias_of :: "json \<Rightarrow> string \<Rightarrow> string \<Rightarrow> int \<Rightarrow> bool" where
  "alias_of S name base n \<longleftrightarrow>
     (case Type S name of
        None \<Rightarrow> True
      | Some T \<Rightarrow> jat T ''kind'' = JString ''alias'' \<and> jat T ''type'' = JString base \<and>
                  value_as get_int64 T ''length'' 1 = Some n)"

definition sane_catalog :: "json \<Rightarrow> bool" where
  "sane_catalog S \<longleftrightarrow> list_all (\<lambda>kv. sane_type (snd kv)) (jmembers (jat S ''types'')) \<and>
     list_all (\<lambda>n. Type S n = None) native_names \<and>
     alias_of S ''vl_api_interface_index_t'' ''u32'' 1 \<and> alias_of S ''vl_api_ip4_address_t'' ''u8'' 4 \<and>
     alias_of S ''vl_api_ip6_address_t'' ''u8'' 16 \<and> alias_of S ''vl_api_mac_address_t'' ''u8'' 6"

lemma sane_catalog_type: "sane_catalog S \<Longrightarrow> Type S name = Some T \<Longrightarrow> sane_type T"
  by (force simp: sane_catalog_def Type_def list_all_iff dest: map_of_SomeD)

lemma sane_length_cases:
  assumes "sane_length j" "is_object j"
  obtains "\<not> contains j ''length''" "value_as get j ''length'' d = Some d"
  | n where "n < 2 ^ 31" "jat j ''length'' = JUint n" "contains j ''length''" "value_as get j ''length'' d = get (JUint n)"
  using assms by (auto simp: sane_length_def value_as_def contains_def jat_def split: json.splits option.splits)

lemma to_int32_small [simp]: "n < 2147483648 \<Longrightarrow> to_int32 (int n) = int n"
  by (simp add: to_int32_def)

lemma small_int [simp]:
  assumes "n < 2 ^ 31"
  shows "get_int64 (JUint n) = Some (int n)" "get_int32 (JUint n) = Some (int n)" "get_uint64 (JUint n) = Some n"
    "json_eq (JUint n) (JInt 0) \<longleftrightarrow> n = 0"
  using assms by (auto simp: to_int32_def)

lemma native_not_type: "sane_catalog S \<Longrightarrow> native_type name \<noteq> None \<Longrightarrow> Type S name = None"
  by (auto simp: sane_catalog_def native_names_def native_type_def split: if_splits)

lemma fixed_native:
  assumes "fixed_size S m name = Some s" "0 \<le> s" "native_type name = Some T"
  shows "nat s = native_size T"
  using assms by (cases m) (auto simp: native_type_def split: if_splits)

lemma st_ok_schema_invalid [simp]: "\<not> st_ok (schema_invalid m)"
  by (simp add: schema_invalid_def)

subsection \<open>Sizes do not depend on the levels\<close>

lemma field_size_unique:
  assumes "sane_field f" and "field_size p f = Some a" and "field_size q f = Some b" and "0 \<le> a" "0 \<le> b"
    and "\<And>t x y. p t = Some x \<Longrightarrow> q t = Some y \<Longrightarrow> 0 \<le> x \<Longrightarrow> 0 \<le> y \<Longrightarrow> x = y"
  shows "a = b"
proof -
  have obj: "is_object f" "sane_length f" using assms(1) by (auto simp: sane_field_def)
  show ?thesis
    using assms(2-6)
    by (cases rule: sane_length_cases [OF obj(2,1), where get = get_int64 and d = 1])
      (auto simp: field_size_def Option.bind_eq_Some_conv int64_mult_def zero_le_mult_iff split: if_splits)
qed

lemma fixed_fields_unique:
  assumes "list_all sane_field fs" and "fixed_fields p u fs acc = Some a" and "fixed_fields q u fs acc = Some b"
    and "0 \<le> a" "0 \<le> b"
    and "\<And>t x y. p t = Some x \<Longrightarrow> q t = Some y \<Longrightarrow> 0 \<le> x \<Longrightarrow> 0 \<le> y \<Longrightarrow> x = y"
  shows "a = b"
  using assms
proof (induction fs arbitrary: acc)
  case (Cons f fs)
  obtain x where x: "field_size p f = Some x" "0 \<le> x" "fixed_fields p u fs (if u then max acc x else acc + x) = Some a"
    using Cons.prems(2,4) by (auto simp: Option.bind_eq_Some_conv split: if_splits)
  obtain y where y: "field_size q f = Some y" "0 \<le> y" "fixed_fields q u fs (if u then max acc y else acc + y) = Some b"
    using Cons.prems(3,5) by (auto simp: Option.bind_eq_Some_conv split: if_splits)
  have "x = y" using field_size_unique [OF _ x(1) y(1) x(2) y(2) Cons.prems(6)] Cons.prems(1) by simp
  then have "fixed_fields q u fs (if u then max acc x else acc + x) = Some b" using y(3) by (simp only:)
  from Cons.IH [OF _ x(3) this Cons.prems(4-6)] Cons.prems(1) show ?case by simp
qed simp

lemma fixed_size_unique:
  assumes "sane_catalog S" and "fixed_size S m name = Some a" and "fixed_size S m' name = Some b" and "0 \<le> a" "0 \<le> b"
  shows "a = b"
  using assms(2-5)
proof (induction m arbitrary: m' name a b)
  case (Suc m)
  obtain k where k: "m' = Suc k" using Suc.prems(2,4) by (cases m') auto
  show ?case
  proof (cases "name \<in> set (''string'' # native_names)")
    case True
    then show ?thesis using Suc.prems k by (auto simp: native_names_def)
  next
    case False
    then have n: "name \<notin> {''bool'', ''u8'', ''i8''}" "name \<notin> {''u16'', ''i16''}"
      "name \<notin> {''u32'', ''i32'', ''f32'', ''string''}" "name \<notin> {''u64'', ''i64'', ''f64''}"
      by (auto simp: native_names_def)
    note eqs = fixed_size.simps(2) [of S m name] fixed_size.simps(2) [of S k name]
    obtain T kd where T: "Type S name = Some T" "get_string (jat T ''kind'') = Some kd"
      using Suc.prems n k unfolding eqs by (auto simp: Option.bind_eq_Some_conv split: option.splits)
    have sane: "sane_type T" using sane_catalog_type [OF assms(1) T(1)] .
    show ?thesis
    proof (cases "kd = ''alias'' \<or> kd = ''enum''")
      case True
      then show ?thesis using Suc.prems n k T
        by (auto simp: eqs Option.bind_eq_Some_conv int64_mult_def split: if_splits dest: Suc.IH)
    next
      case False
      have "list_all sane_field (jiter (jat T ''fields''))" using sane by (simp add: sane_type_def)
      moreover have "fixed_fields (fixed_size S m) (kd = ''union'') (jiter (jat T ''fields'')) 0 = Some a"
        "fixed_fields (fixed_size S k) (kd = ''union'') (jiter (jat T ''fields'')) 0 = Some b"
        using Suc.prems n k T False by (auto simp: eqs)
      ultimately show ?thesis using fixed_fields_unique Suc.prems(3,4) Suc.IH by blast
    qed
  qed
qed simp

subsection \<open>What an encoding appends\<close>

fun out_len :: "io \<Rightarrow> nat" where
  "out_len (Enc out) = length out"
| "out_len (Dec _) = 0"

lemma Bytes_len: "Bytes data io = (st, bs, io') \<Longrightarrow> st_ok st \<Longrightarrow> encoding io \<Longrightarrow> out_len io' = out_len io + length data"
  by (cases io) (auto split: if_splits)

lemma Bytes_len_snd:
  "st_ok (fst (Bytes data io)) \<Longrightarrow> encoding io \<Longrightarrow> out_len (snd (snd (Bytes data io))) = out_len io + length data"
  by (cases "Bytes data io") (auto dest: Bytes_len)

lemma st_ok_prefix_message [simp]: "st_ok (prefix_message m st) = st_ok st"
  by (simp add: prefix_message_def st_ok_def)

lemma length_word_bytes [simp]: "length (word_bytes n i) = n"
  by (simp add: word_bytes_def)

lemma number_bytes_len: "number_bytes T v = (st, data) \<Longrightarrow> st_ok st \<Longrightarrow> length data = native_size T"
  by (cases T) (auto simp: integer_bytes_def decimal_bytes_def Let_def schema_invalid_def
      split: if_splits option.splits list.splits prod.splits)

lemma Number_len:
  "Number T v io = (st, v', io') \<Longrightarrow> st_ok st \<Longrightarrow> encoding io \<Longrightarrow> out_len io' = out_len io + native_size T"
  by (auto simp: Number_def Let_def split: prod.splits if_splits dest!: number_bytes_len Bytes_len)

definition inet_lengths :: "inet \<Rightarrow> bool" where
  "inet_lengths N \<longleftrightarrow> (\<forall>s bs. pton4 N s = Some bs \<longrightarrow> length bs = 4) \<and> (\<forall>s bs. pton6 N s = Some bs \<longrightarrow> length bs = 16)"

lemma mac_bytes_len: "mac_bytes n s = Some bs \<Longrightarrow> length bs = n"
  by (induction n arbitrary: s bs) (auto split: option.splits list.splits if_splits prod.splits)

lemma address_len:
  assumes "convert_address N n v io = (st, v', io')" "st_ok st" "encoding io" "inet_lengths N" "n \<in> {4, 6, 16}"
  shows "out_len io' = out_len io + n"
proof -
  obtain st0 data where d: "address_bytes N n v = (st0, data)" by force
  then have ok: "st_ok st0" using assms(1-3) by (auto simp: convert_address_def split: if_splits)
  then have "length data = n"
    using d assms(4,5) by (auto simp: address_bytes_def inet_lengths_def schema_invalid_def split: if_splits option.splits
        dest: mac_bytes_len)
  then show ?thesis
    using d ok assms(1-3) by (auto simp: convert_address_def Let_def split: prod.splits if_splits dest!: Bytes_len)
qed

lemma leaf_len:
  "convert_bool v io = (st, v', io') \<Longrightarrow> st_ok st \<Longrightarrow> encoding io \<Longrightarrow> out_len io' = out_len io + 1"
  "convert_interface syms v io = (st, v', io') \<Longrightarrow> st_ok st \<Longrightarrow> encoding io \<Longrightarrow> out_len io' = out_len io + 4"
  by (auto simp: convert_bool_def convert_interface_def Let_def split: prod.splits if_splits option.splits dest!: Bytes_len)

lemma variable_string [simp]: "variable_at S k ''string'' = Some True"
  by (cases k) auto


definition layouts :: "inet \<Rightarrow> json \<Rightarrow> bool" where
  "layouts N S \<longleftrightarrow> sane_catalog S \<and> inet_lengths N"

locale sized = streaming rec for rec :: converter +
  fixes N :: inet and S :: json
  assumes size_rec: "layouts N S \<Longrightarrow> rec t v io tag = Some (st, v', io') \<Longrightarrow> st_ok st \<Longrightarrow> encoding io \<Longrightarrow>
      fixed_size S m t = Some s \<Longrightarrow> 0 \<le> s \<Longrightarrow> variable_at S k t = Some False \<Longrightarrow> out_len io' = out_len io + nat s"
begin

lemma sane: "layouts N S \<Longrightarrow> sane_catalog S"
  by (simp add: layouts_def)

lemma items_len:
  assumes "convert_items rec t xs io = Some (st, ys, io')" "st_ok st" "encoding io"
    and "fixed_size S m t = Some s" "0 \<le> s" "variable_at S k t = Some False"
    and ok: "layouts N S"
  shows "out_len io' = out_len io + length xs * nat s"
  using assms(1-3)
proof (induction xs arbitrary: io ys)
  case (Cons x xs)
  then obtain st1 y io1 ys' where r: "rec t x io None = Some (st1, y, io1)" "st_ok st1"
    "convert_items rec t xs io1 = Some (st, ys', io')"
    by (auto simp: Option.bind_eq_Some_conv split: if_splits)
  from size_rec [OF ok r(1,2) Cons.prems(3) assms(4-6)] Cons.IH [OF r(3) Cons.prems(2)] encoding_flows [OF flow [OF r(1)]]
    Cons.prems(3)
  show ?case by simp
qed simp

lemma alias_len:
  assumes "convert_alias rec T v io tag = Some (st, v', io')" "st_ok st" "encoding io" "sane_type T"
    and "get_string (jat T ''type'') = Some t" "fixed_size S m t = Some s" "0 \<le> s"
    and "value_as get_int64 T ''length'' 1 = Some n" "variable_at S k t = Some False"
    and ok: "layouts N S"
  shows "out_len io' = out_len io + nat (s * n)"
proof -
  have T: "sane_length T" "is_object T" using assms(4) by (auto simp: sane_type_def)
  show ?thesis
  proof (cases rule: sane_length_cases [OF T, where get = get_int64 and d = 1])
    case 1
    then show ?thesis using assms size_rec [OF ok] by (auto simp: convert_alias_def)
  next
    case (2 c)
    then have n: "n = int c" using assms(8) by simp
    have "length (jelems v) = c"
      using assms(1-3,5) 2 by (cases v) (auto simp: convert_alias_def split: if_splits)
    moreover have "\<exists>ys. convert_items rec t (jelems v) io = Some (st, ys, io')"
      using assms(1-3,5) 2 by (auto simp: convert_alias_def Option.bind_eq_Some_conv split: if_splits)
    ultimately show ?thesis
      using items_len [OF _ assms(2,3,6,7,9) ok] n assms(7) by (auto simp: nat_mult_distrib mult.commute)
  qed
qed

text \<open>A field that is not variable is a fixed string, a fixed array or a single value of a fixed type.\<close>

lemma field_cases:
  assumes "sane_field f" "field_size (fixed_size S m) f = Some s" "0 \<le> s"
    and "variable_field (variable_at S k) f = Some False" "get_string (jat f ''type'') = Some t"
  obtains n where "t = ''string''" "0 < n" "n < 2 ^ 31" "jat f ''length'' = JUint n" "contains f ''length''" "s = int n"
      "value_as get_int32 f ''length'' 0 = Some (int n)"
  | n s1 where "t \<noteq> ''string''" "contains f ''length''" "jat f ''length'' = JUint n" "n < 2 ^ 31" "\<not> contains f ''count''"
      "fixed_size S m t = Some s1" "0 \<le> s1" "s = s1 * int n" "variable_at S k t = Some False"
  | "t \<noteq> ''string''" "\<not> contains f ''length''" "fixed_size S m t = Some s" "variable_at S k t = Some False"
proof -
  have f: "sane_length f" "is_object f" "contains f ''count'' \<Longrightarrow> contains f ''length'' \<and> jat f ''length'' = JUint 0"
    using assms(1) by (auto simp: sane_field_def)
  have ty: "jat f ''type'' = JString t" using assms(5) by (simp add: get_string_jtext)
  show thesis
  proof (cases "contains f ''length''")
    case False
    then have v: "value_as get f ''length'' d = Some d" for get :: "json \<Rightarrow> int option" and d
      using f(2) by (auto simp: value_as_def contains_def)
    show thesis
      using that(3) False assms(2,4) ty
      by (auto simp: v field_size_def variable_field_def int64_mult_def Option.bind_eq_Some_conv split: if_splits)
  next
    case True
    then obtain n where n: "n < 2 ^ 31" "jat f ''length'' = JUint n" using f(1) by (auto simp: sane_length_def split: json.splits)
    have v: "value_as get f ''length'' d = get (JUint n)" for get :: "json \<Rightarrow> int option" and d
      using True f(2) n(2) by (auto simp: value_as_def contains_def jat_def)
    have pos: "0 < n" using assms(4) ty n by (auto simp: v variable_field_def Option.bind_eq_Some_conv split: if_splits)
    show thesis
    proof (cases "t = ''string''")
      case True
      then show thesis using that(1) [of n] \<open>contains f ''length''\<close> n pos assms(2) ty
        by (auto simp: v field_size_def Option.bind_eq_Some_conv)
    next
      case False
      have "\<not> contains f ''count''" using f(3) n pos by auto
      then show thesis using that(2) [of n] False \<open>contains f ''length''\<close> n pos assms(2-4) ty
        by (auto simp: v field_size_def variable_field_def Option.bind_eq_Some_conv int64_mult_def zero_le_mult_iff
            split: if_splits)
    qed
  qed
qed

lemma field_len:
  assumes "convert_field E S' rec name f object io tag = Some (st, v', io')" "st_ok st" "encoding io"
    and "sane_field f" "field_size (fixed_size S m) f = Some s" "0 \<le> s"
    and "variable_field (variable_at S k) f = Some False"
    and ok: "layouts N S"
  shows "out_len io' = out_len io + nat s"
proof -
  obtain field_name t x n where c: "get_string (jat f ''name'') = Some field_name" "get_string (jat f ''type'') = Some t"
    "(if t = ''string'' then value_as get_int32 f ''length'' 0 else Some 0) = Some n"
    "(if 0 < n then fixed_string f x io
      else if t \<noteq> ''string'' \<and> contains f ''length'' then convert_array rec f (jset object field_name x) x io
      else convert_member rec name f (jset object field_name x) x io tag) = Some (st, v', io')"
    using assms(1-3) by (auto simp: convert_field_def Option.bind_eq_Some_conv Let_def split: option.split_asm)
  from assms(4-7) c(2) show ?thesis
  proof (cases rule: field_cases)
    case (1 l)
    then have fs: "fixed_string f x io = Some (st, v', io')" using c(3,4) by simp
    show ?thesis using fs assms(2,3) 1
      by (auto simp: fixed_string_def Option.bind_eq_Some_conv Let_def case_prod_beta Bytes_len_snd split: if_split_asm)
  next
    case (2 l s1)
    then have a: "convert_array rec f (jset object field_name x) x io = Some (st, v', io')" using c(3,4) by simp
    then have "is_array x \<and> jsize x = l \<and> (\<exists>st1 ys. convert_items rec t (jelems x) io = Some (st1, ys, io') \<and> st_ok st1)"
      using assms(2,3) 2 c(2)
      by (auto simp: convert_array_def array_count_def Option.bind_eq_Some_conv split: if_split_asm)
    then show ?thesis
      using items_len [OF _ _ assms(3) 2(6,7,9) ok] 2(7,8) by (cases x) (auto simp: nat_mult_distrib mult.commute)
  next
    case 3
    then obtain st1 sel where "rec t x io sel = Some (st1, v', io')" "st_ok st1"
      using c assms(2) by (auto simp: convert_member_def Option.bind_eq_Some_conv split: if_split_asm option.split_asm)
    then show ?thesis using size_rec [OF ok _ _ assms(3) 3(3) assms(6) 3(4)] by blast
  qed
qed

lemma fields_len:
  assumes "convert_fields E S' rec name fs object io tag = Some (st, v', io')" "st_ok st" "encoding io"
    and "list_all sane_field fs" "fixed_fields (fixed_size S m) False fs acc = Some s" "0 \<le> acc" "0 \<le> s"
    and "any_field (variable_field (variable_at S k)) fs = Some False"
    and ok: "layouts N S"
  shows "out_len io' + nat acc = out_len io + nat s"
  using assms
proof (induction fs arbitrary: object io acc)
  case (Cons f fs)
  then obtain st1 x io1 where c: "convert_field E S' rec name f object io tag = Some (st1, x, io1)" "st_ok st1"
    "convert_fields E S' rec name fs (jset object (jtext (jat f ''name'')) x) io1 tag = Some (st, v', io')"
    by (auto simp: Option.bind_eq_Some_conv split: if_splits)
  obtain p where p: "field_size (fixed_size S m) f = Some p" "0 \<le> p" "fixed_fields (fixed_size S m) False fs (acc + p) = Some s"
    using Cons.prems(5,7) by (auto simp: Option.bind_eq_Some_conv split: if_splits)
  have v: "variable_field (variable_at S k) f = Some False" "any_field (variable_field (variable_at S k)) fs = Some False"
    using Cons.prems(8) by (auto simp: Option.bind_eq_Some_conv split: if_splits)
  have "out_len io1 = out_len io + nat p"
    using field_len [OF c(1,2) Cons.prems(3) _ p(1,2) v(1) Cons.prems(9)] Cons.prems(4) by simp
  moreover have "out_len io' + nat (acc + p) = out_len io1 + nat s"
    using Cons.IH [OF c(3) Cons.prems(2) _ _ p(3)] encoding_flows [OF field_flow [OF c(1)]] Cons.prems v(2) p(2) by simp
  ultimately show ?case using p(2) Cons.prems(6) by (simp add: nat_add_distrib)
qed simp

lemma struct_len:
  assumes "struct_encode E S' rec name fs v io tag = Some (st, v', io')" "st_ok st" "encoding io"
    and "list_all sane_field fs" "fixed_fields (fixed_size S m) False fs 0 = Some s" "0 \<le> s"
    and "any_field (variable_field (variable_at S k)) fs = Some False"
    and ok: "layouts N S"
  shows "out_len io' = out_len io + nat s"
proof -
  obtain object v1 where "convert_fields E S' rec name fs object io tag = Some (st, v1, io')"
    using assms(1,2) by (auto simp: struct_encode_def Option.bind_eq_Some_conv split: if_split_asm option.split_asm)
  from fields_len [OF this assms(2-5) _ assms(6,7) ok] show ?thesis by simp
qed

lemma union_member:
  assumes "union_encode rec sz fs v (Enc out0) tag = Some (st, v', Enc out)" "st_ok st"
  obtains f t x st' x' data where "f \<in> set fs" "jat f ''type'' = JString t" "st_ok st'"
    "rec t x (Enc []) None = Some (st', x', Enc data)" "out = out0 @ take sz (data @ replicate sz (CHR 0x00))"
proof -
  obtain m ms where ms: "filter (\<lambda>f. contains v (jtext (jat f ''name''))) fs = m # ms"
    using assms by (auto simp: union_encode_def split: if_split_asm list.split_asm)
  then have "last (m # ms) \<in> set fs" using filter_is_subset last_in_set by (metis list.discI subsetD)
  moreover obtain t st' x' bs where r: "get_string (jat (last (m # ms)) ''type'') = Some t"
    "rec t (jat v (jtext (jat (last (m # ms)) ''name''))) (Enc []) None = Some (st', x', bs)" "st_ok st'"
    "out = out0 @ take sz ((case bs of Enc out \<Rightarrow> out | Dec _ \<Rightarrow> []) @ replicate sz (CHR 0x00))"
    using assms by (auto simp: union_encode_def ms Option.bind_eq_Some_conv Let_def simp del: last.simps split: if_split_asm)
  moreover obtain data where "bs = Enc data" using flow [OF r(2)] by auto
  ultimately show thesis using that by (auto simp: get_string_jtext)
qed

lemma union_len:
  assumes "convert_union S rec name T v io tag = Some (st, v', io')" "st_ok st" "encoding io"
    and "fixed_size S m name = Some s" "0 \<le> s"
    and ok: "layouts N S"
  shows "out_len io' = out_len io + nat s"
proof -
  obtain out where io: "io = Enc out" using assms(3) by (cases io) auto
  obtain sz where sz: "FixedSize S name = Some sz" "0 \<le> sz"
    "union_encode rec (nat sz) (jiter (jat T ''fields'')) v io tag = Some (st, v', io')"
    using assms(1,2) io by (auto simp: convert_union_def Option.bind_eq_Some_conv split: if_split_asm)
  then have "sz = s" using fixed_size_unique [OF sane [OF ok] _ assms(4) _ assms(5)] by (simp add: FixedSize_def)
  with sz(3) assms(2,3) show ?thesis
    by (auto simp: union_encode_def Option.bind_eq_Some_conv Let_def case_prod_beta Bytes_len_snd
        split: if_split_asm list.split_asm)
qed

lemma catalog_len:
  assumes "convert_catalog E S rec name T v io tag = Some (st, v', io')" "st_ok st" "encoding io"
    and "Type S name = Some T" "name \<notin> set (''string'' # native_names)"
    and "fixed_size S m name = Some s" "0 \<le> s" "variable_at S k name = Some False"
    and ok: "layouts N S"
  shows "out_len io' = out_len io + nat s"
proof -
  obtain m' k' where mk: "m = Suc m'" "k = Suc k'" using assms(6-8) by (cases m; cases k) auto
  have n: "name \<notin> {''bool'', ''u8'', ''i8''}" "name \<notin> {''u16'', ''i16''}"
      "name \<notin> {''u32'', ''i32'', ''f32'', ''string''}" "name \<notin> {''u64'', ''i64'', ''f64''}" "name \<noteq> ''string''"
    using assms(5) by (auto simp: native_names_def)
  note eqs = fixed_size.simps(2) [of S m' name] variable_at.simps(2) [of S k' name]
  obtain kd where kd: "get_string (jat T ''kind'') = Some kd"
    using assms(4,6) n mk by (auto simp: eqs Option.bind_eq_Some_conv)
  then have kind: "jat T ''kind'' = JString kd" by (simp add: get_string_jtext)
  have T: "sane_type T" using sane_catalog_type [OF sane [OF ok] assms(4)] .
  consider "kd = ''alias''" | "kd = ''enum''" | "kd = ''union''" | "kd \<notin> {''alias'', ''enum'', ''union''}" by auto
  then show ?thesis
  proof cases
    case 1
    then obtain t s1 c where t: "get_string (jat T ''type'') = Some t" "fixed_size S m' t = Some s1" "0 \<le> s1"
      "value_as get_int64 T ''length'' 1 = Some c" "s = s1 * c" "variable_at S k' t = Some False"
      using assms(4,6-8) n mk kind
      by (auto simp: eqs Option.bind_eq_Some_conv get_string_jtext int64_mult_def split: if_splits)
    have "convert_alias rec T v io tag = Some (st, v', io')" using assms(1) kd 1 by (simp add: convert_catalog_def)
    from alias_len [OF this assms(2,3) T t(1-4,6) ok] t(5) show ?thesis by simp
  next
    case 2
    then obtain t s1 c where t: "get_string (jat T ''type'') = Some t" "fixed_size S m' t = Some s1" "0 \<le> s1" "s = s1 * c"
      "value_as get_int64 T ''length'' 1 = Some c"
      using assms(4,6-8) n mk kind by (auto simp: eqs Option.bind_eq_Some_conv int64_mult_def split: if_splits)
    have base: "native_type t \<noteq> None" "c = 1"
      using T t(1,5) kind 2 by (auto simp: sane_type_def value_as_def contains_def get_string_jtext)
    then have nv: "variable_at S 1 t = Some False"
      using native_not_type [OF sane [OF ok] base(1)] by (auto simp: native_type_def split: if_splits)
    obtain x y where "rec t x io None = Some (st, y, io')"
      using assms(1-3) kd 2 t(1)
      by (auto simp: convert_catalog_def convert_enum_def Option.bind_eq_Some_conv Let_def split: if_split_asm)
    from size_rec [OF ok this assms(2,3) t(2,3) nv] base(2) t(4) show ?thesis by simp
  next
    case 3
    then obtain x where "convert_union S rec name T x io tag = Some (st, v', io')"
      using assms(1,2) kd by (auto simp: convert_catalog_def Let_def case_prod_beta split: if_split_asm)
    from union_len [OF this assms(2,3,6,7) ok] show ?thesis .
  next
    case 4
    then obtain x where x: "struct_encode E S rec name (jiter (jat T ''fields'')) x io tag = Some (st, v', io')"
      using assms(1-3) kd by (auto simp: convert_catalog_def Let_def case_prod_beta split: if_split_asm)
    have f: "fixed_fields (fixed_size S m') False (jiter (jat T ''fields'')) 0 = Some s"
      using assms(4,6) n mk kd 4 by (auto simp: eqs)
    have "any_field (variable_field (variable_at S k')) (jiter (jat T ''fields'')) = Some False"
      using assms(4,8) n mk kind 4 by (auto simp: eqs jat_def contains_def split: if_splits option.splits)
    from struct_len [OF x assms(2,3) _ f assms(7) this ok] T show ?thesis by (simp add: sane_type_def)
  qed
qed

end

lemma alias_size:
  assumes "alias_of S name base n" and "fixed_size S m name = Some s" and "0 \<le> s" and "native_type base = Some T"
    and "name \<notin> set (''string'' # native_names)"
  shows "s = int (native_size T) * n"
proof -
  obtain m' where m: "m = Suc m'" using assms(2,3) by (cases m) auto
  have ne: "name \<notin> {''bool'', ''u8'', ''i8''}" "name \<notin> {''u16'', ''i16''}"
      "name \<notin> {''u32'', ''i32'', ''f32'', ''string''}" "name \<notin> {''u64'', ''i64'', ''f64''}"
    using assms(5) by (auto simp: native_names_def)
  obtain s1 where "fixed_size S m' base = Some s1" "0 \<le> s1" "s = s1 * n"
    using assms(1-3) ne m
    by (auto simp: alias_of_def fixed_size.simps(2) [of S m' name] Option.bind_eq_Some_conv int64_mult_def
        split: option.splits if_splits)
  with fixed_native [OF _ _ assms(4)] show ?thesis by fastforce
qed

lemma sized_convert_at: "sized (convert_at E N syms S n) N S"
proof (induction n)
  case 0
  show ?case by unfold_locales auto
next
  case (Suc n)
  have cat: "layouts N S \<Longrightarrow> alias_of S ''vl_api_interface_index_t'' ''u32'' 1" "layouts N S \<Longrightarrow> alias_of S ''vl_api_ip4_address_t'' ''u8'' 4"
    "layouts N S \<Longrightarrow> alias_of S ''vl_api_ip6_address_t'' ''u8'' 16" "layouts N S \<Longrightarrow> alias_of S ''vl_api_mac_address_t'' ''u8'' 6"
    by (auto simp: layouts_def sane_catalog_def)
  have len: "out_len io' = out_len io + nat s"
    if ok: "layouts N S" and c: "convert_at E N syms S (Suc n) name v io tag = Some (st, v', io')" "st_ok st" "encoding io"
      and f: "fixed_size S m name = Some s" "0 \<le> s" "variable_at S k name = Some False"
    for name v io tag st v' io' m s k
  proof (cases "native_type name")
    case (Some T)
    then show ?thesis using c Number_len [of T v io] fixed_native [OF f(1,2) Some] by auto
  next
    case None
    consider "name = ''bool''" | "name = ''vl_api_interface_index_t''" | l where "address_size name = Some l"
      | T where "name \<notin> set (''string'' # native_names)" "Type S name = Some T"
          "convert_catalog E S (convert_at E N syms S n) name T v io tag = Some (st, v', io')"
      using c f(3) None
      by (auto simp: native_names_def native_type_def split: if_split_asm option.split_asm)
    then show ?thesis
    proof cases
      case 1
      then have "s = 1" using f(1,2) by (cases m) auto
      then show ?thesis using c 1 leaf_len(1) [of v io] by (auto simp: native_type_def)
    next
      case 2
      have "s = 4" using alias_size [OF cat(1) [OF ok], of m s "UInt 4"] f(1,2) 2 by (auto simp: native_type_def native_names_def)
      then show ?thesis using c 2 leaf_len(2) [of syms v io] by (auto simp: native_type_def)
    next
      case (3 l)
      have "nat s = l"
        using 3 alias_size [OF cat(2) [OF ok], of m s "UInt 1"] alias_size [OF cat(3) [OF ok], of m s "UInt 1"]
          alias_size [OF cat(4) [OF ok], of m s "UInt 1"] f(1,2)
        by (auto simp: address_size_def native_type_def native_names_def split: if_splits)
      moreover have "l \<in> {4, 6, 16}" "convert_address N l v io = (st, v', io')"
        using 3 c(1) by (auto simp: address_size_def native_type_def split: if_splits)
      ultimately show ?thesis using address_len [OF _ c(2,3)] ok by (auto simp: layouts_def)
    next
      case (4 T)
      from sized.catalog_len [OF Suc 4(3) c(2,3) 4(2,1) f ok] show ?thesis .
    qed
  qed
  show ?case by (intro sized.intro sized_axioms.intro streaming_convert_at) (rule len)
qed

interpretation layout: sized "convert_at E N syms S n" N S for E N syms S n
  by (rule sized_convert_at)

subsection \<open>Exact sizes\<close>

lemma Encode_convert:
  assumes "Encode E N S name v syms = Some (st, out)"
  obtains v' where "convert_at E N syms S 33 name v (Enc []) None = Some (st, v', Enc out)"
proof -
  obtain v' io where c: "convert_at E N syms S 33 name v (Enc []) None = Some (st, v', io)"
    "out = (case io of Enc out \<Rightarrow> out | Dec _ \<Rightarrow> [])"
    using assms by (auto simp: Encode_def Convert_def Option.bind_eq_Some_conv)
  from codec.flow [OF c(1)] c(2) have "io = Enc out" by auto
  with c(1) that show thesis by simp
qed

text \<open>
  C23. \<open>FixedSize\<close> is exact: over a catalog of the usual shape, every value that encodes at a type that is
  not variable gives a message of exactly the size \<open>FixedSize\<close> computed beforehand.
\<close>

theorem fixed_size_exact:
  assumes "layouts N S" and "FixedSize S name = Some s" and "0 \<le> s" and "Variable S name = Some False"
    and "Encode E N S name v syms = Some (st, out)" and "st_ok st"
  shows "length out = nat s"
proof -
  obtain v' where "convert_at E N syms S 33 name v (Enc []) None = Some (st, v', Enc out)"
    using assms(5) by (rule Encode_convert)
  from layout.size_rec [OF assms(1) this assms(6)] assms(2-4) show ?thesis
    by (auto simp: FixedSize_def Variable_def)
qed

lemma fixed_fields_union:
  assumes "fixed_fields p True fs acc = Some s" "0 \<le> s" "f \<in> set fs"
  shows "\<exists>x. field_size p f = Some x \<and> 0 \<le> x \<and> x \<le> s"
  using assms
proof (induction fs arbitrary: acc)
  case (Cons g fs)
  have mono: "fixed_fields p True gs a = Some b \<Longrightarrow> 0 \<le> b \<Longrightarrow> a \<le> b" for gs a b
    by (induction gs arbitrary: a) (fastforce simp: Option.bind_eq_Some_conv split: if_splits)+
  from Cons show ?case
    by (auto simp: Option.bind_eq_Some_conv split: if_splits dest: mono)
qed simp

lemma any_field_False: "any_field g fs = Some False \<Longrightarrow> f \<in> set fs \<Longrightarrow> g f = Some False"
  by (induction fs) (auto simp: Option.bind_eq_Some_conv split: if_splits)


definition sample_catalog :: json where
  "sample_catalog = JObject [(''methods'', JObject []), (''types'', JObject [
     (''rule'', JObject [(''fields'', JArray [
        JObject [(''name'', JString ''proto''), (''type'', JString ''vl_api_proto_t'')],
        JObject [(''name'', JString ''sw_if_index''), (''type'', JString ''vl_api_interface_index_t'')],
        JObject [(''length'', JUint 2), (''name'', JString ''marks''), (''type'', JString ''u16'')],
        JObject [(''length'', JUint 4), (''name'', JString ''tag''), (''type'', JString ''string'')]]), (''kind'', JString ''struct'')]),
     (''vl_api_host_t'', JObject [(''fields'', JArray [
        JObject [(''name'', JString ''ip4''), (''type'', JString ''vl_api_ip4_address_t'')],
        JObject [(''name'', JString ''port''), (''type'', JString ''u16'')]]), (''kind'', JString ''union'')]),
     (''vl_api_interface_index_t'', JObject [(''kind'', JString ''alias''), (''type'', JString ''u32'')]),
     (''vl_api_ip4_address_t'', JObject [(''kind'', JString ''alias''), (''length'', JUint 4), (''type'', JString ''u8'')]),
     (''vl_api_proto_t'', JObject [(''flags'', JBool False), (''kind'', JString ''enum''), (''type'', JString ''u8''),
        (''values'', JObject [(''TCP'', JUint 6), (''UDP'', JUint 17)])])])]"

lemmas [schema_eval] = sample_catalog_def sample_inet_def sample_symbols_def value_as_def FixedSize_def Variable_def
  field_size_def variable_field_def int64_mult_def to_int32_def union_encode_def convert_union_def struct_encode_def
  convert_alias_def convert_enum_def enum_numeric_def convert_field_def convert_array_def array_count_def
  convert_member_def selected_tag_def fixed_string_def address_bytes_def is_address_def is_prefix_def UINT32_MAX_def
  c_str_def

lemma layouts_sample: "layouts sample_inet sample_catalog"
proof -
  have "sane_catalog sample_catalog"
    by (simp add: sane_catalog_def sane_type_def sane_field_def sane_length_def native_names_def alias_of_def schema_eval)
  moreover have "inet_lengths sample_inet" by (auto simp: inet_lengths_def sample_inet_def split: if_splits)
  ultimately show ?thesis by (simp add: layouts_def)
qed

lemma sample_rule_size: "FixedSize sample_catalog ''rule'' = Some 13" "Variable sample_catalog ''rule'' = Some False"
  by (simp_all add: schema_eval)

definition sample_rule :: json where
  "sample_rule = JObject [(''marks'', JArray [JUint 1, JUint 513]), (''proto'', JString ''UDP''),
     (''sw_if_index'', JString ''loop0''), (''tag'', JString ''ab'')]"

definition sample_rule_bytes :: string where
  "sample_rule_bytes = map char_of [17, 7, 0, 0, 0, 1, 0, 1, 2, 97, 98, 0, 0 :: nat]"

lemma sample_rule_encodes:
  "Encode sample_env sample_inet sample_catalog ''rule'' sample_rule sample_symbols = Some (Ok, sample_rule_bytes)"
  by (simp add: sample_rule_def sample_rule_bytes_def schema_eval) code_simp

theorem fixed_size_exact_witness:
  "Encode sample_env sample_inet sample_catalog ''rule'' sample_rule sample_symbols = Some (Ok, sample_rule_bytes) \<and>
   length sample_rule_bytes = nat 13"
  using sample_rule_encodes
    fixed_size_exact [OF layouts_sample sample_rule_size(1) _ sample_rule_size(2) sample_rule_encodes] by simp

lemma sample_host_encodes:
  "Encode sample_env sample_inet sample_catalog ''vl_api_host_t'' (JObject [(''port'', JUint 80)]) sample_symbols =
     Some (Ok, map char_of [80, 0, 0, 0 :: nat])"
  by (simp add: schema_eval) code_simp


subsection \<open>Members with a length\<close>

text \<open>
  The hypothesis on the members is needed: a fixed string as a union member is encoded like a string
  of variable length, and \<open>resize\<close> then cuts it silently.
\<close>

definition name_catalog :: json where
  "name_catalog = JObject [(''methods'', JObject []), (''types'', JObject [
     (''vl_api_key_t'', JObject [(''fields'', JArray [
        JObject [(''length'', JUint 8), (''name'', JString ''name''), (''type'', JString ''string'')]]), (''kind'', JString ''union'')])])]"

lemma union_string_cut:
  "Encode sample_env sample_inet name_catalog ''vl_api_key_t'' (JObject [(''name'', JString ''abcdef'')]) sample_symbols =
     Some (Ok, map char_of [6, 0, 0, 0 :: nat] @ ''abcd'')"
  by (simp add: name_catalog_def schema_eval)

end
