(* ===== verification/Schema_Float.thy ===== *)
theory Schema_Float
  imports Schema
begin

text \<open>
  Single-precision numbers in the codec. A double is rounded to a float when a request is encoded and the
  float is widened again when a reply is decoded; widening is exact, so a float that has once been
  through the codec is a fixed point of it.
\<close>

subsection \<open>Rounding\<close>

lemma round_even_exact [simp]: "round_even (a * 2 ^ k) k = a"
  by (cases k) (simp_all add: round_even_def Let_def)

lemma round_even_bound: "m < b * 2 ^ k \<Longrightarrow> round_even m k \<le> b"
proof -
  assume "m < b * 2 ^ k"
  then have "m div 2 ^ k < b" by (simp add: div_less_iff_less_mult)
  then show ?thesis by (auto simp: round_even_def Let_def)
qed

lemma top_bit_bounds: "0 < m \<Longrightarrow> 2 ^ top_bit m \<le> m \<and> m < 2 ^ Suc (top_bit m)"
proof (induction m rule: top_bit.induct)
  case (1 m)
  show ?case
  proof (cases "m < 2")
    case True
    then show ?thesis using 1(2) by (simp add: top_bit.simps [of m])
  next
    case False
    then have "2 ^ top_bit (m div 2) \<le> m div 2" "m div 2 < 2 ^ Suc (top_bit (m div 2))" using 1(1) by auto
    then show ?thesis using False by (subst (1 2) top_bit.simps [of m]) (simp, linarith)
  qed
qed

subsection \<open>The parts of a number\<close>

lemma digit_parts: "m < (b :: nat) \<Longrightarrow> (c * b + m) mod b = m" "m < b \<Longrightarrow> (c * b + m) div b = c"
  by simp_all

lemma f64_parts:
  assumes "e < 2048" "m < 2 ^ 52" and "w = of_nat ((if s then 2 ^ 63 else 0) + e * 2 ^ 52 + m)"
  shows "f64_exp w = e" "f64_mant w = m" "f64_neg w = s" "unat w mod 2 ^ 63 = e * 2 ^ 52 + m"
proof -
  have lt: "e * 2 ^ 52 + m < 2 ^ 63" using assms(1,2) by simp
  have u: "unat w = (if s then 2 ^ 63 else 0) + e * 2 ^ 52 + m" unfolding assms(3) unat_of_nat using lt by (cases s) simp_all
  have q: "unat w = ((if s then 2 ^ 11 else 0) + e) * 2 ^ 52 + m" unfolding u by (cases s) simp_all
  show "f64_mant w = m" unfolding f64_mant_def q using assms(2) by (rule digit_parts)
  show "f64_neg w = s" unfolding f64_neg_def u using lt by (cases s) simp_all
  show "unat w mod 2 ^ 63 = e * 2 ^ 52 + m" unfolding u using lt by (cases s) (simp_all add: mod_if)
  have "unat w div 2 ^ 52 = (if s then 2 ^ 11 else 0) + e" unfolding q using assms(2) by (rule digit_parts)
  then show "f64_exp w = e" unfolding f64_exp_def using assms(1) by (cases s) simp_all
qed

lemma widen_narrow:
  assumes "y < 255 * 2 ^ 23" and u_def: "u = (if s then 2 ^ 31 else 0) + y"
  shows "f32_of_f64 (f64_of_f32 u) = u \<and> f64_finite (f64_of_f32 u) \<and> unat (f64_of_f32 u) mod 2 ^ 63 \<le> 0x47EFFFFFE0000000"
proof -
  define e m where "e = y div 2 ^ 23" and "m = y mod 2 ^ 23"
  have em: "e < 255" "m < 2 ^ 23" "y = e * 2 ^ 23 + m"
    using assms(1) by (simp_all only: e_def m_def div_less_iff_less_mult div_mult_mod_eq) simp_all
  have q: "u = ((if s then 2 ^ 8 else 0) + e) * 2 ^ 23 + m" unfolding u_def em(3) by (cases s) simp_all
  have "u div 2 ^ 23 = (if s then 2 ^ 8 else 0) + e" unfolding q using em(2) by (rule digit_parts)
  then have "u div 2 ^ 23 mod 2 ^ 8 = e" using em(1) by (cases s) simp_all
  moreover have "u mod 2 ^ 23 = m" unfolding q using em(2) by (rule digit_parts)
  moreover have "2 ^ 31 \<le> u \<longleftrightarrow> s" using assms(1) unfolding u_def by simp
  ultimately have u: "2 ^ 31 \<le> u \<longleftrightarrow> s" "u div 2 ^ 23 mod 2 ^ 8 = e" "u mod 2 ^ 23 = m" by blast+
  show ?thesis
  proof (cases "e = 0")
    case False
    have v: "f64_of_f32 u = of_nat ((if s then 2 ^ 63 else 0) + (e + 896) * 2 ^ 52 + m * 2 ^ 29)"
      unfolding f64_of_f32_def Let_def u using False em(1) by simp
    have b: "e + 896 < 2048" "m * 2 ^ 29 < 2 ^ 52" using em by simp_all
    note p = f64_parts [OF b v]
    have "round_even (m * 2 ^ 29 + 2 ^ 52) 29 = m + 2 ^ 23" using round_even_exact [of "m + 2 ^ 23" 29] by (simp add: algebra_simps)
    then have "f32_of_f64 (f64_of_f32 u) = u" unfolding f32_of_f64_def Let_def p using False em(3) by (simp add: u_def)
    moreover have "(e + 896) * 2 ^ 52 + m * 2 ^ 29 \<le> 0x47EFFFFFE0000000" using em by simp
    ultimately show ?thesis unfolding f64_finite_def p using em(1) by simp
  next
    case e0: True
    show ?thesis
    proof (cases "m = 0")
      case True
      have v: "f64_of_f32 u = of_nat ((if s then 2 ^ 63 else 0) + 0 * 2 ^ 52 + 0)"
        unfolding f64_of_f32_def Let_def u using True e0 by simp
      note p = f64_parts [OF _ _ v]
      have "round_even 0 k = 0" for k using round_even_exact [of 0 k] by simp
      then have "f32_of_f64 (f64_of_f32 u) = u" unfolding f32_of_f64_def Let_def using p True e0 em(3) by (simp add: u_def)
      then show ?thesis unfolding f64_finite_def using p by simp
    next
      case False
      let ?t = "top_bit m"
      have t: "2 ^ ?t \<le> m" "m < 2 ^ Suc ?t" using top_bit_bounds [of m] False by auto
      have "(2 :: nat) ^ ?t < 2 ^ 23" using t(1) em(2) by linarith
      then have t23: "?t < 23" by (rule power_less_imp_less_exp [rotated]) simp
      have sp: "(2 :: nat) ^ 52 = 2 ^ ?t * 2 ^ (52 - ?t)" using t23 by (simp only: power_add [symmetric]) simp
      have v: "f64_of_f32 u = of_nat ((if s then 2 ^ 63 else 0) + (?t + 874) * 2 ^ 52 + (m - 2 ^ ?t) * 2 ^ (52 - ?t))"
        unfolding f64_of_f32_def Let_def u using False e0 by simp
      have "m - 2 ^ ?t < 2 ^ ?t" using t(2) by simp
      then have "(m - 2 ^ ?t) * 2 ^ (52 - ?t) < 2 ^ ?t * 2 ^ (52 - ?t)" by simp
      then have b2: "(m - 2 ^ ?t) * 2 ^ (52 - ?t) < 2 ^ 52" unfolding sp .
      have "?t + 874 < 2048" using t23 by simp
      note b = this b2
      note p = f64_parts [OF b v]
      have "(m - 2 ^ ?t) * 2 ^ (52 - ?t) + 2 ^ 52 = m * 2 ^ (52 - ?t)" 
        unfolding sp add_mult_distrib [symmetric] using t(1) by simp
      moreover have "29 + (897 - (?t + 874)) = 52 - ?t" using t23 by simp
      ultimately have "f32_of_f64 (f64_of_f32 u) = u" unfolding f32_of_f64_def Let_def p using t23 e0 em(3) by (simp add: u_def)
      moreover have "(?t + 874) * 2 ^ 52 + (m - 2 ^ ?t) * 2 ^ (52 - ?t) \<le> 0x47EFFFFFE0000000" using b(2) t23 by simp
      ultimately show ?thesis unfolding f64_finite_def p using t23 by simp
    qed
  qed
qed

lemma narrow_bound:
  assumes "unat w mod 2 ^ 63 \<le> 0x47EFFFFFE0000000"
  shows "\<exists>y < 255 * 2 ^ 23. f32_of_f64 w = (if f64_neg w then 2 ^ 31 else 0) + y"
proof -
  define e m where "e = f64_exp w" and "m = f64_mant w"
  have "unat w mod 2 ^ 63 = e * 2 ^ 52 + m"
    using mod_mult2_eq [of "unat w" "2 ^ 52" "2 ^ 11"] by (simp add: e_def m_def f64_exp_def f64_mant_def)
  then have em: "e * 2 ^ 52 + m \<le> 0x47EFFFFFE0000000" "m < 2 ^ 52" using assms by (simp_all add: m_def f64_mant_def)
  show ?thesis
  proof (cases "897 \<le> e")
    case True
    have e: "e \<le> 1150" using em(1) by simp
    have "round_even (m + 2 ^ 52) 29 \<le> 2 ^ 24" using em(2) by (intro round_even_bound) simp
    moreover have "round_even (m + 2 ^ 52) 29 < 2 ^ 24" if "e = 1150"
    proof -
      have "m \<le> 0xFFFFFE0000000" using em(1) that by simp
      then have "m + 2 ^ 52 < (2 ^ 24 - 1) * 2 ^ 29 \<or> m + 2 ^ 52 = (2 ^ 24 - 1) * 2 ^ 29" by auto
      then show ?thesis using round_even_bound [of "m + 2 ^ 52" "2 ^ 24 - 1" 29] round_even_exact [of "2 ^ 24 - 1" 29] by auto
    qed
    ultimately have "(e - 896) * 2 ^ 23 + (round_even (m + 2 ^ 52) 29 - 2 ^ 23) < 255 * 2 ^ 23" using e True by (cases "e = 1150") auto
    then show ?thesis using True unfolding f32_of_f64_def Let_def e_def [symmetric] m_def [symmetric] by auto
  next
    case False
    let ?m = "m + (if e = 0 then 0 else 2 ^ 52)" and ?k = "29 + (897 - (if e = 0 then 1 else e))"
    have "(2 :: nat) ^ 30 \<le> 2 ^ ?k" using False by (intro power_increasing) auto
    then have "2 ^ 23 * (2 :: nat) ^ 30 \<le> 2 ^ 23 * 2 ^ ?k" by (rule mult_le_mono2)
    then have "?m < 2 ^ 23 * 2 ^ ?k" using em(2) by (auto simp del: power_increasing_iff)
    then have "round_even ?m ?k \<le> 2 ^ 23" by (rule round_even_bound)
    then show ?thesis using False unfolding f32_of_f64_def Let_def e_def [symmetric] m_def [symmetric] by auto
  qed
qed

end
