(* ===== verification/Schema_Values.thy ===== *)
theory Schema_Values
  imports Schema_Size Schema_Float
begin

text \<open>
  Reading back the values without structure: what was encoded for a number, a boolean, a string, an address or
  an interface is decoded without error, and the decoded value encodes to the same bytes. The decoded value
  itself may differ, in the spelling of a number or an address.
\<close>

subsection \<open>Reading back\<close>

definition reads_back :: "(json \<Rightarrow> io \<Rightarrow> json option \<Rightarrow> conversion) \<Rightarrow> string \<Rightarrow> json \<Rightarrow> bool" where
  "reads_back c out w \<longleftrightarrow>
     (\<forall>u rest tag. c u (Dec (out @ rest)) tag = Some (Ok, w, Dec rest)) \<and>
     (\<forall>pre tag. length (pre @ out) \<le> kPayloadLimit \<longrightarrow> (\<exists>x. c w (Enc pre) tag = Some (Ok, x, Enc (pre @ out))))"

lemma reads_back_enc:
  "reads_back c out w \<Longrightarrow> length (pre @ out) \<le> kPayloadLimit \<Longrightarrow> \<exists>x. c w (Enc pre) tag = Some (Ok, x, Enc (pre @ out))"
  by (simp add: reads_back_def)

lemma Bytes_Enc:
  "st_ok st \<Longrightarrow> Bytes data (Enc pre) = (st, bs, io) \<longleftrightarrow>
     length (pre @ data) \<le> kPayloadLimit \<and> st = Ok \<and> bs = data \<and> io = Enc (pre @ data)"
  by (auto split: if_split_asm)

lemma Bytes_Enc_fits: "length (pre @ data) \<le> kPayloadLimit \<Longrightarrow> Bytes data (Enc pre) = (Ok, data, Enc (pre @ data))"
  by auto

lemma Bytes_Dec: "length data = length out \<Longrightarrow> Bytes data (Dec (out @ rest)) = (Ok, out, Dec rest)"
  by simp

declare Bytes.simps [simp del]

subsection \<open>Numbers\<close>

lemma bytes_word_word_bytes: "bytes_word (word_bytes n i) = nat (i mod 256 ^ n)"
proof -
  have "map of_char (map char_of (le_bytes n x) :: string) = le_bytes n x" for x
    by (induction n arbitrary: x) (simp_all add: of_char_of)
  moreover have "nat (i mod 256 ^ n) < 256 ^ n"
    by (simp add: nat_less_iff)
  ultimately show ?thesis by (simp add: bytes_word_def word_bytes_def of_le_bytes_le_bytes)
qed

lemma digit_foldl: "foldl (\<lambda>acc c. 10 * acc + digit_value c) a (to_string n) = of_digits a (to_string n)"
proof -
  have "list_all (\<lambda>c. digit_value c = of_char c - 48) ''0123456789''" by code_simp
  then have d: "\<forall>c \<in> set (to_string n). digit_value c = of_char c - 48" using to_string_digits unfolding list_all_iff by blast
  have "(\<forall>c \<in> set s. digit_value c = of_char c - 48) \<Longrightarrow> foldl (\<lambda>acc c. 10 * acc + digit_value c) a s = of_digits a s" for s
    by (induction s arbitrary: a) simp_all
  then show ?thesis using d by blast
qed

lemma from_chars_to_string: "n < limit \<Longrightarrow> from_chars_nat 10 limit (to_string n) = Some (n, [])"
proof -
  assume n: "n < limit"
  have "list_all (\<lambda>c. digit_value c < 10) ''0123456789''" by code_simp
  then have tw: "takeWhile (\<lambda>c. digit_value c < 10) (to_string n) = to_string n"
    using to_string_digits unfolding list_all_iff by (subst takeWhile_eq_all_conv) blast
  show ?thesis using n digit_foldl [of 0 n] of_digits_to_string [of n]
    unfolding from_chars_nat_def tw Let_def by simp
qed

lemma from_chars_int_to_string: "- (2 ^ 63) \<le> i \<Longrightarrow> i < 2 ^ 63 \<Longrightarrow> from_chars_int (int_to_string i) = Some (i, [])"
proof -
  assume i: "- (2 ^ 63) \<le> i" "i < 2 ^ 63"
  have d: "c \<noteq> CHR ''-''" if "c \<in> set (to_string n)" for c n using to_string_digits [OF that] by auto
  obtain c cs where s: "to_string (nat i) = c # cs" by (cases "to_string (nat i)") auto
  then have "c \<noteq> CHR ''-''" using d [of c "nat i"] by simp
  then show ?thesis
    using i s from_chars_to_string [of "nat (- i)" "2 ^ 63 + 1"] from_chars_to_string [of "nat i" "2 ^ 63"]
    by (auto simp: int_to_string_def from_chars_int_def)
qed

text \<open>The value of a JSON integer.\<close>

fun jint :: "json \<Rightarrow> int" where
  "jint (JUint n) = int n"
| "jint (JInt i) = i"
| "jint _ = 0"

lemma integer_bytes_ok:
  "st_ok (fst (integer_bytes n low high v)) \<longleftrightarrow> is_number_integer v \<and> (is_number_unsigned v \<or> low \<le> jint v) \<and> jint v \<le> high"
  "st_ok (fst (integer_bytes n low high v)) \<Longrightarrow> integer_bytes n low high v = (Ok, word_bytes n (jint v))"
  by (cases v; auto simp: integer_bytes_def Let_def)+

lemma signed_word_inverse:
  assumes "- (256 ^ n div 2) \<le> i" "i \<le> 256 ^ n div 2 - 1" and "0 < n"
  shows "signed_word n (nat (i mod 256 ^ n)) = i"
proof -
  obtain h :: int where h: "256 ^ n = 2 * h" using assms(3) by (cases n) (auto intro: that [of "128 * 256 ^ (n - 1)"])
  then have b: "- h \<le> i" "i < h" using assms(1,2) by simp_all
  have half: "2 * nat x < 256 ^ n \<longleftrightarrow> x < h" if "0 \<le> x" for x
    unfolding of_nat_less_iff [where 'a = int, symmetric] using that h by simp
  show ?thesis
  proof (cases "0 \<le> i")
    case True
    then have "i mod 256 ^ n = i" using b h by simp
    then show ?thesis using True half [of i] b by (simp add: signed_word_def)
  next
    case False
    have "(i + 2 * h) mod (2 * h) = i + 2 * h" using False b by (intro mod_pos_pos_trivial) linarith+
    then have "i mod 256 ^ n = i + 2 * h" using h by simp
    then show ?thesis using half [of "i + 2 * h"] b h by (simp add: signed_word_def)
  qed
qed

fun invertible :: "native \<Rightarrow> bool" where
  "invertible (UInt n) \<longleftrightarrow> n \<in> {1, 2, 4, 8}"
| "invertible (SInt n) \<longleftrightarrow> n \<in> {1, 2, 4, 8}"
| "invertible Float32 \<longleftrightarrow> True"
| "invertible Float64 \<longleftrightarrow> True"

lemma native_invertible: "native_type name = Some T \<Longrightarrow> invertible T"
  by (auto simp: native_type_def split: if_split_asm)

lemma decimal_bytes_ok:
  "st_ok (fst (decimal_bytes p)) \<longleftrightarrow> (\<exists>i. p = Some (i, []))"
  "st_ok (fst (decimal_bytes p)) \<Longrightarrow> \<exists>i. p = Some (i, []) \<and> decimal_bytes p = (Ok, word_bytes 8 i)"
  by (auto simp: decimal_bytes_def split: option.splits prod.splits list.splits)

lemma from_chars_bound: "from_chars_nat base limit s = Some (n, r) \<Longrightarrow> n < limit"
  by (auto simp: from_chars_nat_def Let_def split: if_split_asm)

lemma from_chars_int_bound: "from_chars_int s = Some (i, r) \<Longrightarrow> - (2 ^ 63) \<le> i \<and> i < 2 ^ 63"
  by (auto simp: from_chars_int_def split: list.split_asm if_split_asm dest!: from_chars_bound)

lemma number_inverse:
  assumes "st_ok (fst (number_bytes T v))" and "invertible T"
  shows "number_bytes T (number_json T (snd (number_bytes T v))) = (Ok, snd (number_bytes T v)) \<and>
    (\<forall>w. number_json T (snd (number_bytes T v)) = JFloat w \<longrightarrow> f64_finite w)"
proof (cases T)
  case (UInt n)
  show ?thesis
  proof (cases "n = 8")
    case True
    then have "st_ok (fst (decimal_bytes (map_option (\<lambda>(u, rest). (int u, rest)) (from_chars_nat 10 (2 ^ 64) (jtext v)))))"
      using assms(1) UInt by (auto split: if_split_asm)
    then obtain u where u: "from_chars_nat 10 (2 ^ 64) (jtext v) = Some (u, [])" by (auto simp: decimal_bytes_ok(1))
    have "number_bytes T v = (Ok, word_bytes 8 (int u))" using assms(1) UInt True u by (auto simp: decimal_bytes_def split: if_split_asm)
    moreover have "bytes_word (word_bytes 8 (int u)) = u" using from_chars_bound [OF u] by (simp add: bytes_word_word_bytes)
    ultimately show ?thesis using UInt True from_chars_to_string [OF from_chars_bound [OF u]] by (simp add: decimal_bytes_def)
  next
    case False
    then have i: "st_ok (fst (integer_bytes n 0 (256 ^ n - 1) v))" using assms(1) UInt by simp
    then have v: "0 \<le> jint v" "jint v \<le> 256 ^ n - 1" by (cases v; auto simp: integer_bytes_ok(1))+
    have "number_bytes T v = (Ok, word_bytes n (jint v))" using UInt False integer_bytes_ok(2) [OF i] by simp
    moreover have "bytes_word (word_bytes n (jint v)) = nat (jint v)" using v by (simp add: bytes_word_word_bytes)
    ultimately show ?thesis using UInt False v
      by (simp add: integer_bytes_def Let_def nat_less_iff)
  qed
next
  case (SInt n)
  show ?thesis
  proof (cases "n = 8")
    case True
    then have "st_ok (fst (decimal_bytes (from_chars_int (jtext v))))"
      using assms(1) SInt by (auto split: if_split_asm)
    then obtain i where i: "from_chars_int (jtext v) = Some (i, [])" by (auto simp: decimal_bytes_ok(1))
    note b = from_chars_int_bound [OF i]
    have "number_bytes T v = (Ok, word_bytes 8 i)" using assms(1) SInt True i by (auto simp: decimal_bytes_def split: if_split_asm)
    moreover have "signed_word 8 (bytes_word (word_bytes 8 i)) = i" using b signed_word_inverse [of 8 i] by (simp add: bytes_word_word_bytes)
    ultimately show ?thesis using SInt True from_chars_int_to_string b by (simp add: decimal_bytes_def)
  next
    case False
    then have i: "st_ok (fst (integer_bytes n (- (256 ^ n div 2)) (256 ^ n div 2 - 1) v))" using assms(1) SInt by simp
    have "0 < n" using assms(2) SInt by auto
    have v: "- (256 ^ n div 2) \<le> jint v" "jint v \<le> 256 ^ n div 2 - 1"
      using i by (cases v; auto simp: integer_bytes_ok(1) intro: order_trans [of _ 0])+
    have "number_bytes T v = (Ok, word_bytes n (jint v))" using SInt False integer_bytes_ok(2) [OF i] by simp
    moreover have "signed_word n (bytes_word (word_bytes n (jint v))) = jint v"
      using signed_word_inverse [OF v \<open>0 < n\<close>] by (simp add: bytes_word_word_bytes)
    ultimately show ?thesis using SInt False v by (simp add: integer_bytes_def Let_def)
  qed
next
  case Float64
  let ?w = "get_double v"
  have f: "is_number v" "f64_finite ?w" "number_bytes T v = (Ok, word_bytes 8 (uint ?w))"
    using assms(1) Float64 by (auto split: if_split_asm)
  have "uint ?w < 256 ^ 8" using uint_lt2p [of ?w] by simp
  then have "bytes_word (word_bytes 8 (uint ?w)) = unat ?w" by (simp add: bytes_word_word_bytes)
  then show ?thesis using f Float64 by simp
next
  case Float32
  let ?u = "f32_of_f64 (get_double v)"
  have f: "is_number v" "unat (get_double v) mod 2 ^ 63 \<le> 0x47EFFFFFE0000000" "number_bytes T v = (Ok, word_bytes 4 (int ?u))"
    using assms(1) Float32 by (auto split: if_split_asm)
  obtain y where y: "y < 255 * 2 ^ 23" "?u = (if f64_neg (get_double v) then 2 ^ 31 else 0) + y"
    using narrow_bound [OF f(2)] by blast
  then have "bytes_word (word_bytes 4 (int ?u)) = ?u" by (simp add: bytes_word_word_bytes)
  then show ?thesis using f(3) Float32 widen_narrow [OF y] by simp
qed

lemma Number_inverse:
  assumes "Number T v (Enc pre) = (st, v', Enc (pre @ out))" and "st_ok st" and "invertible T"
  shows "reads_back (\<lambda>u io tag. Some (Number T u io)) out (number_json T out)"
proof -
  obtain st0 data where d: "number_bytes T v = (st0, data)" by force
  then have ok: "st_ok st0" using assms(1,2) by (auto simp: Number_def split: if_split_asm)
  then have "data = out" using d assms(1,2) by (auto simp: Number_def Bytes_Enc split: prod.split_asm if_split_asm)
  then have w: "number_bytes T (number_json T out) = (Ok, out)"
      "\<forall>w. number_json T out = JFloat w \<longrightarrow> f64_finite w" and len: "length out = native_size T"
    using number_inverse [of T v] number_bytes_len [OF d ok] d ok assms(3) by auto
  have "Number T u (Dec (out @ rest)) = (Ok, number_json T out, Dec rest)" for u rest
    using w(2) len by (simp add: Number_def Bytes_Dec Let_def split: json.splits)
  moreover have "Number T (number_json T out) (Enc pre) = (Ok, number_json T out, Enc (pre @ out))"
    if "length (pre @ out) \<le> kPayloadLimit" for pre
    using w(1) Bytes_Enc_fits [OF that] by (simp add: Number_def)
  ultimately show ?thesis by (simp add: reads_back_def)
qed

subsection \<open>The other values without structure\<close>

lemma bool_inverse:
  assumes "convert_bool v (Enc pre) = (st, v', Enc (pre @ out))" and "st_ok st"
  shows "\<exists>w. reads_back (\<lambda>u io tag. Some (convert_bool u io)) out w"
proof -
  obtain b where b: "v = JBool b" using assms by (cases v) (auto simp: convert_bool_def)
  then have out: "out = [if b then CHR 0x01 else CHR 0x00]"
    using assms by (auto simp: convert_bool_def Bytes_Enc split: prod.split_asm if_split_asm)
  have "reads_back (\<lambda>u io tag. Some (convert_bool u io)) out (JBool b)"
    using Bytes_Dec [of "[CHR 0x00]" out] Bytes_Enc_fits [of _ out]
    by (cases b) (auto simp: out reads_back_def convert_bool_def)
  then show ?thesis by blast
qed

lemma word_bytes_length: "word_bytes 4 (int (n mod 256 ^ 4)) = word_bytes 4 (int n)"
  by (simp add: word_bytes_def of_nat_mod)

lemma string_inverse:
  assumes "convert_string v (Enc pre) = (st, v', Enc (pre @ out))" and "st_ok st"
  shows "\<exists>w. reads_back (\<lambda>u io tag. Some (convert_string u io)) out w"
proof -
  obtain s where s: "v = JString s" using assms by (cases v) (auto simp: convert_string_def)
  let ?n = "bytes_word (word_bytes 4 (int (length s)))"
  have n: "?n = length s mod 256 ^ 4" by (simp add: bytes_word_word_bytes nat_mod_as_int)
  have fit: "?n \<le> kPayloadLimit" and out: "out = word_bytes 4 (int (length s)) @ take ?n s"
    using assms by (auto simp: s convert_string_def Let_def Bytes_Enc split: prod.split_asm if_split_asm)
  have "length (take ?n s) = ?n" unfolding n by simp
  then obtain t where t: "length t = ?n" "out = word_bytes 4 (int (length s)) @ t" using out by blast
  then have h: "word_bytes 4 (int (length s)) = word_bytes 4 (int (length t))" by (simp only: n word_bytes_length)
  note o = t(2) [unfolded h] and b = t(1) [unfolded h, symmetric] and f = fit [folded t(1)]
  have "convert_string u (Dec (out @ rest)) = (Ok, JString t, Dec rest)" for u rest
    using Bytes_Dec [of "word_bytes 4 0" "word_bytes 4 (int (length t))" "t @ rest"]
      Bytes_Dec [of "replicate (length t) (CHR 0x00)" t rest] f
    by (simp add: convert_string_def o b Let_def)
  moreover have "convert_string (JString t) (Enc pre) = (Ok, JString t, Enc (pre @ out))"
    if "length (pre @ out) \<le> kPayloadLimit" for pre
    using Bytes_Enc_fits [of pre "word_bytes 4 (int (length t))"] Bytes_Enc_fits [of "pre @ word_bytes 4 (int (length t))" t] that f
    by (simp add: convert_string_def o b Let_def)
  ultimately show ?thesis unfolding reads_back_def by blast
qed

definition inet_inverse :: "inet \<Rightarrow> bool" where
  "inet_inverse N \<longleftrightarrow>
     (\<forall>s bs. pton4 N s = Some bs \<longrightarrow> length bs = 4 \<and> (\<exists>t. ntop4 N bs = Some t \<and> pton4 N (c_str t) = Some bs)) \<and>
     (\<forall>s bs. pton6 N s = Some bs \<longrightarrow> length bs = 16 \<and> (\<exists>t. ntop6 N bs = Some t \<and> pton6 N (c_str t) = Some bs))"

text \<open>The name of an index resolves to that index again, and is not the reserved \<open>@all\<close>.\<close>

definition symbols_inverse :: "symbols \<Rightarrow> bool" where
  "symbols_inverse syms \<longleftrightarrow>
     (case interface_index syms of
        None \<Rightarrow> True
      | Some f \<Rightarrow> \<forall>s. st_ok (fst (f s)) \<and> snd (f s) \<noteq> UINT32_MAX \<longrightarrow> snd (f s) < 2 ^ 32 \<and>
          (case interface_name syms of
             None \<Rightarrow> False
           | Some g \<Rightarrow> st_ok (fst (g (snd (f s)))) \<and> snd (g (snd (f s))) \<noteq> ''@all'' \<and>
               f (snd (g (snd (f s)))) = f s))"

lemma mac_hex: "from_chars_nat 16 (2 ^ 32) (hex_byte b) = Some (of_char b, [])"
proof -
  have "list_all (\<lambda>i. digit_value (kHex ! i) = i) [0..<16]" by code_simp
  then have d: "digit_value (kHex ! i) = i" if "i < 16" for i using that by (simp add: list_all_iff)
  have "(of_char b :: nat) div 16 < 16" using nat_of_char_less_256 [of b] by (simp add: div_less_iff_less_mult)
  then show ?thesis using nat_of_char_less_256 [of b] by (simp add: from_chars_nat_def hex_byte_def d Let_def)
qed

lemma mac_inverse: "bs \<noteq> [] \<Longrightarrow> mac_bytes (length bs) (mac_text bs) = Some bs \<and> length (mac_text bs) = 3 * length bs - 1"
proof (induction bs rule: mac_text.induct)
  case (2 b)
  then show ?case using mac_hex [of b] by (simp add: hex_byte_def)
next
  case (3 b c bs)
  obtain p q where hex: "hex_byte b = [p, q]" by (simp add: hex_byte_def)
  have h: "take 2 (hex_byte b @ x) = hex_byte b" "(hex_byte b @ CHR '':'' # x) ! 2 = CHR '':''"
    "drop 3 (hex_byte b @ CHR '':'' # x) = x" "length (hex_byte b) = 2" for x
    unfolding hex by (simp_all add: numeral_2_eq_2 numeral_3_eq_3)
  have m: "mac_text (b # c # bs) = hex_byte b @ CHR '':'' # mac_text (c # bs)" by simp
  note ih = 3(1) [OF list.simps(3)]
  show ?case unfolding m length_Cons [of b] mac_bytes.simps(2) h mac_hex
    using ih h(4) by (simp del: mac_text.simps mac_bytes.simps length_Cons)
qed simp

lemma address_inverse:
  assumes "convert_address N n v (Enc pre) = (st, v', Enc (pre @ out))" and "st_ok st" and "n \<in> {4, 6, 16}" and "inet_inverse N"
  shows "\<exists>w. reads_back (\<lambda>u io tag. Some (convert_address N n u io)) out w"
proof -
  obtain st0 data where d: "address_bytes N n v = (st0, data)" by force
  then have ok: "st_ok st0" using assms(1,2) by (auto simp: convert_address_def split: if_split_asm)
  then have out: "data = out" using d assms(1,2) by (auto simp: convert_address_def Bytes_Enc split: prod.split_asm if_split_asm)
  obtain t where t: "length out = n" "address_bytes N n (JString t) = (Ok, out)"
    "if n = 6 then t = mac_text out else (if n = 4 then ntop4 N else ntop6 N) out = Some t"
  proof (cases "n = 6")
    case True
    then have "mac_bytes 6 (jtext v) = Some out"
      using d ok out by (auto simp: address_bytes_def split: if_split_asm option.split_asm)
    from mac_bytes_len [OF this] have len: "length out = 6" .
    then have "out \<noteq> []" by auto
    from mac_inverse [OF this] len True that [of "mac_text out"] show thesis by (simp add: address_bytes_def)
  next
    case False
    then have "(if n = 4 then pton4 N else pton6 N) (c_str (jtext v)) = Some out"
      using d ok out by (auto simp: address_bytes_def split: if_split_asm option.split_asm)
    then obtain t where "length out = n" "(if n = 4 then ntop4 N else ntop6 N) out = Some t"
      "(if n = 4 then pton4 N else pton6 N) (c_str t) = Some out"
      using assms(3,4) False unfolding inet_inverse_def by (cases "n = 4") fastforce+
    then show thesis using that [of t] False by (simp add: address_bytes_def)
  qed
  have "convert_address N n u (Dec (out @ rest)) = (Ok, JString t, Dec rest)" for u rest
    using t(1,3) Bytes_Dec [of "replicate n (CHR 0x00)" out rest] by (auto simp: convert_address_def split: if_split_asm)
  moreover have "convert_address N n (JString t) (Enc pre) = (Ok, JString t, Enc (pre @ out))"
    if "length (pre @ out) \<le> kPayloadLimit" for pre
    using t(2) Bytes_Enc_fits [OF that] by (simp add: convert_address_def)
  ultimately show ?thesis unfolding reads_back_def by blast
qed

lemma interface_inverse:
  assumes "convert_interface syms v (Enc pre) = (st, v', Enc (pre @ out))" and "st_ok st" and "symbols_inverse syms"
  shows "\<exists>w. reads_back (\<lambda>u io tag. Some (convert_interface syms u io)) out w"
proof -
  define code :: "json \<Rightarrow> status \<times> nat" where
    "code v = (if v = JString ''@all'' then (Ok, UINT32_MAX) else
       case interface_index syms of None \<Rightarrow> (mk_status ''resource_not_found'' ''Interface resolver unavailable'', 0) | Some f \<Rightarrow> f (jtext v))" for v
  have enc: "convert_interface syms (JString s) (Enc pre) =
      (if \<not> st_ok (fst (code (JString s))) then (fst (code (JString s)), JString s, Enc pre)
       else let (st, bs, io') = Bytes (word_bytes 4 (int (snd (code (JString s))))) (Enc pre) in
         if \<not> st_ok st then (st, JString s, io') else (Ok, JString s, io'))" for s pre
    by (simp add: convert_interface_def code_def Let_def case_prod_beta)
  obtain s where s: "v = JString s" using assms(1,2) by (cases v) (auto simp: convert_interface_def)
  let ?i = "snd (code v)"
  have ok: "st_ok (fst (code v))" and out: "out = word_bytes 4 (int ?i)"
    using assms(1,2) enc [of s pre] s by (auto simp: Bytes_Enc split: prod.split_asm if_split_asm)
  obtain t where t: "st_ok (fst (code (JString t)))" "snd (code (JString t)) = ?i" "?i < 2 ^ 32"
    "if ?i = UINT32_MAX then t = ''@all'' else \<exists>g. interface_name syms = Some g \<and> st_ok (fst (g ?i)) \<and> snd (g ?i) = t"
  proof (cases "?i = UINT32_MAX")
    case True
    then show thesis using that [of "''@all''"] by (simp add: code_def UINT32_MAX_def)
  next
    case False
    then obtain f where f: "interface_index syms = Some f" "code v = f s"
      using s ok by (auto simp: code_def split: if_split_asm option.split_asm)
    with assms(3) ok False obtain g where g: "interface_name syms = Some g" "st_ok (fst (g ?i))" "snd (g ?i) \<noteq> ''@all''" "f (snd (g ?i)) = f s" "?i < 2 ^ 32"
      by (auto simp: symbols_inverse_def split: option.split_asm)
    then show thesis using that [of "snd (g ?i)"] f False ok by (simp add: code_def)
  qed
  have bw: "bytes_word out = ?i" using t(3) by (simp add: out bytes_word_word_bytes)
  have "convert_interface syms u (Dec (out @ rest)) = (Ok, JString t, Dec rest)" for u rest
    using t(4) Bytes_Dec [of "word_bytes 4 0" out rest] bw out
    by (auto simp: convert_interface_def Let_def case_prod_beta split: if_split_asm)
  moreover have "convert_interface syms (JString t) (Enc pre) = (Ok, JString t, Enc (pre @ out))"
    if "length (pre @ out) \<le> kPayloadLimit" for pre
    using t(1,2) Bytes_Enc_fits [OF that] out by (simp add: enc)
  ultimately show ?thesis unfolding reads_back_def by blast
qed

subsection \<open>Values of an enumeration\<close>

fun narrow :: "native \<Rightarrow> bool" where
  "narrow (UInt n) \<longleftrightarrow> n \<in> {1, 2, 4}"
| "narrow (SInt n) \<longleftrightarrow> n \<in> {1, 2, 4}"
| "narrow _ \<longleftrightarrow> False"

abbreviation fits :: "native \<Rightarrow> json \<Rightarrow> bool" where
  "fits T x \<equiv> st_ok (fst (number_bytes T x))"

lemma narrow_invertible: "narrow T \<Longrightarrow> invertible T"
  by (cases T) auto

lemma fits_narrow:
  assumes "narrow T" and "fits T x"
  shows "is_number_integer x \<and> - (2 ^ 31) \<le> jint x \<and> jint x < 2 ^ 32 \<and> number_bytes T x = (Ok, word_bytes (native_size T) (jint x)) \<and>
    number_json T (word_bytes (native_size T) (jint x)) = (case T of UInt n \<Rightarrow> JUint (nat (jint x)) | _ \<Rightarrow> JInt (jint x)) \<and>
    (case T of UInt n \<Rightarrow> 0 \<le> jint x | _ \<Rightarrow> True)"
proof (cases T)
  case (UInt n)
  then have n: "n \<in> {1, 2, 4}" "n \<noteq> 8" and i: "st_ok (fst (integer_bytes n 0 (256 ^ n - 1) x))" using assms by auto
  have v: "0 \<le> jint x" "jint x \<le> 256 ^ n - 1" "is_number_integer x" using i by (cases x; auto simp: integer_bytes_ok(1))+
  have "number_bytes T x = (Ok, word_bytes n (jint x))" using UInt n integer_bytes_ok(2) [OF i] by simp
  moreover have "bytes_word (word_bytes n (jint x)) = nat (jint x)" using v by (simp add: bytes_word_word_bytes)
  moreover have "jint x < 2 ^ 32" using v n by auto
  ultimately show ?thesis using UInt n v by simp
next
  case (SInt n)
  then have n: "n \<in> {1, 2, 4}" "n \<noteq> 8" "0 < n"
    and i: "st_ok (fst (integer_bytes n (- (256 ^ n div 2)) (256 ^ n div 2 - 1) x))" using assms by auto
  have v: "- (256 ^ n div 2) \<le> jint x" "jint x \<le> 256 ^ n div 2 - 1" "is_number_integer x"
    using i by (cases x; auto simp: integer_bytes_ok(1) intro: order_trans [of _ 0])+
  have "number_bytes T x = (Ok, word_bytes n (jint x))" using SInt n integer_bytes_ok(2) [OF i] by simp
  moreover have "signed_word n (bytes_word (word_bytes n (jint x))) = jint x"
    using signed_word_inverse [OF v(1,2) n(3)] by (simp add: bytes_word_word_bytes)
  moreover have "jint x < 2 ^ 32" "- (2 ^ 31) \<le> jint x" using v n by auto
  ultimately show ?thesis using SInt n v by simp
qed (use assms in auto)

lemma to_int64_small: "- (2 ^ 63) \<le> i \<Longrightarrow> i < 2 ^ 63 \<Longrightarrow> to_int64 i = i"
  by simp

lemma enum_match:
  assumes "narrow T" "fits T x" "fits T y" and "nx = number_json T (snd (number_bytes T x))"
  shows "get_uint64 nx = Some (nat (jint x mod 2 ^ 64)) \<and> \<not> is_string nx \<and>
    ((json_eq y nx \<or> is_number_unsigned y \<and> get_uint64 y = Some (nat (jint x mod 2 ^ 64))) \<longleftrightarrow> jint y = jint x)"
proof -
  note x = fits_narrow [OF assms(1,2)] and y = fits_narrow [OF assms(1,3)]
  have nx: "nx = (case T of UInt n \<Rightarrow> JUint (nat (jint x)) | _ \<Rightarrow> JInt (jint x))" using x assms(4) by simp
  have m: "jint x mod 18446744073709551616 = (if 0 \<le> jint x then jint x else jint x + 18446744073709551616)"
  proof (cases "0 \<le> jint x")
    case False
    then have "(jint x + 18446744073709551616) mod 18446744073709551616 = jint x + 18446744073709551616"
      using x by (intro mod_pos_pos_trivial) auto
    then show ?thesis using False by simp
  qed (use x in simp)
  have s: "to_int64 (jint x) = jint x" "to_int64 (jint y) = jint y" using x y by (auto intro!: to_int64_small simp del: to_int64.simps)
  show ?thesis using x y assms(1) s unfolding nx
    by (cases T; cases y) (auto simp: nat_mod_as_int m simp del: to_int64.simps)
qed

definition plain_enum :: "json \<Rightarrow> bool" where
  "plain_enum T \<longleftrightarrow> value_as get_bool T ''flags'' False = Some False \<and>
     (case native_type (jtext (jat T ''type'')) of
        None \<Rightarrow> False
      | Some B \<Rightarrow> narrow B \<and> list_all (\<lambda>kx. fits B (snd kx)) (jmembers (jat T ''values''))) \<and>
     distinct (map fst (jmembers (jat T ''values'')))"

end
