(* ===== verification/Schema_Inverse.thy ===== *)
theory Schema_Inverse
  imports Schema_Values
begin

text \<open>
  The two directions of the codec are inverse to each other. What \<open>Encode\<close> makes of a request, \<open>Decode\<close>
  reads back, as a value that encodes to the same bytes. This is shown for the types built from
  numbers, booleans, strings, addresses and interfaces by aliases, arrays, counted arrays,
  enumerations without flags, and structures. Not covered are unions, which need a discriminator to be
  read back, flags, and the types written as text of an address or a prefix. The recursive call is again an
  interface, the locale \<open>inverse\<close>.
\<close>

subsection \<open>Types of the catalog\<close>

abbreviation lk :: "json \<Rightarrow> string \<Rightarrow> json option" where
  "lk object k \<equiv> map_of (jmembers object) k"

abbreviation fname :: "json \<Rightarrow> string" where "fname f \<equiv> jtext (jat f ''name'')"
abbreviation ftype :: "json \<Rightarrow> string" where "ftype f \<equiv> jtext (jat f ''type'')"
abbreviation fcount :: "json \<Rightarrow> string" where "fcount f \<equiv> jtext (jat f ''count'')"

text \<open>Fixed strings, and the fields that can be the counter of a later array.\<close>

definition sized_string :: "json \<Rightarrow> bool" where
  "sized_string f \<longleftrightarrow> ftype f = ''string'' \<and> (case value_as get_int32 f ''length'' 0 of None \<Rightarrow> False | Some n \<Rightarrow> 0 < n)"

definition counting :: "json \<Rightarrow> bool" where
  "counting f \<longleftrightarrow> \<not> contains f ''length'' \<and> (case native_type (ftype f) of Some (UInt n) \<Rightarrow> n \<noteq> 8 | _ \<Rightarrow> False)"

definition counter_names :: "json list \<Rightarrow> string set" where
  "counter_names fs = fcount ` set (filter (\<lambda>f. contains f ''count'') fs)"

text \<open>\<open>A\<close> are the counters in the fields before.\<close>

definition plain_field :: "(string \<Rightarrow> bool) \<Rightarrow> string list \<Rightarrow> json \<Rightarrow> bool" where
  "plain_field P A f \<longleftrightarrow> fname f \<notin> set A \<and>
     (if sized_string f then \<not> contains f ''count''
      else P (ftype f) \<and> (contains f ''count'' \<longrightarrow> ftype f \<noteq> ''string'' \<and> contains f ''length'' \<and> fcount f \<in> set A))"

fun plain_fields :: "(string \<Rightarrow> bool) \<Rightarrow> string list \<Rightarrow> json list \<Rightarrow> bool" where
  "plain_fields P A [] = True"
| "plain_fields P A (f # fs) \<longleftrightarrow> plain_field P A f \<and> fname f \<notin> fname ` set fs \<and>
     plain_fields P (if counting f \<and> fname f \<in> counter_names fs then fname f # A else A) fs"

lemma plain_disjoint: "plain_fields P A fs \<Longrightarrow> g \<in> set fs \<Longrightarrow> fname g \<notin> set A"
  by (induction fs arbitrary: A) (fastforce simp: plain_field_def split: if_split_asm)+

lemma plain_distinct: "plain_fields P A fs \<Longrightarrow> distinct (map fname fs)"
  by (induction fs arbitrary: A) auto

lemma plain_counted: "plain_fields P A fs \<Longrightarrow> c \<in> counter_names fs \<Longrightarrow> c \<in> set A \<union> fname ` set fs"
  by (induction fs arbitrary: A) (force simp: plain_field_def counter_names_def split: if_split_asm)+

lemma plain_counter:
  "plain_fields P A (f # fs) \<Longrightarrow> fname f \<in> counter_names (f # fs) \<Longrightarrow> counting f \<and> fname f \<in> counter_names fs"
  using plain_counted [of P "if counting f \<and> fname f \<in> counter_names fs then fname f # A else A" fs "fname f"]
  by (auto simp: plain_field_def counter_names_def split: if_split_asm)

text \<open>The last part of \<open>convert_field\<close>, once the value of the field is known.\<close>

definition dispatch :: "converter \<Rightarrow> string \<Rightarrow> json \<Rightarrow> json \<Rightarrow> json \<Rightarrow> io \<Rightarrow> json option \<Rightarrow> conversion" where
  "dispatch rec name f object x io tag = do {
     n \<leftarrow> (if ftype f = ''string'' then value_as get_int32 f ''length'' 0 else Some 0);
     if 0 < n then fixed_string f x io
     else if ftype f \<noteq> ''string'' \<and> contains f ''length'' then convert_array rec f object x io
     else convert_member rec name f object x io tag }"

lemma lk_Some: "lk r k = Some w \<Longrightarrow> contains r k" "lk r k = Some w \<Longrightarrow> jat r k = w"
  by (simp_all add: contains_def jat_def)

lemma field_dec:
  "jat f ''name'' = JString k \<Longrightarrow> jat f ''type'' = JString t \<Longrightarrow>
   convert_field E S rec name f d (Dec inp) tag = dispatch rec name f d JNull (Dec inp) tag"
  by (simp add: convert_field_def dispatch_def)

lemma field_enc:
  "jat f ''name'' = JString k \<Longrightarrow> jat f ''type'' = JString t \<Longrightarrow> lk r k = Some w \<Longrightarrow>
   convert_field E S rec name f r (Enc p) tag = dispatch rec name f (jset r k w) w (Enc p) tag"
  by (simp add: convert_field_def dispatch_def lk_Some Let_def cong: if_cong)

lemma field_enc_cases:
  assumes "convert_field E S rec name f obj (Enc p) tag = Some (st, item, io')" and "st_ok st"
  obtains k t x where "jat f ''name'' = JString k" "jat f ''type'' = JString t"
    "dispatch rec name f (jset obj k x) x (Enc p) tag = Some (st, item, io')" "\<And>y. lk obj k = Some y \<Longrightarrow> x = y"
proof -
  obtain k t where kt: "jat f ''name'' = JString k" "jat f ''type'' = JString t"
    using assms(1) by (auto simp: convert_field_def Option.bind_eq_Some_conv get_string_jtext)
  show thesis
  proof (cases "lk obj k")
    case (Some y)
    then show thesis using that [OF kt] assms(1) field_enc [OF kt Some, of E S rec name p tag] by simp
  next
    case None
    then have nc: "\<not> contains obj k" by (simp add: contains_def)
    obtain z where z: "contains f ''default''" "PublicDefault E S f = Some z"
      using assms kt nc by (auto simp: convert_field_def Option.bind_eq_Some_conv split: if_split_asm)
    have "dispatch rec name f (jset obj k z) z (Enc p) tag = Some (st, item, io')"
      using assms(1) kt nc z by (simp add: convert_field_def dispatch_def Let_def cong: if_cong)
    then show thesis using that [OF kt] None by simp
  qed
qed

lemma array_count_cong:
  "(contains f ''count'' \<longrightarrow> lk d (fcount f) = lk obj (fcount f)) \<Longrightarrow> array_count f d = array_count f obj"
proof -
  assume c: "contains f ''count'' \<longrightarrow> lk d (fcount f) = lk obj (fcount f)"
  have "contains d (fcount f) = contains obj (fcount f)" "jat d (fcount f) = jat obj (fcount f)" if "contains f ''count''"
    using c that by (simp_all add: contains_def jat_def)
  then show ?thesis
    by (cases "get_uint64 (jat f ''length'')"; cases "contains f ''count''"; cases "jat f ''count''")
      (simp_all add: array_count_def)
qed

lemma selected_tag_total:
  assumes "selected_tag name f obj tag = Some sel" and "name \<noteq> ''vl_api_fib_path_nh_t''"
  shows "\<exists>sel'. selected_tag name f obj' tag' = Some (Some sel')"
proof -
  obtain a t c where a: "get_string (jat f ''name'') = Some a" "get_string (jat f ''type'') = Some t"
    "value_as get_string f ''discriminator'' (if t = ''vl_api_address_union_t'' then ''af'' else []) = Some c"
    using assms(1) by (auto simp: selected_tag_def Option.bind_eq_Some_conv)
  show ?thesis
    by (cases "name = ''vl_api_fib_path_t'' \<and> a = ''nh''"; cases "c = []") (simp_all add: selected_tag_def a assms(2))
qed

lemma fields_tag: "name \<noteq> ''vl_api_fib_path_nh_t'' \<Longrightarrow> convert_fields E S rec name fs obj io tag = convert_fields E S rec name fs obj io tag'"
proof (induction fs arbitrary: obj io)
  case (Cons f fs)
  have "selected_tag name f q tag = selected_tag name f q tag'" for q using Cons.prems by (simp add: selected_tag_def)
  then show ?case using Cons by (simp add: convert_field_def convert_member_def cong: if_cong)
qed simp

lemma string_field_inverse:
  assumes "fixed_string f x (Enc pre) = Some (st, item, Enc (pre @ out))" and "st_ok st"
  shows "\<exists>w. (\<forall>u rest. fixed_string f u (Dec (out @ rest)) = Some (Ok, w, Dec rest)) \<and>
    (\<forall>p. length (p @ out) \<le> kPayloadLimit \<longrightarrow> fixed_string f w (Enc p) = Some (Ok, w, Enc (p @ out)))"
proof -
  obtain sz k where sz: "get_uint64 (jat f ''length'') = Some sz" and k: "jat f ''name'' = JString k" and lim: "\<not> kPayloadLimit < sz"
    and x: "\<not> (\<not> is_string x \<or> sz \<le> length (jtext x) \<or> CHR 0x00 \<in> set (jtext x))"
    using assms by (auto simp: fixed_string_def Option.bind_eq_Some_conv get_string_jtext split: if_split_asm)
  obtain st' bs io' where B: "Bytes (jtext x @ replicate (sz - length (jtext x)) (CHR 0x00)) (Enc pre) = (st', bs, io')"
    by (metis prod_cases3)
  obtain s where s: "x = JString s" using x by (cases x) auto
  have "st_ok st'" "io' = Enc (pre @ out)" using assms sz k lim x B by (auto simp: fixed_string_def split: if_split_asm)
  then have o: "out = s @ replicate (sz - length s) (CHR 0x00)" using B s by (simp add: Bytes_Enc)
  note e = sz k s lim x [unfolded s] o
  have len: "length out = sz" using e(5) by (simp add: o)
  have "c_str out = s" using e(5) by (auto simp: o c_str_def takeWhile_append takeWhile_eq_all_conv takeWhile_replicate)
  then have "fixed_string f u (Dec (out @ rest)) = Some (Ok, JString s, Dec rest)" for u rest
    using e(1,2,4) Bytes_Dec [of "replicate sz (CHR 0x00)" out rest] len by (simp add: fixed_string_def)
  moreover have "fixed_string f (JString s) (Enc p) = Some (Ok, JString s, Enc (p @ out))" if "length (p @ out) \<le> kPayloadLimit" for p
    using e Bytes_Enc_fits [OF that] by (simp add: fixed_string_def)
  ultimately show ?thesis by blast
qed

subsection \<open>The derived members of a structure\<close>

lemma Counts_names: "Counts fs = Some cs \<Longrightarrow> set cs = counter_names fs \<and> (\<forall>f \<in> set fs. contains f ''count'' \<longrightarrow> jat f ''count'' = JString (fcount f))"
  by (induction fs arbitrary: cs)
    (auto simp: counter_names_def Option.bind_eq_Some_conv get_string_jtext split: if_split_asm)

lemma set_counts_sets:
  assumes "set_counts fs v = Some (st, obj)" and "st_ok st" and "is_object v"
  shows "is_object obj \<and> (\<forall>c. c \<in> counter_names fs \<or> (\<exists>k. lk v c = Some (JUint k)) \<longrightarrow> (\<exists>k. lk obj c = Some (JUint k)))"
  using assms(1,3)
proof (induction fs arbitrary: v)
  case Nil
  then show ?case by (simp add: counter_names_def)
next
  case (Cons f fs)
  show ?case
  proof (cases "contains f ''count''")
    case False
    then show ?thesis using Cons by (simp add: counter_names_def)
  next
    case True
    then obtain c n where c: "jat f ''count'' = JString c" "set_counts fs (jset v c (JUint n)) = Some (st, obj)"
      using Cons.prems(1) assms(2) by (auto simp: Option.bind_eq_Some_conv get_string_jtext split: if_split_asm)
    from Cons.IH [OF c(2) is_object_jset [OF Cons.prems(2)]] True c(1) Cons.prems(2)
    show ?thesis by (auto simp: counter_names_def jmembers_jset)
  qed
qed

lemma set_counts_again:
  assumes "is_object v"
    and "\<And>f. f \<in> set fs \<Longrightarrow> contains f ''count'' \<Longrightarrow> jat f ''name'' = JString (fname f) \<and> jat f ''count'' = JString (fcount f) \<and>
      fname f \<notin> C \<and> fcount f \<in> C \<and> (\<exists>ys. lk v (fname f) = Some (JArray ys) \<and> m (fcount f) = JUint (length ys))"
  shows "\<exists>r. set_counts fs v = Some (Ok, r) \<and> is_object r \<and> (\<forall>k. lk r k = (if k \<in> counter_names fs then Some (m k) else lk v k))"
  using assms
proof (induction fs arbitrary: v)
  case Nil
  then show ?case by (simp add: counter_names_def)
next
  case (Cons f fs)
  show ?case
  proof (cases "contains f ''count''")
    case False
    then show ?thesis using Cons.IH [OF Cons.prems(1)] Cons.prems(2) by (auto simp: counter_names_def)
  next
    case True
    then obtain ys where f: "jat f ''name'' = JString (fname f)" "jat f ''count'' = JString (fcount f)" "fcount f \<in> C"
      "lk v (fname f) = Some (JArray ys)" "m (fcount f) = JUint (length ys)" using Cons.prems(2) [of f] by auto
    let ?v = "jset v (fcount f) (JUint (length ys))"
    have "\<exists>r. set_counts fs ?v = Some (Ok, r) \<and> is_object r \<and> (\<forall>k. lk r k = (if k \<in> counter_names fs then Some (m k) else lk ?v k))"
    proof (rule Cons.IH [OF is_object_jset [OF Cons.prems(1)]])
      fix g assume "g \<in> set fs" "contains g ''count''"
      then show "jat g ''name'' = JString (fname g) \<and> jat g ''count'' = JString (fcount g) \<and>
        fname g \<notin> C \<and> fcount g \<in> C \<and> (\<exists>ys. lk ?v (fname g) = Some (JArray ys) \<and> m (fcount g) = JUint (length ys))"
        using Cons.prems(2) [of g] f(3) by (auto simp: jmembers_jset [OF Cons.prems(1)])
    qed
    then obtain r where r: "set_counts fs ?v = Some (Ok, r)" "is_object r" "\<And>k. lk r k = (if k \<in> counter_names fs then Some (m k) else lk ?v k)"
      by blast
    obtain k c where kc: "jat f ''name'' = JString k" "jat f ''count'' = JString c" using f(1,2) by blast
    have "set_counts (f # fs) v = Some (Ok, r)"
      using True r(1) lk_Some [OF f(4)] kc by simp
    moreover have "lk r k = (if k \<in> counter_names (f # fs) then Some (m k) else lk v k)" for k
      using r(3) [of k] True f(5) by (auto simp: counter_names_def jmembers_jset [OF Cons.prems(1)])
    ultimately show ?thesis using r(2) by blast
  qed
qed

lemma foldl_jset:
  "is_object d \<Longrightarrow> keys_sorted (jmembers d) \<Longrightarrow> distinct ks \<Longrightarrow> length ks = length ws \<Longrightarrow>
   is_object (foldl (\<lambda>d (k, w). jset d k w) d (zip ks ws)) \<and> keys_sorted (jmembers (foldl (\<lambda>d (k, w). jset d k w) d (zip ks ws))) \<and>
   (\<forall>k w. (k, w) \<in> set (zip ks ws) \<longrightarrow> lk (foldl (\<lambda>d (k, w). jset d k w) d (zip ks ws)) k = Some w) \<and>
   (\<forall>k. k \<notin> set ks \<longrightarrow> lk (foldl (\<lambda>d (k, w). jset d k w) d (zip ks ws)) k = lk d k)"
proof (induction ks arbitrary: d ws)
  case (Cons k ks)
  then obtain w ws' where w: "ws = w # ws'" by (cases ws) auto
  show ?case using Cons.IH [of "jset d k w" ws'] Cons.prems unfolding w
    by (simp add: is_object_jset jmembers_jset)
qed simp

lemma foldl_jerase:
  "is_object d \<Longrightarrow> keys_sorted (jmembers d) \<Longrightarrow> is_object (foldl jerase d cs) \<and> keys_sorted (jmembers (foldl jerase d cs)) \<and>
   (\<forall>k. lk (foldl jerase d cs) k = (if k \<in> set cs then None else lk d k))"
proof (induction cs arbitrary: d)
  case (Cons c cs)
  obtain kvs where d: "d = JObject kvs" using Cons.prems(1) by (cases d) auto
  have "distinct (map fst kvs)" using Cons.prems(2) d by (auto simp: keys_sorted_def strict_sorted_iff)
  then show ?case using Cons.IH [of "jerase d c"] Cons.prems(2) d by (auto simp: keys_sorted_drop_key map_of_drop_key)
qed simp

definition plain_type :: "(string \<Rightarrow> bool) \<Rightarrow> string \<Rightarrow> json \<Rightarrow> bool" where
  "plain_type P name T \<longleftrightarrow>
     (let kind = jtext (jat T ''kind'') in
      if kind = ''alias'' then P (jtext (jat T ''type''))
      else if kind = ''enum'' then P (jtext (jat T ''type'')) \<and> plain_enum T
      else kind \<noteq> ''union'' \<and> \<not> is_address name \<and> \<not> is_prefix name \<and> name \<noteq> ''vl_api_fib_path_nh_t'' \<and>
        plain_fields P [] (jiter (jat T ''fields'')))"

locale inverse = streaming rec for rec :: converter +
  fixes P :: "string \<Rightarrow> bool"
  assumes inv: "P t \<Longrightarrow> rec t v (Enc pre) tag = Some (st, v', Enc (pre @ out)) \<Longrightarrow> st_ok st \<Longrightarrow> \<exists>w. reads_back (rec t) out w"
    and natives: "P t \<Longrightarrow> native_type t = Some T \<Longrightarrow> rec t v io tag = Some (Number T v io)"
begin

lemma rec_out:
  assumes "rec t v (Enc pre) tag = Some (st, v', io')"
  obtains out where "io' = Enc (pre @ out)"
  using flow [OF assms] by auto

definition items_back :: "string \<Rightarrow> string \<Rightarrow> json list \<Rightarrow> bool" where
  "items_back t out ws \<longleftrightarrow>
     (\<forall>us rest. length us = length ws \<longrightarrow> convert_items rec t us (Dec (out @ rest)) = Some (Ok, ws, Dec rest)) \<and>
     (\<forall>pre. length (pre @ out) \<le> kPayloadLimit \<longrightarrow> (\<exists>ys. convert_items rec t ws (Enc pre) = Some (Ok, ys, Enc (pre @ out))))"

lemma items_inverse:
  assumes "convert_items rec t xs (Enc pre) = Some (st, ys, Enc (pre @ out))" and "st_ok st" and "P t"
  shows "\<exists>ws. length ws = length xs \<and> items_back t out ws"
  using assms(1)
proof (induction xs arbitrary: pre out ys)
  case Nil
  then show ?case by (simp add: items_back_def)
next
  case (Cons x xs)
  obtain st1 y io1 ys' where r: "rec t x (Enc pre) None = Some (st1, y, io1)" "st_ok st1"
    "convert_items rec t xs io1 = Some (st, ys', Enc (pre @ out))"
    using Cons.prems assms(2) by (auto simp: Option.bind_eq_Some_conv split: if_splits)
  obtain o1 where o1: "io1 = Enc (pre @ o1)" using r(1) by (rule rec_out)
  then obtain o2 where o2: "out = o1 @ o2" using items_flow [OF r(3)] by auto
  have "convert_items rec t xs (Enc (pre @ o1)) = Some (st, ys', Enc ((pre @ o1) @ o2))" using r(3) o1 o2 by simp
  from Cons.IH [OF this] obtain ws where ws: "length ws = length xs" "items_back t o2 ws" by blast
  obtain w where w: "reads_back (rec t) o1 w" using inv [OF assms(3) r(1) [unfolded o1] r(2)] by blast
  have "convert_items rec t us (Dec (out @ rest)) = Some (Ok, w # ws, Dec rest)" if "length us = length (w # ws)" for us rest
    using that w ws(2) by (cases us) (auto simp: o2 reads_back_def items_back_def)
  moreover have "\<exists>ys. convert_items rec t (w # ws) (Enc p) = Some (Ok, ys, Enc (p @ out))" if fit: "length (p @ out) \<le> kPayloadLimit" for p
  proof -
    obtain x where x: "rec t w (Enc p) None = Some (Ok, x, Enc (p @ o1))" using reads_back_enc [OF w, of p None] fit o2 by auto
    obtain ys where "convert_items rec t ws (Enc (p @ o1)) = Some (Ok, ys, Enc ((p @ o1) @ o2))"
      using ws(2) fit unfolding items_back_def o2 by (metis append_assoc)
    with x show ?thesis by (simp add: o2)
  qed
  ultimately have "items_back t out (w # ws)" by (simp add: items_back_def)
  with ws(1) show ?case by (intro exI [of _ "w # ws"]) simp
qed

lemma alias_inverse:
  assumes "convert_alias rec T v (Enc pre) tag = Some (st, v', Enc (pre @ out))" and "st_ok st" and "P (jtext (jat T ''type''))"
  shows "\<exists>w. reads_back (convert_alias rec T) out w"
proof -
  obtain t where t: "get_string (jat T ''type'') = Some t" "P t"
    using assms(1,3) by (auto simp: convert_alias_def Option.bind_eq_Some_conv get_string_jtext)
  show ?thesis
  proof (cases "contains T ''length''")
    case False
    then have "convert_alias rec T = rec t" using t by (auto simp: convert_alias_def fun_eq_iff)
    then show ?thesis using inv [OF t(2)] assms(1,2) by simp
  next
    case True
    then obtain c ys where c: "get_uint64 (jat T ''length'') = Some c" "length (jelems v) = c"
      "convert_items rec t (jelems v) (Enc pre) = Some (st, ys, Enc (pre @ out))"
      using assms(1,2) t by (cases v) (auto simp: convert_alias_def Option.bind_eq_Some_conv split: if_splits)
    from items_inverse [OF c(3) assms(2) t(2)] obtain ws where ws: "length ws = c" "items_back t out ws" using c(2) by blast
    have "reads_back (convert_alias rec T) out (JArray ws)"
      using True t(1) c(1) ws unfolding items_back_def reads_back_def by (fastforce simp: convert_alias_def)
    then show ?thesis by blast
  qed
qed

lemma enum_inverse:
  assumes "convert_enum E rec T v (Enc pre) = Some (st, v', Enc (pre @ out))" and "st_ok st"
    and "P (jtext (jat T ''type''))" and "plain_enum T"
  shows "\<exists>w. reads_back (\<lambda>u io tag. convert_enum E rec T u io) out w"
proof -
  let ?vs = "jmembers (jat T ''values'')"
  obtain B where B: "native_type (jtext (jat T ''type'')) = Some B" "narrow B" "\<And>k x. (k, x) \<in> set ?vs \<Longrightarrow> fits B x"
    and fl: "value_as get_bool T ''flags'' False = Some False" and dist: "distinct (map fst ?vs)"
    using assms(4) by (cases "native_type (jtext (jat T ''type''))") (force simp: plain_enum_def list_all_iff)+
  obtain t where ty: "jat T ''type'' = JString t" using B(1) by (cases "jat T ''type''") (auto simp: native_type_def)
  have "t \<noteq> ''u64''" "t \<noteq> ''i64''" using B(1,2) ty by (auto simp: native_type_def)
  note t = ty this
  note rc = natives [OF assms(3) B(1)]
  have enc: "convert_enum E rec T (JString k) (Enc p) =
      (case Number B (jat (jat T ''values'') k) (Enc p) of (st, _, io) \<Rightarrow> Some (st, JString k, io))"
    if "contains (jat T ''values'') k" for k p
    using that rc t fl by (auto simp: convert_enum_def enum_numeric_def Let_def split: prod.split)
  obtain k where k: "v = JString k" "contains (jat T ''values'') k"
    using assms(1,2) t fl by (cases v) (auto simp: convert_enum_def enum_numeric_def Let_def split: if_split_asm)
  let ?x = "jat (jat T ''values'') k"
  have mem: "(k, ?x) \<in> set ?vs" using k(2) by (auto simp: contains_def jat_def dest: map_of_SomeD)
  obtain y where N: "Number B ?x (Enc pre) = (st, y, Enc (pre @ out))"
    using assms(1) k enc [OF k(2)] by (auto split: prod.split_asm)
  note fx = B(3) [OF mem]
  have out: "snd (number_bytes B ?x) = out"
    using N assms(2) fx by (auto simp: Number_def Bytes_Enc split: prod.split_asm if_split_asm)
  let ?nx = "number_json B out"
  note rb = Number_inverse [OF N assms(2) narrow_invertible [OF B(2)]]
  define q where "q = (\<lambda>(l :: string, z). json_eq z ?nx \<or> is_number_unsigned z \<and> get_uint64 z = Some (nat (jint ?x mod 2 ^ 64)))"
  have q: "q (l, z) \<longleftrightarrow> jint z = jint ?x" if "(l, z) \<in> set ?vs" for l z
    using enum_match [OF B(2) fx B(3) [OF that] refl] out by (simp add: q_def)
  have "find q ?vs \<noteq> None" using mem q [OF mem] by (auto simp: find_None_iff)
  then obtain l z where f: "find q ?vs = Some (l, z)" by auto
  then have lz: "(l, z) \<in> set ?vs" "q (l, z)" by (auto simp: find_Some_iff)
  have z: "jat (jat T ''values'') l = z" "contains (jat T ''values'') l"
    using lz(1) dist by (auto simp: jat_def contains_def)
  have same: "number_bytes B z = (Ok, out)"
    using fits_narrow [OF B(2) B(3) [OF lz(1)]] fits_narrow [OF B(2) fx] q [OF lz(1)] lz(2) out by simp
  have esym: "enum_symbol (jat T ''values'') False ?nx = Some (Ok, JString l)"
    using enum_match [OF B(2) fx fx refl] out f
    by (auto simp: enum_symbol_def q_def split: json.split)
  have "convert_enum E rec T u (Dec (out @ rest)) = Some (Ok, JString l, Dec rest)" for u rest
    using rb rc t fl esym by (simp add: convert_enum_def reads_back_def)
  moreover have "convert_enum E rec T (JString l) (Enc p) = Some (Ok, JString l, Enc (p @ out))"
    if "length (p @ out) \<le> kPayloadLimit" for p
    using enc [OF z(2)] same Bytes_Enc_fits [OF that] by (simp add: z(1) Number_def)
  ultimately show ?thesis unfolding reads_back_def by blast
qed

definition dispatch_back :: "string \<Rightarrow> json \<Rightarrow> string list \<Rightarrow> json \<Rightarrow> json option \<Rightarrow> string \<Rightarrow> json \<Rightarrow> bool" where
  "dispatch_back name f A obj tag out w \<longleftrightarrow>
     (\<forall>d rest. (\<forall>c \<in> set A. lk d c = lk obj c) \<longrightarrow>
        dispatch rec name f d JNull (Dec (out @ rest)) tag = Some (Ok, w, Dec rest)) \<and>
     (\<forall>r p. (\<forall>c \<in> set A. lk r c = lk obj c) \<longrightarrow> length (p @ out) \<le> kPayloadLimit \<longrightarrow>
        (\<exists>y. dispatch rec name f r w (Enc p) tag = Some (Ok, y, Enc (p @ out)) \<and> (counting f \<longrightarrow> y = w))) \<and>
     (contains f ''count'' \<longrightarrow> (\<exists>ws. w = JArray ws \<and> lk obj (fcount f) = Some (JUint (length ws))))"

lemma dispatch_back_enc:
  "dispatch_back name f A obj tag out w \<Longrightarrow> \<forall>c \<in> set A. lk r c = lk obj c \<Longrightarrow> length (p @ out) \<le> kPayloadLimit \<Longrightarrow>
   \<exists>y. dispatch rec name f r w (Enc p) tag = Some (Ok, y, Enc (p @ out)) \<and> (counting f \<longrightarrow> y = w)"
  by (simp add: dispatch_back_def)

definition counters :: "string list \<Rightarrow> json \<Rightarrow> bool" where
  "counters A obj \<longleftrightarrow> (\<forall>c \<in> set A. \<exists>k < 2 ^ 64. lk obj c = Some (JUint k))"

lemma array_inverse:
  assumes "convert_array rec f obj x (Enc pre) = Some (st, item, Enc (pre @ out))" and "st_ok st"
    and "P (ftype f)" and "contains f ''count'' \<longrightarrow> fcount f \<in> set A" and "counters A obj"
    and d: "\<And>r u io. dispatch rec name f r u io tag = convert_array rec f r u io" and nc: "\<not> counting f"
  shows "\<exists>w. dispatch_back name f A obj tag out w"
proof -
  obtain k t n where k: "jat f ''name'' = JString k" "jat f ''type'' = JString t" "array_count f obj = Some (Some n)"
    "n \<le> kPayloadLimit"
    using assms(1,2) by (auto simp: convert_array_def Option.bind_eq_Some_conv get_string_jtext split: option.split_asm if_split_asm)
  then obtain xs ys where x: "x = JArray xs" "length xs = n" "convert_items rec t xs (Enc pre) = Some (st, ys, Enc (pre @ out))"
    using assms(1,2) by (cases x) (auto simp: convert_array_def Option.bind_eq_Some_conv split: if_split_asm)
  have "P t" using assms(3) k(2) by simp
  from items_inverse [OF x(3) assms(2) this] x(2) obtain ws where ws: "length ws = n" "items_back t out ws" by blast
  have cnt: "array_count f r = Some (Some n)" if "\<forall>c \<in> set A. lk r c = lk obj c" for r
    using k(3) array_count_cong [of f r obj] that assms(4) by auto
  have D: "convert_array rec f r u (Dec (out @ rest)) = Some (Ok, JArray ws, Dec rest)" if "\<forall>c \<in> set A. lk r c = lk obj c" for r u rest
    using cnt [OF that] k ws by (simp add: convert_array_def items_back_def)
  have R: "\<exists>y. convert_array rec f r (JArray ws) (Enc p) = Some (Ok, y, Enc (p @ out))"
    if "\<forall>c \<in> set A. lk r c = lk obj c" "length (p @ out) \<le> kPayloadLimit" for r p
    using cnt [OF that(1)] that(2) k ws unfolding items_back_def by (fastforce simp: convert_array_def)
  have C: "lk obj (fcount f) = Some (JUint n)" if cf: "contains f ''count''"
  proof -
    obtain l where l: "lk obj (fcount f) = Some (JUint l)" "l < 2 ^ 64" using assms(4,5) cf unfolding counters_def by blast
    note o = lk_Some [OF l(1)]
    obtain c where "jat f ''count'' = JString c"
      using k(3) cf by (auto simp: array_count_def Option.bind_eq_Some_conv get_string_jtext)
    then have "array_count f obj = do { _ \<leftarrow> get_uint64 (jat f ''length''); Some (Some l) }"
      using o cf l(2) by (simp add: array_count_def)
    then have "l = n" using k(3) by (cases "get_uint64 (jat f ''length'')") simp_all
    then show ?thesis using l by simp
  qed
  have "dispatch_back name f A obj tag out (JArray ws)"
    unfolding dispatch_back_def d using D R C ws(1) nc by simp
  then show ?thesis by blast
qed

lemma member_inverse:
  assumes "convert_member rec name f obj x (Enc pre) tag = Some (st, item, Enc (pre @ out))" and "st_ok st"
    and "P (ftype f)" and "\<not> contains f ''count''" and "name \<noteq> ''vl_api_fib_path_nh_t''"
    and d: "\<And>r u io. dispatch rec name f r u io tag = convert_member rec name f r u io tag"
  shows "\<exists>w. dispatch_back name f A obj tag out w \<and> (counting f \<longrightarrow> (\<forall>k. x = JUint k \<longrightarrow> item = x \<and> w = x \<and> k < 2 ^ 64))"
proof -
  obtain k t sel st1 where k: "jat f ''name'' = JString k" "jat f ''type'' = JString t" "selected_tag name f obj tag = Some (Some sel)"
    "rec t x (Enc pre) sel = Some (st1, item, Enc (pre @ out))" "st_ok st1"
    using assms(1,2) by (auto simp: convert_member_def Option.bind_eq_Some_conv get_string_jtext split: option.split_asm if_split_asm)
  have Pt: "P t" using assms(3) k(2) by simp
  from inv [OF Pt k(4,5)] obtain w where w: "reads_back (rec t) out w" by blast
  have mem: "\<exists>s'. \<forall>u io. convert_member rec name f r u io tag = do { (st, item', io') \<leftarrow> rec t u io s';
      Some (if st_ok st then st else prefix_message k st, item', io') }" for r
    using selected_tag_total [OF k(3) assms(5), of r tag] k(1,2) by (auto simp: convert_member_def)
  have D: "convert_member rec name f r u (Dec (out @ rest)) tag = Some (Ok, w, Dec rest)" for r u rest
    using mem [of r] w by (auto simp: reads_back_def)
  have R: "\<exists>y s'. convert_member rec name f r w (Enc p) tag = Some (Ok, y, Enc (p @ out)) \<and> rec t w (Enc p) s' = Some (Ok, y, Enc (p @ out))"
    if fit: "length (p @ out) \<le> kPayloadLimit" for r p
  proof -
    obtain s' where s': "\<forall>u io. convert_member rec name f r u io tag = do { (st, item', io') \<leftarrow> rec t u io s';
      Some (if st_ok st then st else prefix_message k st, item', io') }" using mem by blast
    obtain y where "rec t w (Enc p) s' = Some (Ok, y, Enc (p @ out))" using reads_back_enc [OF w fit] by blast
    with s' show ?thesis by auto
  qed
  have K: "(\<forall>k. x = JUint k \<longrightarrow> item = x \<and> w = x \<and> k < 2 ^ 64) \<and>
      (\<forall>p y s'. rec t w (Enc p) s' = Some (Ok, y, Enc (p @ out)) \<longrightarrow> y = w)" if cf: "counting f"
  proof -
    obtain n where n: "native_type t = Some (UInt n)" "n \<noteq> 8"
      using cf k(2) by (auto simp: counting_def split: option.split_asm native.split_asm)
    then have nr: "narrow (UInt n)" by (auto simp: native_type_def split: if_split_asm)
    note r = natives [OF Pt n(1)]
    have N: "Number (UInt n) x (Enc pre) = (st1, item, Enc (pre @ out))" using k(4) r by simp
    have "reads_back (rec t) out (number_json (UInt n) out)"
      using Number_inverse [OF N k(5) narrow_invertible [OF nr]] r by (simp add: reads_back_def)
    then have wj: "w = number_json (UInt n) out" using w unfolding reads_back_def by (metis option.inject prod.inject)
    obtain st0 data where nb: "number_bytes (UInt n) x = (st0, data)" by force
    have fx: "st_ok st0" "item = x" "data = out"
      using N k(5) nb by (auto simp: Number_def Bytes_Enc split: prod.split_asm if_split_asm)
    have "w = JUint (nat (jint x)) \<and> jint x < 2 ^ 32"
      using fits_narrow [OF nr, of x] nb fx wj by (simp del: number_bytes.simps number_json.simps)
    moreover have "y = w" if "rec t w (Enc p) s' = Some (Ok, y, Enc (p @ out))" for p y s'
      using that r by (auto simp: Number_def split: prod.split_asm if_split_asm)
    ultimately show ?thesis using fx(2) by (auto simp: nat_less_iff)
  qed
  have "dispatch_back name f A obj tag out w"
    unfolding dispatch_back_def d using D R K assms(4) by blast
  with K show ?thesis by blast
qed

lemma dispatch_inverse:
  assumes "dispatch rec name f obj x (Enc pre) tag = Some (st, item, Enc (pre @ out))" and "st_ok st"
    and "plain_field P A f" and "counters A obj" and "name \<noteq> ''vl_api_fib_path_nh_t''"
  shows "\<exists>w. dispatch_back name f A obj tag out w \<and> (counting f \<longrightarrow> (\<forall>k. x = JUint k \<longrightarrow> item = x \<and> w = x \<and> k < 2 ^ 64))"
proof (cases "sized_string f")
  case True
  then obtain n where n: "ftype f = ''string''" "value_as get_int32 f ''length'' 0 = Some n" "0 < n"
    by (auto simp: sized_string_def split: option.split_asm)
  then have d: "dispatch rec name f r u io tag = fixed_string f u io" for r u io by (simp add: dispatch_def)
  have "\<not> counting f" using n by (auto simp: counting_def native_type_def)
  moreover have "\<not> contains f ''count''" using assms(3) True by (simp add: plain_field_def)
  moreover note string_field_inverse [OF assms(1) [unfolded d] assms(2)]
  ultimately show ?thesis unfolding dispatch_back_def d by blast
next
  case False
  then have pf: "P (ftype f)" "contains f ''count'' \<longrightarrow> ftype f \<noteq> ''string'' \<and> contains f ''length'' \<and> fcount f \<in> set A"
    using assms(3) by (auto simp: plain_field_def)
  show ?thesis
  proof (cases "ftype f \<noteq> ''string'' \<and> contains f ''length''")
    case True
    then have d: "dispatch rec name f r u io tag = convert_array rec f r u io" for r u io by (simp add: dispatch_def)
    have "\<not> counting f" using True by (simp add: counting_def)
    with array_inverse [OF assms(1) [unfolded d] assms(2) pf(1) _ assms(4) d] pf(2) show ?thesis by blast
  next
    case nl: False
    obtain n where n: "(if ftype f = ''string'' then value_as get_int32 f ''length'' 0 else Some 0) = Some n"
      using assms(1) by (auto simp: dispatch_def Option.bind_eq_Some_conv split: if_split_asm)
    moreover have "\<not> 0 < n" using n False by (auto simp: sized_string_def split: if_split_asm)
    ultimately have d: "dispatch rec name f r u io tag = convert_member rec name f r u io tag" for r u io
      using nl by (auto simp: dispatch_def split: if_split_asm)
    show ?thesis using member_inverse [OF assms(1) [unfolded d] assms(2) pf(1) _ assms(5) d] pf(2) nl by blast
  qed
qed

definition fields_back :: "env \<Rightarrow> json \<Rightarrow> string \<Rightarrow> json list \<Rightarrow> string list \<Rightarrow> json \<Rightarrow> json option \<Rightarrow> string \<Rightarrow> json list \<Rightarrow> bool" where
  "fields_back E S name fs A obj tag out ws \<longleftrightarrow> length ws = length fs \<and> list_all (\<lambda>f. jat f ''name'' = JString (fname f)) fs \<and>
     (\<forall>d rest. is_object d \<longrightarrow> (\<forall>c \<in> set A. lk d c = lk obj c) \<longrightarrow>
        convert_fields E S rec name fs d (Dec (out @ rest)) tag =
          Some (Ok, foldl (\<lambda>d (k, w). jset d k w) d (zip (map fname fs) ws), Dec rest)) \<and>
     (\<forall>r p. is_object r \<longrightarrow> (\<forall>c \<in> set A. lk r c = lk obj c) \<longrightarrow> (\<forall>(k, w) \<in> set (zip (map fname fs) ws). lk r k = Some w) \<longrightarrow>
        length (p @ out) \<le> kPayloadLimit \<longrightarrow>
        (\<exists>r'. convert_fields E S rec name fs r (Enc p) tag = Some (Ok, r', Enc (p @ out)))) \<and>
     (\<forall>(f, w) \<in> set (zip fs ws). contains f ''count'' \<longrightarrow>
        (\<exists>ys. w = JArray ys \<and> lk obj (fcount f) = Some (JUint (length ys)))) \<and>
     (\<forall>(f, w) \<in> set (zip fs ws). fname f \<in> counter_names fs \<longrightarrow> lk obj (fname f) = Some w)"

lemma fields_back_enc:
  "fields_back E S name fs A obj tag out ws \<Longrightarrow> is_object r \<Longrightarrow> \<forall>c \<in> set A. lk r c = lk obj c \<Longrightarrow>
   \<forall>(k, w) \<in> set (zip (map fname fs) ws). lk r k = Some w \<Longrightarrow> length (p @ out) \<le> kPayloadLimit \<Longrightarrow>
   \<exists>r'. convert_fields E S rec name fs r (Enc p) tag = Some (Ok, r', Enc (p @ out))"
  by (simp add: fields_back_def)

lemma fields_back_counter:
  "fields_back E S name fs A obj tag out ws \<Longrightarrow> (f, w) \<in> set (zip fs ws) \<Longrightarrow> fname f \<in> counter_names fs \<Longrightarrow> lk obj (fname f) = Some w"
  unfolding fields_back_def by blast

lemma fields_cons:
  assumes pf: "plain_fields P A (f # fs)" and obj: "is_object obj" and k: "jat f ''name'' = JString k" "jat f ''type'' = JString t"
    and db: "dispatch_back name f A (jset obj k x) tag o1 w"
    and A': "A' = (if counting f \<and> k \<in> counter_names fs then k # A else A)"
    and item: "k \<in> counter_names fs \<Longrightarrow> counting f \<and> lk obj k = Some w \<and> item = w"
    and fb: "fields_back E S name fs A' (jset obj k item) tag o2 ws"
  shows "fields_back E S name (f # fs) A obj tag (o1 @ o2) (w # ws)"
proof -
  have kA: "k \<notin> set A" "k \<notin> fname ` set fs" using pf k(1) by (auto simp: plain_field_def)
  have up: "lk (jset q k z) c = (if c = k then Some z else lk q c)" if "is_object q" for q z c
    using that by (simp add: jmembers_jset)
  have A'q: "\<forall>c \<in> set A'. lk (jset q k z) c = lk (jset obj k item) c"
    if "is_object q" "\<forall>c \<in> set A. lk q c = lk obj c" "counting f \<longrightarrow> z = w" for q z
    using that kA(1) item obj by (auto simp: A' up)
  have A1: "\<forall>c \<in> set A. lk (jset obj k x) c = lk obj c" using kA(1) obj by (auto simp: up)
  have D: "convert_fields E S rec name (f # fs) d (Dec ((o1 @ o2) @ rest)) tag =
      Some (Ok, foldl (\<lambda>d (k, w). jset d k w) d (zip (map fname (f # fs)) (w # ws)), Dec rest)"
    if d: "is_object d" "\<forall>c \<in> set A. lk d c = lk obj c" for d rest
  proof -
    have "dispatch rec name f d JNull (Dec (o1 @ o2 @ rest)) tag = Some (Ok, w, Dec (o2 @ rest))"
      using db d(2) A1 unfolding dispatch_back_def by simp
    then show ?thesis using fb A'q [OF d, of w] d(1)
      by (simp add: field_dec [OF k] k(1) fields_back_def is_object_jset)
  qed
  have R: "\<exists>r'. convert_fields E S rec name (f # fs) r (Enc p) tag = Some (Ok, r', Enc (p @ o1 @ o2))"
    if r: "is_object r" "\<forall>c \<in> set A. lk r c = lk obj c" "\<forall>(k, w) \<in> set (zip (map fname (f # fs)) (w # ws)). lk r k = Some w"
      and fit: "length (p @ o1 @ o2) \<le> kPayloadLimit" for r p
  proof -
    have rk: "lk r k = Some w" using r(3) k(1) by simp
    have "\<forall>c \<in> set A. lk (jset r k w) c = lk (jset obj k x) c" using r(2) A1 kA(1) up [OF r(1)] by auto
    note db_enc = dispatch_back_enc [OF db this, of p]
    obtain y where y: "dispatch rec name f (jset r k w) w (Enc p) tag = Some (Ok, y, Enc (p @ o1))" "counting f \<longrightarrow> y = w"
      using db_enc fit by auto
    have "\<forall>(l, z) \<in> set (zip (map fname fs) ws). lk (jset r k y) l = Some z"
    proof clarify
      fix l z assume m: "(l, z) \<in> set (zip (map fname fs) ws)"
      then have "l \<in> fname ` set fs" using set_zip_leftD by fastforce
      then have "l \<noteq> k" using kA(2) by auto
      then show "lk (jset r k y) l = Some z" using r(3) m by (auto simp: up [OF r(1)])
    qed
    from fields_back_enc [OF fb is_object_jset [OF r(1)] A'q [OF r(1,2) y(2)] this, of "p @ o1"] fit
    obtain r' where "convert_fields E S rec name fs (jset r k y) (Enc (p @ o1)) tag = Some (Ok, r', Enc ((p @ o1) @ o2))" by auto
    then show ?thesis using y(1) by (simp add: field_enc [OF k rk] k(1))
  qed
  have C: "\<forall>(g, z) \<in> set (zip (f # fs) (w # ws)). contains g ''count'' \<longrightarrow> (\<exists>ys. z = JArray ys \<and> lk obj (fcount g) = Some (JUint (length ys)))"
  proof clarify
    fix g z assume g: "(g, z) \<in> set (zip (f # fs) (w # ws))" "contains g ''count''"
    show "\<exists>ys. z = JArray ys \<and> lk obj (fcount g) = Some (JUint (length ys))"
    proof (cases "(g, z) = (f, w)")
      case True
      have "fcount f \<in> set A" using pf g(2) True by (auto simp: plain_field_def split: if_split_asm)
      then show ?thesis using db A1 g(2) True unfolding dispatch_back_def by auto
    next
      case False
      then have m: "(g, z) \<in> set (zip fs ws)" using g(1) by auto
      then obtain ys where ys: "z = JArray ys" "lk (jset obj k item) (fcount g) = Some (JUint (length ys))"
        using fb g(2) unfolding fields_back_def by blast
      have "fcount g \<in> counter_names fs" using m g(2) by (auto simp: counter_names_def dest: set_zip_leftD)
      then have "lk obj (fcount g) = lk (jset obj k item) (fcount g)" using item by (auto simp: up [OF obj])
      then show ?thesis using ys by simp
    qed
  qed
  have K: "\<forall>(g, z) \<in> set (zip (f # fs) (w # ws)). fname g \<in> counter_names (f # fs) \<longrightarrow> lk obj (fname g) = Some z"
  proof clarify
    fix g z assume g: "(g, z) \<in> set (zip (f # fs) (w # ws))" "fname g \<in> counter_names (f # fs)"
    show "lk obj (fname g) = Some z"
    proof (cases "(g, z) = (f, w)")
      case True
      then show ?thesis using plain_counter [OF pf] g(2) item k(1) by simp
    next
      case False
      then have m: "(g, z) \<in> set (zip fs ws)" using g(1) by auto
      then have gs: "g \<in> set fs" by (rule set_zip_leftD)
      have "fname g \<notin> set A" using plain_disjoint [OF pf, of g] gs by simp
      then have "fname g \<in> counter_names fs"
        using g(2) pf by (auto simp: counter_names_def plain_field_def split: if_split_asm)
      then have "lk (jset obj k item) (fname g) = Some z" using fields_back_counter [OF fb m] by simp
      moreover have "fname g \<noteq> k" using kA(2) gs by auto
      ultimately show ?thesis by (simp add: up [OF obj])
    qed
  qed
  show ?thesis using D R C K fb k(1) unfolding fields_back_def by simp
qed

lemma fields_inverse:
  assumes "convert_fields E S rec name fs obj (Enc pre) tag = Some (st, obj', Enc (pre @ out))" and "st_ok st"
    and "plain_fields P A fs" and "name \<noteq> ''vl_api_fib_path_nh_t''" and "is_object obj" and "counters A obj"
    and "\<forall>c \<in> counter_names fs. \<exists>k. lk obj c = Some (JUint k)"
  shows "\<exists>ws. fields_back E S name fs A obj tag out ws"
  using assms(1,3,5,6,7)
proof (induction fs arbitrary: obj pre out A)
  case Nil
  then show ?case by (intro exI [of _ "[]"]) (simp add: fields_back_def)
next
  case (Cons f fs)
  obtain st1 item io1 where f: "convert_field E S rec name f obj (Enc pre) tag = Some (st1, item, io1)" "st_ok st1"
    "convert_fields E S rec name fs (jset obj (fname f) item) io1 tag = Some (st, obj', Enc (pre @ out))"
    using Cons.prems(1) assms(2) by (auto simp: Option.bind_eq_Some_conv split: if_split_asm)
  obtain o1 where o1: "io1 = Enc (pre @ o1)" using field_flow [OF f(1)] by auto
  obtain o2 where o2: "out = o1 @ o2" using fields_flow [OF f(3)] o1 by auto
  obtain k t x where k: "jat f ''name'' = JString k" "jat f ''type'' = JString t"
    "dispatch rec name f (jset obj k x) x (Enc pre) tag = Some (st1, item, Enc (pre @ o1))" "\<And>y. lk obj k = Some y \<Longrightarrow> x = y"
    using field_enc_cases [OF f(1,2)] o1 by metis
  note up = jmembers_jset [OF Cons.prems(3)]
  have kA: "k \<notin> set A" "k \<notin> fname ` set fs" "plain_field P A f" using Cons.prems(2) k(1) by (auto simp: plain_field_def)
  have c1: "counters A (jset obj k x)" using Cons.prems(4) kA(1) unfolding counters_def by (force simp: up)
  obtain w where w: "dispatch_back name f A (jset obj k x) tag o1 w"
    "counting f \<longrightarrow> (\<forall>k. x = JUint k \<longrightarrow> item = x \<and> w = x \<and> k < 2 ^ 64)"
    using dispatch_inverse [OF k(3) f(2) kA(3) c1 assms(4)] by blast
  have item: "counting f \<and> (\<exists>l < 2 ^ 64. lk obj k = Some (JUint l) \<and> w = JUint l) \<and> item = w" if "k \<in> counter_names fs"
  proof -
    have sub: "k \<in> counter_names (f # fs)" using that by (auto simp: counter_names_def)
    then have cf: "counting f" using plain_counter [OF Cons.prems(2)] k(1) by simp
    obtain l where "lk obj k = Some (JUint l)" using Cons.prems(5) sub by blast
    then show ?thesis using w(2) cf k(4) by auto
  qed
  define A' where "A' = (if counting f \<and> k \<in> counter_names fs then k # A else A)"
  have c2: "counters A' (jset obj k item)"
    unfolding counters_def
  proof
    fix c assume c: "c \<in> set A'"
    show "\<exists>l < 2 ^ 64. lk (jset obj k item) c = Some (JUint l)"
    proof (cases "c = k")
      case True
      then show ?thesis using c kA(1) item by (auto simp: A'_def up split: if_split_asm)
    next
      case False
      then have "c \<in> set A" using c by (auto simp: A'_def split: if_split_asm)
      then show ?thesis using Cons.prems(4) False by (simp add: counters_def up)
    qed
  qed
  have g2: "\<forall>c \<in> counter_names fs. \<exists>l. lk (jset obj k item) c = Some (JUint l)"
    using Cons.prems(5) item by (auto simp: up counter_names_def)
  have "plain_fields P A' fs" using Cons.prems(2) k(1) by (auto simp: A'_def)
  from Cons.IH [OF _ this is_object_jset [OF Cons.prems(3)] c2 g2, of "pre @ o1" o2] f(3) k(1) o1 o2
  obtain ws where ws: "fields_back E S name fs A' (jset obj k item) tag o2 ws" by auto
  have "fields_back E S name (f # fs) A obj tag (o1 @ o2) (w # ws)"
    by (rule fields_cons [OF Cons.prems(2,3) k(1,2) w(1) A'_def _ ws]) (use item in auto)
  then show ?case using o2 by blast
qed

lemma decoded_members:
  assumes fb: "fields_back E S name fs [] obj tag out ws" and pf: "plain_fields P [] fs"
    and gn: "\<forall>c \<in> counter_names fs. \<exists>k. lk obj c = Some (JUint k)" and cs: "Counts fs = Some cs"
    and D: "D = foldl (\<lambda>d (k, w). jset d k w) (JObject []) (zip (map fname fs) ws)"
  shows "is_object (foldl jerase D cs) \<and> (\<forall>(k, x) \<in> set (jmembers (foldl jerase D cs)). k \<notin> set cs \<and> k \<in> fname ` set fs) \<and>
    (\<exists>r. set_counts fs (foldl jerase D cs) = Some (Ok, r) \<and> is_object r \<and> (\<forall>(k, z) \<in> set (zip (map fname fs) ws). lk r k = Some z))"
proof -
  let ?z = "zip (map fname fs) ws" and ?C = "counter_names fs"
  note cn = Counts_names [OF cs]
  have len: "length ws = length fs" and nm: "\<And>f. f \<in> set fs \<Longrightarrow> jat f ''name'' = JString (fname f)"
    using fb unfolding fields_back_def list_all_iff by blast+
  have D: "is_object D" "keys_sorted (jmembers D)" "\<And>k w. (k, w) \<in> set ?z \<Longrightarrow> lk D k = Some w"
      "\<And>k. k \<notin> fname ` set fs \<Longrightarrow> lk D k = None"
    using foldl_jset [of "JObject []" "map fname fs" ws] plain_distinct [OF pf] len by (auto simp: D keys_sorted_def)
  define w where "w = foldl jerase D cs"
  have W: "is_object w" "\<And>k. lk w k = (if k \<in> ?C then None else lk D k)"
    using foldl_jerase [OF D(1,2), of cs] cn by (simp_all add: w_def)
  have val: "\<exists>z. (f, z) \<in> set (zip fs ws) \<and> lk D (fname f) = Some z" if f: "f \<in> set fs" for f
  proof -
    obtain z where "(f, z) \<in> set (zip fs ws)" using f len by (metis in_set_impl_in_set_zip1)
    then show ?thesis using D(3) [of "fname f" z] by (force simp: zip_map1)
  qed
  have again: "fname f \<notin> ?C \<and> fcount f \<in> ?C \<and> (\<exists>ys. lk w (fname f) = Some (JArray ys) \<and> the (lk D (fcount f)) = JUint (length ys))"
    if f: "f \<in> set fs" "contains f ''count''" for f
  proof -
    obtain z where z: "(f, z) \<in> set (zip fs ws)" "lk D (fname f) = Some z" using val [OF f(1)] by blast
    obtain ys where ys: "z = JArray ys" "lk obj (fcount f) = Some (JUint (length ys))"
      using fb z(1) f(2) unfolding fields_back_def by blast
    have C: "fcount f \<in> ?C" using f by (auto simp: counter_names_def)
    then obtain g where g: "g \<in> set fs" "fname g = fcount f" using plain_counted [OF pf C] by auto
    obtain y where y: "(g, y) \<in> set (zip fs ws)" "lk D (fname g) = Some y" using val [OF g(1)] by blast
    have "lk obj (fcount f) = Some y" using fields_back_counter [OF fb y(1)] g(2) C by simp
    moreover have "fname f \<notin> ?C" using fields_back_counter [OF fb z(1)] gn ys(1) by force
    ultimately show ?thesis using C z(2) ys y(2) g(2) by (simp add: W(2))
  qed
  obtain r where r: "set_counts fs w = Some (Ok, r)" "is_object r"
      "\<And>k. lk r k = (if k \<in> ?C then Some (the (lk D k)) else lk w k)"
    using set_counts_again [OF W(1), of fs ?C "\<lambda>k. the (lk D k)"] again nm cn by blast
  have "\<forall>(k, z) \<in> set ?z. lk r k = Some z" using D(3) by (auto simp: r(3) W(2))
  moreover have "k \<notin> ?C \<and> k \<in> fname ` set fs" if "(k, x) \<in> set (jmembers w)" for k x
  proof -
    have "lk w k \<noteq> None" using weak_map_of_SomeI [OF that] by auto
    then show ?thesis using W(2) [of k] D(4) [of k] by (metis option.distinct(1))
  qed
  ultimately show ?thesis using W(1) r(1,2) cn unfolding w_def by blast
qed

lemma struct_inverse:
  assumes "struct_encode E S rec name fs v (Enc pre) tag = Some (st, v', Enc (pre @ out))" and "st_ok st"
    and pf: "plain_fields P [] fs" and name: "name \<noteq> ''vl_api_fib_path_nh_t''" "\<not> is_address name" "\<not> is_prefix name"
  shows "\<exists>w. (\<forall>rest tag'. struct_decode E S rec name fs (Dec (out @ rest)) tag' = Some (Ok, w, Dec rest)) \<and>
    (\<forall>p tag'. length (p @ out) \<le> kPayloadLimit \<longrightarrow>
      (\<exists>x. struct_encode E S rec name fs w (Enc p) tag' = Some (Ok, x, Enc (p @ out))))"
proof -
  obtain cs st' obj obj' where cs: "Counts fs = Some cs" and obj: "is_object v" "set_counts fs v = Some (st', obj)" "st_ok st'"
    and enc: "convert_fields E S rec name fs obj (Enc pre) tag = Some (st, obj', Enc (pre @ out))"
    using assms(1,2) by (auto simp: struct_encode_def Option.bind_eq_Some_conv split: if_split_asm option.split_asm)
  note sc = set_counts_sets [OF obj(2,3,1)] and cn = Counts_names [OF cs]
  have gn: "\<forall>c \<in> counter_names fs. \<exists>k. lk obj c = Some (JUint k)" and ob: "is_object obj" using sc by blast+
  from fields_inverse [OF enc assms(2) pf name(1) ob _ gn]
  obtain ws where fb: "fields_back E S name fs [] obj tag out ws" by (auto simp: counters_def)
  have len: "length ws = length fs" and nm: "\<And>f. f \<in> set fs \<Longrightarrow> jat f ''name'' = JString (fname f)"
    using fb unfolding fields_back_def list_all_iff by blast+
  define D where "D = foldl (\<lambda>d (k, w). jset d k w) (JObject []) (zip (map fname fs) ws)"
  define w where "w = foldl jerase D cs"
  note dm = decoded_members [OF fb pf gn cs D_def, folded w_def]
  then obtain r where r: "set_counts fs w = Some (Ok, r)" "is_object r" "\<forall>(k, z) \<in> set (zip (map fname fs) ws). lk r k = Some z" by blast
  have "convert_fields E S rec name fs (JObject []) (Dec (out @ rest)) tag = Some (Ok, D, Dec rest)" for rest
    using fb by (simp add: fields_back_def D_def)
  then have "struct_decode E S rec name fs (Dec (out @ rest)) tag' = Some (Ok, w, Dec rest)" for rest tag'
    using cs name fields_tag [OF name(1), of E S rec fs _ _ tag' tag] by (simp add: struct_decode_def struct_text_def w_def)
  moreover have "\<exists>x. struct_encode E S rec name fs w (Enc p) tag' = Some (Ok, x, Enc (p @ out))"
    if fit: "length (p @ out) \<le> kPayloadLimit" for p tag'
  proof -
    have "find (\<lambda>(k, x). \<not> list_ex (\<lambda>f. json_eq (jat f ''name'') (JString k)) fs \<or> k \<in> set cs) (jmembers w) = None"
      unfolding find_None_iff using dm nm by (fastforce simp: list_ex_iff)
    moreover obtain r' where "convert_fields E S rec name fs r (Enc p) tag = Some (Ok, r', Enc (p @ out))"
      using fields_back_enc [OF fb r(2) _ r(3) fit] by auto
    ultimately show ?thesis using dm cs r(1) fields_tag [OF name(1), of E S rec fs r "Enc p" tag' tag]
      by (simp add: struct_encode_def)
  qed
  ultimately show ?thesis by blast
qed

lemma catalog_inverse:
  assumes "convert_catalog E S rec name T v (Enc pre) tag = Some (st, v', Enc (pre @ out))" and "st_ok st" and "plain_type P name T"
  shows "\<exists>w. reads_back (convert_catalog E S rec name T) out w"
proof -
  obtain kd where kd: "jat T ''kind'' = JString kd"
    using assms(1) by (auto simp: convert_catalog_def Option.bind_eq_Some_conv get_string_jtext)
  consider "kd = ''alias''" | "kd = ''enum''" | "kd \<noteq> ''alias''" "kd \<noteq> ''enum''" by blast
  then show ?thesis
  proof cases
    case 1
    then have "convert_catalog E S rec name T = convert_alias rec T" using kd by (simp add: convert_catalog_def fun_eq_iff)
    then show ?thesis using assms 1 kd alias_inverse by (simp add: plain_type_def)
  next
    case 2
    then have "convert_catalog E S rec name T = (\<lambda>u io tag. convert_enum E rec T u io)" using kd by (simp add: convert_catalog_def fun_eq_iff)
    then show ?thesis using assms 2 kd enum_inverse by (simp add: plain_type_def)
  next
    case 3
    let ?fs = "jiter (jat T ''fields'')"
    have p: "kd \<noteq> ''union''" "\<not> is_address name" "\<not> is_prefix name" "name \<noteq> ''vl_api_fib_path_nh_t''" "plain_fields P [] ?fs"
      using assms(3) kd 3 by (auto simp: plain_type_def)
    have c: "convert_catalog E S rec name T u io tag =
        (if encoding io then struct_encode E S rec name ?fs u io tag else struct_decode E S rec name ?fs io tag)" for u io tag
      using kd 3 p by (simp add: convert_catalog_def)
    from struct_inverse [OF _ assms(2) p(5,4,2,3)] assms(1) show ?thesis unfolding reads_back_def c by simp
  qed
qed

end

text \<open>The types whose values can be read back, at some levels of nesting.\<close>

fun plain_at :: "json \<Rightarrow> nat \<Rightarrow> string \<Rightarrow> bool" where
  "plain_at S 0 name = False"
| "plain_at S (Suc levels) name =
     (native_type name \<noteq> None \<or> name \<in> {''bool'', ''string'', ''vl_api_interface_index_t''} \<or> address_size name \<noteq> None \<or>
      (case Type S name of None \<Rightarrow> False | Some T \<Rightarrow> plain_type (plain_at S levels) name T))"

definition readable :: "inet \<Rightarrow> symbols \<Rightarrow> json \<Rightarrow> nat \<Rightarrow> string \<Rightarrow> bool" where
  "readable N syms S levels name \<longleftrightarrow> inet_inverse N \<and> symbols_inverse syms \<and> plain_at S levels name"

lemma plain_fields_mono: "plain_fields P A fs \<Longrightarrow> (\<And>t. P t \<Longrightarrow> Q t) \<Longrightarrow> plain_fields Q A fs"
  by (induction fs arbitrary: A) (auto simp: plain_field_def split: if_split_asm)

lemma plain_type_mono: "plain_type P name T \<Longrightarrow> (\<And>t. P t \<Longrightarrow> Q t) \<Longrightarrow> plain_type Q name T"
  by (auto simp: plain_type_def Let_def intro: plain_fields_mono split: if_split_asm)

lemma inverse_convert_at: "inverse (convert_at E N syms S n) (readable N syms S n)"
proof (induction n)
  case 0
  show ?case by (intro inverse.intro inverse_axioms.intro streaming_convert_at) (auto simp: readable_def)
next
  case (Suc n)
  have inv: "\<exists>w. reads_back (convert_at E N syms S (Suc n) t) out w"
    if r: "readable N syms S (Suc n) t" and c: "convert_at E N syms S (Suc n) t v (Enc pre) tag = Some (st, v', Enc (pre @ out))" "st_ok st"
    for t v pre tag st v' out
  proof (cases "native_type t")
    case (Some T)
    then have "convert_at E N syms S (Suc n) t = (\<lambda>u io tag. Some (Number T u io))" by (simp add: fun_eq_iff)
    then show ?thesis using Number_inverse [of T v pre st v' out] c native_invertible [OF Some] by auto
  next
    case None
    consider "t = ''bool''" | "t = ''string''" | "t = ''vl_api_interface_index_t''" | l where "address_size t = Some l"
      | T where "t \<notin> {''bool'', ''string'', ''vl_api_interface_index_t''}" "address_size t = None" "Type S t = Some T"
          "plain_type (plain_at S n) t T"
      using r None by (auto simp: readable_def split: option.split_asm)
    then show ?thesis
    proof cases
      case 1
      then show ?thesis using c bool_inverse by (simp add: native_type_def reads_back_def)
    next
      case 2
      then show ?thesis using c string_inverse by (simp add: native_type_def reads_back_def)
    next
      case 3
      then show ?thesis using c r interface_inverse by (simp add: native_type_def reads_back_def readable_def)
    next
      case (4 l)
      have e: "convert_at E N syms S (Suc n) t = (\<lambda>u io tag. Some (convert_address N l u io))"
        using 4 by (auto simp: address_size_def native_type_def fun_eq_iff split: if_split_asm)
      have "l \<in> {4, 6, 16}" using 4 by (auto simp: address_size_def split: if_split_asm)
      then show ?thesis using c r address_inverse unfolding e by (auto simp: readable_def)
    next
      case (5 T)
      have e: "convert_at E N syms S (Suc n) t = convert_catalog E S (convert_at E N syms S n) t T"
        using 5 None by (auto simp: fun_eq_iff)
      have "plain_type (readable N syms S n) t T" using 5(4) r by (auto simp: readable_def elim: plain_type_mono)
      from inverse.catalog_inverse [OF Suc _ c(2) this] c(1) show ?thesis unfolding e by blast
    qed
  qed
  show ?case by (intro inverse.intro inverse_axioms.intro streaming_convert_at) (erule inv, simp_all)
qed

interpretation readback: inverse "convert_at E N syms S n" "readable N syms S n" for E N syms S n
  by (rule inverse_convert_at)

subsection \<open>Round trip\<close>

text \<open>
  C8. What \<open>Encode\<close> writes, \<open>Decode\<close> reads: over a type of numbers, booleans, strings, addresses and interfaces,
  aliases, arrays, counted arrays, enumerations without flags and structures, the message of any accepted
  request is decoded without error and to its last byte, and the decoded value, which need not be the original
  one (a defaulted member is now there, a MAC address in lower case), encodes to the same message. The hypotheses
  say of \<open>inet_pton\<close> and \<open>inet_ntop\<close>, and of the resolver of interface names, that they are inverse to each other.
\<close>

theorem codec_roundtrip:
  assumes "plain_at S 33 type" and "inet_inverse N" and "symbols_inverse syms"
    and "Encode E N S type v syms = Some (st, out)" and "st_ok st"
  shows "\<exists>w. Decode E N S type out syms = Some (Ok, w) \<and> Encode E N S type w syms = Some (Ok, out)"
proof -
  obtain v' where c: "convert_at E N syms S 33 type v (Enc []) None = Some (st, v', Enc out)"
    using assms(4) by (rule Encode_convert)
  have "readable N syms S 33 type" using assms(1-3) by (simp add: readable_def)
  from readback.inv [OF this _ assms(5), of E v "[]" None v' out] c
  obtain w where w: "reads_back (convert_at E N syms S 33 type) out w" by auto
  have "length out \<le> kPayloadLimit" using codec.flow [OF c] by simp
  then obtain x where "convert_at E N syms S 33 type w (Enc []) None = Some (Ok, x, Enc out)"
    using reads_back_enc [OF w, of "[]" None] by auto
  moreover have "convert_at E N syms S 33 type JNull (Dec out) None = Some (Ok, w, Dec [])"
    using w unfolding reads_back_def by (metis append_Nil2)
  ultimately show ?thesis by (auto simp: Decode_def Encode_def Convert_def)
qed

definition route_catalog :: json where
  "route_catalog = JObject [(''methods'', JObject []), (''types'', JObject [
     (''hop'', JObject [(''fields'', JArray [
        JObject [(''name'', JString ''proto''), (''type'', JString ''vl_api_proto_t'')],
        JObject [(''name'', JString ''mac''), (''type'', JString ''vl_api_mac_address_t'')]]), (''kind'', JString ''struct'')]),
     (''route'', JObject [(''fields'', JArray [
        JObject [(''default'', JUint 7), (''name'', JString ''table''), (''type'', JString ''u16'')],
        JObject [(''name'', JString ''n_hops''), (''type'', JString ''u8'')],
        JObject [(''count'', JString ''n_hops''), (''length'', JUint 0), (''name'', JString ''hops''), (''type'', JString ''hop'')],
        JObject [(''length'', JUint 4), (''name'', JString ''tag''), (''type'', JString ''string'')]]), (''kind'', JString ''struct'')]),
     (''vl_api_proto_t'', JObject [(''flags'', JBool False), (''kind'', JString ''enum''), (''type'', JString ''u8''),
        (''values'', JObject [(''TCP'', JUint 6), (''UDP'', JUint 17)])])])]"

definition route_value :: json where
  "route_value = JObject [(''hops'', JArray [JObject [(''mac'', JString ''0A:00:00:00:00:01''), (''proto'', JString ''UDP'')]]),
     (''tag'', JString ''ab'')]"

definition route_bytes :: string where
  "route_bytes = map char_of [7, 0, 1, 17, 10, 0, 0, 0, 0, 1, 97, 98, 0, 0 :: nat]"

lemma plain_route: "plain_at route_catalog 33 ''route''"
  by (simp add: plain_at.simps(2) [where levels = "pred_numeral k" for k, folded numeral_eq_Suc] route_catalog_def plain_type_def
      plain_enum_def plain_field_def counting_def counter_names_def sized_string_def schema_eval Bytes.simps)

lemma route_mac: "mac_bytes 6 ''0A:00:00:00:00:01'' = Some (map char_of [10, 0, 0, 0, 0, 1 :: nat])"
  by (simp add: mac_bytes.simps(2) [where n = "pred_numeral k" for k, folded numeral_eq_Suc] from_chars_nat_def digit_value_def Let_def)

lemma route_encodes:
  "Encode sample_env sample_inet route_catalog ''route'' route_value sample_symbols = Some (Ok, route_bytes)"
  by (simp add: route_catalog_def route_value_def route_bytes_def schema_eval Bytes.simps PublicDefault_def route_mac) code_simp

lemma sample_inverse: "inet_inverse sample_inet" "symbols_inverse sample_symbols"
  by (auto simp: inet_inverse_def symbols_inverse_def sample_inet_def sample_symbols_def c_str_def UINT32_MAX_def)

theorem codec_roundtrip_witness:
  "\<exists>w. Encode sample_env sample_inet route_catalog ''route'' route_value sample_symbols = Some (Ok, route_bytes) \<and>
     Decode sample_env sample_inet route_catalog ''route'' route_bytes sample_symbols = Some (Ok, w) \<and>
     Encode sample_env sample_inet route_catalog ''route'' w sample_symbols = Some (Ok, route_bytes)"
  using codec_roundtrip [OF plain_route sample_inverse route_encodes] route_encodes by simp

end
