(* ===== verification/Catalog.thy ===== *)
theory Catalog
  imports Schema
begin

text \<open>
  Building and publishing the catalog of \<open>src/schema.cc\<close>: \<open>AddModule\<close> adds the types and methods of
  one VPP API document, \<open>Schema_Load\<close> accepts a stored catalog, and \<open>Describe\<close> prints a type as the JSON
  schema clients see. The last part shows that adding modules never redefines what is there and
  lets only plain identifiers into the catalog, from which C++ code is generated.
\<close>

subsection \<open>Adding a module\<close>

text \<open>\<open>operator[]\<close> at an index of an array.\<close>

definition jidx :: "json \<Rightarrow> nat \<Rightarrow> json" where
  "jidx j i = (if i < length (jelems j) then jelems j ! i else JNull)"

definition jback :: "json \<Rightarrow> json" where
  "jback j = (if jelems j = [] then JNull else last (jelems j))"

definition kHeaderFields :: "string list" where
  "kHeaderFields = [''_vl_msg_id'', ''context'', ''client_index'']"

definition annotate :: "json list \<Rightarrow> json \<Rightarrow> json" where
  "annotate parts field =
     foldl (\<lambda>f part. foldl (\<lambda>f k. if contains part k then jset f k (jat part k) else f) f
       [''default'', ''discriminator'', ''case'']) field (filter is_object parts)"

definition field_entry :: "json \<Rightarrow> string \<Rightarrow> json" where
  "field_entry raw name =
     (let base = jobj [(''type'', jidx raw 0), (''name'', JString name)];
          with_length = (if 2 < jsize raw \<and> is_number_integer (jidx raw 2) \<and> 0 \<le> the (get_int64 (jidx raw 2))
                         then jset base ''length'' (jidx raw 2) else base);
          with_count = (if 3 < jsize raw \<and> is_string (jidx raw 3) then jset with_length ''count'' (jidx raw 3)
                        else with_length) in
      annotate (jelems raw) with_count)"

fun field_list :: "bool \<Rightarrow> json list \<Rightarrow> json list option" where
  "field_list message [] = Some []"
| "field_list message (raw # raws) =
     (if \<not> is_array raw \<or> jsize raw < 2 then field_list message raws
      else do {
        name \<leftarrow> get_string (jidx raw 1);
        rest \<leftarrow> field_list message raws;
        Some (if message \<and> name \<in> set kHeaderFields then rest else field_entry raw name # rest) })"

definition Fields :: "json \<Rightarrow> bool \<Rightarrow> json list option" where
  "Fields definition_json message = field_list message (tl (jelems definition_json))"

type_synonym 'a outcome = "(status \<times> 'a) option"

definition add_type :: "string \<Rightarrow> json \<Rightarrow> json \<Rightarrow> json outcome" where
  "add_type name definition_json S =
     Some (if \<not> Identifier name then (schema_invalid ''Unsafe type name in VPP schema'', S)
           else if contains (jat S ''types'') name \<and> \<not> json_eq (jat (jat S ''types'') name) definition_json then
             (schema_invalid (''Conflicting VPP type: '' @ name), S)
           else (Ok, jset S ''types'' (jset (jat S ''types'') name definition_json)))"

text \<open>A loop over items that stops at the first error.\<close>

fun until_error :: "('x \<Rightarrow> json \<Rightarrow> json outcome) \<Rightarrow> 'x list \<Rightarrow> json \<Rightarrow> json outcome" where
  "until_error f [] S = Some (Ok, S)"
| "until_error f (x # xs) S = do {
     (st, S1) \<leftarrow> f x S;
     if \<not> st_ok st then Some (st, S1) else until_error f xs S1 }"

fun safe_fields :: "json list \<Rightarrow> bool option" where
  "safe_fields [] = Some True"
| "safe_fields (field # fs) = do {
     name \<leftarrow> get_string (jat field ''name'');
     if \<not> Identifier name then Some False
     else do {
       type \<leftarrow> get_string (jat field ''type'');
       if \<not> Identifier type then Some False
       else do {
         counted \<leftarrow> (if contains field ''count'' then map_option Identifier (get_string (jat field ''count'')) else Some True);
         if \<not> counted then Some False else safe_fields fs } } }"

definition type_name :: "string \<Rightarrow> string" where
  "type_name name = ''vl_api_'' @ name @ ''_t''"

definition add_layout :: "string \<Rightarrow> json \<Rightarrow> json \<Rightarrow> json outcome" where
  "add_layout category raw S =
     (if \<not> is_array raw \<or> jsize raw = 0 \<or> \<not> is_string (jidx raw 0) then
        Some (schema_invalid ''Malformed VPP type definition'', S)
      else do {
        let name = jtext (jidx raw 0);
        let message = (category = ''messages'');
        fs \<leftarrow> Fields raw message;
        let kind = (if category = ''unions'' then ''union'' else ''struct'');
        safe \<leftarrow> safe_fields fs;
        if \<not> safe then Some (schema_invalid ''Unsafe field name in VPP schema'', S)
        else add_type (if message then name else type_name name)
               (jobj [(''kind'', JString kind), (''fields'', JArray fs)]) S })"

fun enum_values :: "json list \<Rightarrow> json \<Rightarrow> json option" where
  "enum_values [] values = Some values"
| "enum_values (raw # raws) values =
     (if is_array raw then do {
        k \<leftarrow> get_string (jidx raw 0);
        enum_values raws (jset values k (jidx raw 1)) }
      else enum_values raws values)"

definition add_enum :: "string \<Rightarrow> json \<Rightarrow> json \<Rightarrow> json outcome" where
  "add_enum category raw S = do {
     name \<leftarrow> get_string (jidx raw 0);
     values \<leftarrow> enum_values (tl (jelems raw)) (JObject []);
     let flags = (category = ''enumflags'' \<or> name = ''if_status_flags'' \<or> name = ''sub_if_flags'');
     base \<leftarrow> value_as get_string (jback raw) ''enumtype'' ''u32'';
     add_type (type_name name)
       (jobj [(''kind'', JString ''enum''), (''type'', JString base), (''values'', values), (''flags'', JBool flags)]) S }"

definition add_alias :: "string \<times> json \<Rightarrow> json \<Rightarrow> json outcome" where
  "add_alias kv S =
     (if \<not> is_object (snd kv) \<and> snd kv \<noteq> JNull then None
      else add_type (type_name (fst kv)) (jset (snd kv) ''kind'' (JString ''alias'')) S)"

fun find_crc :: "string \<Rightarrow> json list \<Rightarrow> json \<Rightarrow> json option" where
  "find_crc name [] m = Some m"
| "find_crc name (raw # raws) m =
     (if json_eq (jidx raw 0) (JString name) then do {
        crc \<leftarrow> value_as get_string (jback raw) ''crc'' [];
        find_crc name raws (jset m ''crc'' (JString crc)) }
      else find_crc name raws m)"

definition add_service :: "json list \<Rightarrow> string \<Rightarrow> string \<times> json \<Rightarrow> json \<Rightarrow> json outcome" where
  "add_service messages module kv S =
     (if \<not> Identifier (fst kv) then Some (schema_invalid ''Unsafe message name'', S)
      else if \<not> is_object (snd kv) \<and> snd kv \<noteq> JNull then None
      else if contains (jat S ''methods'') (''vpp.'' @ fst kv) then
        Some (schema_invalid (''Duplicate VPP method: vpp.'' @ fst kv), S)
      else do {
        m \<leftarrow> find_crc (fst kv) messages
               (jset (jset (snd kv) ''request'' (JString (fst kv))) ''module'' (JString module));
        Some (Ok, jset S ''methods'' (jset (jat S ''methods'') (''vpp.'' @ fst kv) m)) })"

definition both :: "(json \<Rightarrow> json outcome) \<Rightarrow> (json \<Rightarrow> json outcome) \<Rightarrow> json \<Rightarrow> json outcome" where
  "both f g S = do { (st, S1) \<leftarrow> f S; if \<not> st_ok st then Some (st, S1) else g S1 }"

definition AddModule :: "json \<Rightarrow> string \<Rightarrow> json \<Rightarrow> json outcome" where
  "AddModule document_json module S =
     (if \<not> Identifier module \<or> \<not> is_object document_json \<or> \<not> contains document_json ''messages'' \<or>
         \<not> is_array (jat document_json ''messages'') \<or> \<not> contains document_json ''services'' then
        Some (schema_invalid ''Invalid VPP API module'', S)
      else if \<not> is_object (jat document_json ''services'') \<and> jat document_json ''services'' \<noteq> JNull then None
      else
        both (until_error (\<lambda>category. until_error (add_layout category) (jiter (jvalue document_json category (JArray []))))
                [''types'', ''unions'', ''messages''])
          (both (until_error (\<lambda>category. until_error (add_enum category) (jiter (jvalue document_json category (JArray []))))
                   [''enums'', ''enumflags''])
            (both (until_error add_alias (jmembers (jvalue document_json ''aliases'' (JObject []))))
               (until_error (add_service (jelems (jat document_json ''messages'')) module)
                  (jmembers (jat document_json ''services''))))) S)"

definition empty_catalog :: json where
  "empty_catalog = jobj [(''types'', JObject []), (''methods'', JObject [])]"

definition Schema_Load :: "json \<Rightarrow> json \<Rightarrow> status \<times> json" where
  "Schema_Load catalog S =
     (if \<not> is_object catalog \<or> \<not> contains catalog ''types'' \<or> \<not> is_object (jat catalog ''types'') \<or>
         \<not> contains catalog ''methods'' \<or> \<not> is_object (jat catalog ''methods'') then
        (schema_invalid ''Invalid catalog'', S)
      else (Ok, catalog))"

subsection \<open>Describing a type\<close>

definition describe_integer :: "string \<Rightarrow> int \<Rightarrow> json" where
  "describe_integer name sz =
     (let bits = nat (sz * 8) in
      jobj [(''type'', JString ''integer''),
            (''minimum'', JInt (if hd name = CHR ''u'' then 0 else - (2 ^ (bits - 1)))),
            (''maximum'', JInt (if hd name = CHR ''u'' then 2 ^ bits - 1 else 2 ^ (bits - 1) - 1))])"

definition describe_enum :: "json \<Rightarrow> json option" where
  "describe_enum type = do {
     flags \<leftarrow> value_as get_bool type ''flags'' False;
     let symbols = jobj [(''type'', JString ''string''), (''enum'', JArray (map (JString \<circ> fst) (jmembers (jat type ''values''))))];
     Some (if flags then jobj [(''type'', JString ''array''), (''uniqueItems'', JBool True), (''items'', symbols)]
           else symbols) }"

definition describe_field :: "(string \<Rightarrow> json option) \<Rightarrow> json \<Rightarrow> json option" where
  "describe_field describe field = do {
     t \<leftarrow> get_string (jat field ''type'');
     item \<leftarrow> describe t;
     n \<leftarrow> (if t = ''string'' then value_as get_int32 field ''length'' 0 else Some 0);
     if 0 < n then Some (jset item ''maxLength'' (JInt (n - 1)))
     else if t \<noteq> ''string'' \<and> contains field ''length'' then
       (let items = jobj [(''type'', JString ''array''), (''items'', item)] in
        Some (if contains field ''count'' then items
              else jset (jset items ''minItems'' (jat field ''length'')) ''maxItems'' (jat field ''length'')))
     else Some item }"

fun describe_fields ::
  "env \<Rightarrow> json \<Rightarrow> (string \<Rightarrow> json option) \<Rightarrow> string list \<Rightarrow> json list \<Rightarrow> json \<times> json list \<Rightarrow> (json \<times> json list) option" where
  "describe_fields E S describe counts [] acc = Some acc"
| "describe_fields E S describe counts (field # fs) (properties, required) = do {
     name \<leftarrow> get_string (jat field ''name'');
     if name \<in> set counts then describe_fields E S describe counts fs (properties, required)
     else do {
       item \<leftarrow> describe_field describe field;
       (item, required) \<leftarrow>
         (if contains field ''default'' then map_option (\<lambda>d. (jset item ''default'' d, required)) (PublicDefault E S field)
          else Some (item, required @ [JString name]));
       describe_fields E S describe counts fs (jset properties name item, required) } }"

definition describe_layout :: "env \<Rightarrow> json \<Rightarrow> (string \<Rightarrow> json option) \<Rightarrow> json \<Rightarrow> json option" where
  "describe_layout E S describe type = do {
     let fs = jiter (jat type ''fields'');
     counts \<leftarrow> Counts fs;
     (properties, required) \<leftarrow> describe_fields E S describe counts fs (JObject [], []);
     let result = jobj [(''type'', JString ''object''), (''additionalProperties'', JBool False), (''properties'', properties)];
     Some (if json_eq (jat type ''kind'') (JString ''union'')
           then jset (jset result ''minProperties'' (JInt 1)) ''maxProperties'' (JInt 1)
           else jset result ''required'' (JArray required)) }"

definition kTextTypes :: "string list" where
  "kTextTypes = [''vl_api_mac_address_t'', ''vl_api_address_t'', ''vl_api_ip4_address_t'', ''vl_api_ip6_address_t'',
     ''vl_api_prefix_t'', ''vl_api_ip4_prefix_t'', ''vl_api_ip6_prefix_t'']"

definition describe_catalog :: "env \<Rightarrow> json \<Rightarrow> (string \<Rightarrow> json option) \<Rightarrow> string \<Rightarrow> json option" where
  "describe_catalog E S describe name =
     (case Type S name of
        None \<Rightarrow> Some (jobj [(''unsupported'', JString name)])
      | Some type \<Rightarrow>
          if json_eq (jat type ''kind'') (JString ''alias'') then do {
            t \<leftarrow> get_string (jat type ''type'');
            item \<leftarrow> describe t;
            Some (if contains type ''length''
                  then jobj [(''type'', JString ''array''), (''items'', item),
                             (''minItems'', jat type ''length''), (''maxItems'', jat type ''length'')]
                  else item) }
          else if json_eq (jat type ''kind'') (JString ''enum'') then describe_enum type
          else describe_layout E S describe type)"

fun describe_at :: "env \<Rightarrow> json \<Rightarrow> nat \<Rightarrow> string \<Rightarrow> json option" where
  "describe_at E S 0 name = Some (jobj [(''unsupported'', JString ''recursive type'')])"
| "describe_at E S (Suc levels) name =
     (if name = ''vl_api_interface_index_t'' then
        Some (jobj [(''type'', JString ''string''), (''format'', JString ''vpp-interface-name''),
                    (''sentinels'', JArray [JString ''@all''])])
      else if name = ''u64'' \<or> name = ''i64'' then
        Some (jobj [(''type'', JString ''string''), (''format'', JString name),
                    (''pattern'', JString (if name = ''u64'' then ''^[0-9]+$'' else ''^-?[0-9]+$''))])
      else if name = ''bool'' then Some (jobj [(''type'', JString ''boolean'')])
      else if name = ''string'' then Some (jobj [(''type'', JString ''string'')])
      else if name = ''f32'' \<or> name = ''f64'' then Some (jobj [(''type'', JString ''number'')])
      else do {
        sz \<leftarrow> (if 2 \<le> length name \<and> (hd name = CHR ''u'' \<or> hd name = CHR ''i'') then FixedSize S name else Some 0);
        if 0 < sz \<and> Type S name = None then Some (describe_integer name sz)
        else if name \<in> set kTextTypes then Some (jobj [(''type'', JString ''string''), (''format'', JString name)])
        else describe_catalog E S (describe_at E S levels) name })"

definition Describe :: "env \<Rightarrow> json \<Rightarrow> string \<Rightarrow> json option" where
  "Describe E S name = describe_at E S 33 name"

subsection \<open>Growing a catalog\<close>

definition safe_type :: "string \<Rightarrow> json \<Rightarrow> bool" where
  "safe_type name T \<longleftrightarrow> Identifier name \<and>
     (jat T ''kind'' \<in> {JString ''struct'', JString ''union''} \<longrightarrow>
        (\<exists>fs. jat T ''fields'' = JArray fs \<and> safe_fields fs = Some True))"

definition safe_method :: "string \<Rightarrow> json \<Rightarrow> bool" where
  "safe_method name m \<longleftrightarrow> (\<exists>request module. name = ''vpp.'' @ request \<and> Identifier request \<and> Identifier module \<and>
     jat m ''request'' = JString request \<and> jat m ''module'' = JString module)"

abbreviation types_of :: "json \<Rightarrow> string \<Rightarrow> json option" where
  "types_of S \<equiv> map_of (jmembers (jat S ''types''))"

abbreviation methods_of :: "json \<Rightarrow> string \<Rightarrow> json option" where
  "methods_of S \<equiv> map_of (jmembers (jat S ''methods''))"

definition safe_catalog :: "json \<Rightarrow> bool" where
  "safe_catalog S \<longleftrightarrow> is_object S \<and> is_object (jat S ''types'') \<and> is_object (jat S ''methods'') \<and>
     (\<forall>name T. types_of S name = Some T \<longrightarrow> safe_type name T) \<and>
     (\<forall>name m. methods_of S name = Some m \<longrightarrow> safe_method name m)"

text \<open>Nothing that is in the catalog is redefined, but for equal definitions.\<close>

definition conserves :: "json \<Rightarrow> json \<Rightarrow> bool" where
  "conserves S S' \<longleftrightarrow>
     (\<forall>name T. types_of S name = Some T \<longrightarrow> (\<exists>T'. types_of S' name = Some T' \<and> json_eq\<^sup>*\<^sup>* T T')) \<and>
     (\<forall>name m. methods_of S name = Some m \<longrightarrow> methods_of S' name = Some m)"

definition grows :: "json \<Rightarrow> json \<Rightarrow> bool" where
  "grows S S' \<longleftrightarrow> (safe_catalog S \<longrightarrow> safe_catalog S' \<and> conserves S S')"

text \<open>The interface of the loops: steps that stay within a transitive relation.\<close>

locale catalog_relation =
  fixes R :: "json \<Rightarrow> json \<Rightarrow> bool"
  assumes refl: "R S S" and trans: "R S S' \<Longrightarrow> R S' S'' \<Longrightarrow> R S S''"
begin

definition within :: "(json \<Rightarrow> json outcome) \<Rightarrow> bool" where
  "within f \<longleftrightarrow> (\<forall>S st S'. f S = Some (st, S') \<longrightarrow> R S S')"

lemma withinD: "within f \<Longrightarrow> f S = Some (st, S') \<Longrightarrow> R S S'"
  by (auto simp: within_def)

lemma within_until: "(\<And>x. x \<in> set xs \<Longrightarrow> within (f x)) \<Longrightarrow> within (until_error f xs)"
proof (induction xs)
  case (Cons x xs)
  have rest: "within (f x)" "within (until_error f xs)" using Cons by auto
  show ?case
    unfolding within_def
    by (auto simp: Option.bind_eq_Some_conv split: if_splits intro: withinD [OF rest(1)]
        trans [OF withinD [OF rest(1)] withinD [OF rest(2)]])
qed (auto simp: within_def refl)

lemma within_both: "within f \<Longrightarrow> within g \<Longrightarrow> within (both f g)"
  by (auto simp: within_def both_def Option.bind_eq_Some_conv split: if_splits) (meson trans)

end

lemma conserves_refl [simp]: "conserves S S"
  by (auto simp: conserves_def)

lemma conserves_trans: "conserves S S' \<Longrightarrow> conserves S' S'' \<Longrightarrow> conserves S S''"
  unfolding conserves_def by (meson rtranclp_trans)

interpretation growth: catalog_relation grows
  by unfold_locales (auto simp: grows_def intro: conserves_trans)

lemma grows_types:
  assumes "safe_type name T" and "\<And>T'. types_of S name = Some T' \<Longrightarrow> json_eq T' T"
  shows "grows S (jset S ''types'' (jset (jat S ''types'') name T))"
proof (unfold grows_def, intro impI)
  assume s: "safe_catalog S"
  let ?S = "jset S ''types'' (jset (jat S ''types'') name T)"
  have at: "jat ?S ''types'' = jset (jat S ''types'') name T" "jat ?S ''methods'' = jat S ''methods''" "is_object ?S"
    "types_of ?S = (types_of S)(name \<mapsto> T)"
    using s by (auto simp: safe_catalog_def json_simps)
  have "conserves S ?S" using assms(2) by (auto simp: conserves_def at(2,4))
  moreover have "safe_catalog ?S"
    using s assms(1) unfolding safe_catalog_def at(2,3,4) by (auto simp: at(1) json_simps)
  ultimately show "safe_catalog ?S \<and> conserves S ?S" by blast
qed

lemma grows_add_type:
  assumes "add_type name T S = Some (st, S')" and "Identifier name \<Longrightarrow> safe_type name T"
  shows "grows S S'"
proof -
  have "S' = S \<or> S' = jset S ''types'' (jset (jat S ''types'') name T) \<and> Identifier name \<and>
      (\<forall>T'. types_of S name = Some T' \<longrightarrow> json_eq T' T)"
    using assms(1) by (auto simp: add_type_def contains_def jat_def [of "jat S ''types''"] split: if_splits)
  with grows_types assms(2) growth.refl show ?thesis by auto
qed

lemma grows_add_layout: "growth.within (add_layout category raw)"
proof -
  have "grows S S'" if "add_layout category raw S = Some (st, S')" for S st S'
  proof -
    from that consider "S' = S"
      | n fs k where "safe_fields fs = Some True" "add_type n (jobj [(''kind'', JString k), (''fields'', JArray fs)]) S = Some (st, S')"
      by (auto simp: add_layout_def Option.bind_eq_Some_conv Let_def split: if_splits)
    then show ?thesis
      by cases (auto simp: growth.refl safe_type_def json_simps elim!: grows_add_type)
  qed
  then show ?thesis by (auto simp: growth.within_def)
qed

lemma grows_add_enum: "growth.within (add_enum category raw)"
  by (auto simp: growth.within_def add_enum_def Option.bind_eq_Some_conv Let_def safe_type_def json_simps elim!: grows_add_type)

lemma grows_add_alias: "growth.within (add_alias kv)"
proof -
  have "jat (jset j ''kind'' (JString ''alias'')) ''kind'' = JString ''alias''" if "is_object j \<or> j = JNull" for j
    using that by (cases "is_object j") (auto simp: json_simps jat_def)
  then show ?thesis
    by (auto simp: growth.within_def add_alias_def safe_type_def jat_def [of "JObject [_]"] split: if_splits
        elim!: grows_add_type)
qed

lemma find_crc_keeps:
  "find_crc name raws m = Some m' \<Longrightarrow> is_object m \<Longrightarrow> k \<noteq> ''crc'' \<Longrightarrow> is_object m' \<and> jat m' k = jat m k"
  by (induction raws arbitrary: m) (auto simp: Option.bind_eq_Some_conv json_simps split: if_splits)

lemma grows_add_service:
  assumes "Identifier module"
  shows "growth.within (add_service messages module kv)"
proof -
  have "grows S S'" if a: "add_service messages module kv S = Some (st, S')" for S st S'
  proof (cases "S' = S")
    case False
    let ?m0 = "jset (jset (snd kv) ''request'' (JString (fst kv))) ''module'' (JString module)"
    and ?n = "''vpp.'' @ fst kv"
    obtain m where m: "find_crc (fst kv) messages ?m0 = Some m" "S' = jset S ''methods'' (jset (jat S ''methods'') ?n m)"
      "Identifier (fst kv)" "\<not> contains (jat S ''methods'') ?n" "is_object (snd kv) \<or> snd kv = JNull"
      using a False by (auto simp: add_service_def Option.bind_eq_Some_conv split: if_splits)
    have obj: "is_object (jset (snd kv) ''request'' (JString (fst kv)))"
      "jat (jset (snd kv) ''request'' (JString (fst kv))) ''request'' = JString (fst kv)"
      using m(5) by (cases "is_object (snd kv)"; auto simp: json_simps jat_def)+
    then have "safe_method ?n m"
      using find_crc_keeps [OF m(1)] m(3) assms by (auto simp: safe_method_def json_simps)
    then show ?thesis
      using m(2,4) unfolding grows_def safe_catalog_def conserves_def
      by (auto simp: json_simps contains_def)
  qed (simp add: growth.refl)
  then show ?thesis by (auto simp: growth.within_def)
qed

lemma grows_AddModule:
  assumes "AddModule document_json module S = Some (st, S')"
  shows "grows S S'"
proof (cases "S' = S")
  case False
  then have "Identifier module" using assms by (auto simp: AddModule_def split: if_splits)
  then show ?thesis
    using assms False unfolding AddModule_def
    by (auto split: if_splits elim!: growth.withinD [rotated]
        intro!: growth.within_both growth.within_until grows_add_layout grows_add_enum grows_add_alias grows_add_service)
qed (simp add: growth.refl)

text \<open>
  C25. Adding an API module, also one that is rejected half way, never redefines a type or a method
  that is already in the catalog, and lets in only plain identifiers as names of types, fields,
  counters, messages and modules: the catalog stays safe to generate code from.
\<close>

theorem add_module_safe:
  assumes "safe_catalog S" and "AddModule document_json module S = Some (st, S')"
  shows "safe_catalog S' \<and> conserves S S'"
  using assms grows_AddModule by (simp add: grows_def)

definition sample_api :: json where
  "sample_api = JObject [
     (''aliases'', JObject [(''interface_index'', JObject [(''type'', JString ''u32'')])]),
     (''enums'', JArray [JArray [JString ''proto'', JArray [JString ''UDP'', JUint 17], JObject [(''enumtype'', JString ''u8'')]]]),
     (''messages'', JArray [JArray [JString ''rule_add'', JArray [JString ''u32'', JString ''context''],
        JArray [JString ''vl_api_proto_t'', JString ''proto''], JObject [(''crc'', JString ''0x1234'')]]]),
     (''services'', JObject [(''rule_add'', JObject [(''reply'', JString ''rule_add_reply'')])])]"

lemma safe_empty_catalog: "safe_catalog empty_catalog"
  by (simp add: safe_catalog_def empty_catalog_def json_simps)

theorem add_module_safe_witness:
  "\<exists>S'. AddModule sample_api ''acl'' empty_catalog = Some (Ok, S') \<and> safe_catalog S' \<and>
     types_of S' ''rule_add'' \<noteq> None \<and> types_of S' ''vl_api_proto_t'' \<noteq> None \<and> methods_of S' ''vpp.rule_add'' \<noteq> None"
proof -
  have "case AddModule sample_api ''acl'' empty_catalog of None \<Rightarrow> False | Some (st, S') \<Rightarrow> st = Ok \<and>
      types_of S' ''rule_add'' \<noteq> None \<and> types_of S' ''vl_api_proto_t'' \<noteq> None \<and> methods_of S' ''vpp.rule_add'' \<noteq> None"
    by code_simp
  then obtain S' where S': "AddModule sample_api ''acl'' empty_catalog = Some (Ok, S')" "types_of S' ''rule_add'' \<noteq> None"
    "types_of S' ''vl_api_proto_t'' \<noteq> None" "methods_of S' ''vpp.rule_add'' \<noteq> None"
    by (auto split: option.splits)
  with add_module_safe [OF safe_empty_catalog S'(1)] show ?thesis by blast
qed

end
