(* ===== verification/Vapi.thy ===== *)
theory Vapi
  imports Backend Catalog
begin

text \<open>
  The backend that talks to VPP (\<open>src/vapi_backend.cc\<close>, class \<open>VapiBackend\<close>), with the callbacks that
  \<open>tools/schema_generator.cc\<close> emits for generated calls. VPP's client library, the socket options and
  the steady clock are parameters: a record of functions on a state of their own. A reply arrives as
  an event of \<open>vapi_dispatch_one\<close>, which the library passes to the callback of the request that is
  outstanding. \<open>None\<close> means that a function throws or never returns.
\<close>

subsection \<open>The client library\<close>

datatype vapi_rc = Vapi_ok | Vapi_eagain | Vapi_error

text \<open>
  The arguments of a callback: whether the library reports success, whether it is the last call, and
  the reply. A dumped interface has its index, the bytes of its name and its flags. The reply of a
  generated call has its return value, if the message has one, and its bytes, if they are within the
  limit; \<open>True\<close> marks the details message of an explicit stream.
\<close>

datatype event =
    Dump_event bool bool "(nat \<times> string \<times> nat) option"
  | Set_event bool "int option"
  | Call_event bool bool bool "(int option \<times> string option) option"

record 'x binding =
  g_name :: string
  g_available :: "'x \<Rightarrow> bool"
  g_send :: "string \<Rightarrow> 'x \<Rightarrow> bool \<times> 'x"

record 'x vapi =
  x_alloc :: "'x \<Rightarrow> bool \<times> 'x"
  x_connect :: "'x \<Rightarrow> bool \<times> 'x"
  x_free :: "'x \<Rightarrow> 'x"
  x_disconnect :: "'x \<Rightarrow> 'x"
  x_available :: "string \<Rightarrow> 'x \<Rightarrow> bool"
  x_dispatch :: "'x \<Rightarrow> vapi_rc \<times> event list \<times> 'x"
  x_now :: "'x \<Rightarrow> nat \<times> 'x"
  x_alloc_msg :: "string \<Rightarrow> 'x \<Rightarrow> bool \<times> 'x"
  x_free_msg :: "'x \<Rightarrow> 'x"
  x_send_dump :: "'x \<Rightarrow> bool \<times> 'x"
  x_send_flags :: "nat \<Rightarrow> bool \<Rightarrow> 'x \<Rightarrow> bool \<times> 'x"
  x_get_fd :: "'x \<Rightarrow> bool \<times> 'x"
  x_block :: "'x \<Rightarrow> bool \<times> 'x"
  x_unblock :: "'x \<Rightarrow> bool \<times> 'x"
  x_bindings :: "'x binding list"

text \<open>The members of the class that change; \<open>schema_\<close> is a parameter of the functions.\<close>

record 'x vapi_state =
  v_names :: "(nat \<times> string) list"
  v_open :: bool
  v_lib :: 'x

definition lib :: "('x \<Rightarrow> 'a \<times> 'x) \<Rightarrow> 'x vapi_state \<Rightarrow> 'a \<times> 'x vapi_state" where
  "lib f v = (let (r, x) = f (v_lib v) in (r, v\<lparr>v_lib := x\<rparr>))"

definition Reset :: "'x vapi \<Rightarrow> 'x vapi_state \<Rightarrow> 'x vapi_state" where
  "Reset V v = (if \<not> v_open v then v else v\<lparr>v_lib := x_free V (x_disconnect V (v_lib v)), v_open := False\<rparr>)"

definition Vapi_Connect :: "'x vapi \<Rightarrow> 'x vapi_state \<Rightarrow> status \<times> 'x vapi_state" where
  "Vapi_Connect V v =
     (if v_open v then (Ok, v)
      else
        (let (allocated, v1) = lib (x_alloc V) v in
         if \<not> allocated then (mk_status ''backend_unavailable'' ''Cannot allocate VAPI context'', v1)
         else
           (let (connected, v2) = lib (x_connect V) v1 in
            if \<not> connected then
              (mk_status ''backend_unavailable'' ''Cannot connect to compatible VPP 26.06 API'', v2\<lparr>v_lib := x_free V (v_lib v2)\<rparr>)
            else (Ok, v2\<lparr>v_open := True\<rparr>))))"

definition Poll :: "'x vapi \<Rightarrow> 'x vapi_state \<Rightarrow> 'x vapi_state" where
  "Poll V v =
     (if \<not> v_open v then v
      else let (rc, _, x) = x_dispatch V (v_lib v); v1 = v\<lparr>v_lib := x\<rparr> in if rc = Vapi_error then Reset V v1 else v1)"

text \<open>
  \<open>Dispatch\<close>: \<open>handle\<close> is the callback of the outstanding request on its state, \<open>finished\<close> reads the
  flag it sets. Times are in milliseconds.
\<close>

partial_function (option) Dispatch ::
  "'x vapi \<Rightarrow> (event \<Rightarrow> 's \<Rightarrow> 's) \<Rightarrow> ('s \<Rightarrow> bool) \<Rightarrow> bool \<Rightarrow> nat \<Rightarrow> 's \<Rightarrow> 'x vapi_state \<Rightarrow> (status \<times> 's \<times> 'x vapi_state) option" where
  "Dispatch V handle finished mutation deadline s v =
     (if finished s then Some (Ok, s, v)
      else
        (let (rc, events, x) = x_dispatch V (v_lib v); s1 = fold handle events s; v1 = v\<lparr>v_lib := x\<rparr> in
         if rc = Vapi_error then
           Some (mk_status (if mutation then ''outcome_unknown'' else ''backend_unavailable'') ''VAPI connection failed'',
                 s1, Reset V v1)
         else
           (let (now, v2) = lib (x_now V) v1 in
            if deadline \<le> now then
              Some (mk_status (if mutation then ''outcome_unknown'' else ''deadline_exceeded'')
                      ''VAPI request exceeded 30 seconds'', s1, Reset V v2)
            else Dispatch V handle finished mutation deadline s1 v2)))"

definition dispatch_30s ::
  "'x vapi \<Rightarrow> (event \<Rightarrow> 's \<Rightarrow> 's) \<Rightarrow> ('s \<Rightarrow> bool) \<Rightarrow> bool \<Rightarrow> 's \<Rightarrow> 'x vapi_state \<Rightarrow> (status \<times> 's \<times> 'x vapi_state) option" where
  "dispatch_30s V handle finished mutation s v =
     (let (now, v1) = lib (x_now V) v in Dispatch V handle finished mutation (now + 30000) s v1)"

subsection \<open>Dumping the interfaces\<close>

text \<open>\<open>struct DumpState\<close>; the sink writes to a spool, so the spool and the disk are part of it.\<close>

record dump_state =
  ds_sink :: "sink option"
  ds_keep :: bool
  ds_names :: "(nat \<times> string) list"
  ds_name :: string
  ds_index :: nat
  ds_matches :: nat
  ds_done :: bool
  ds_discard :: bool
  ds_ok :: bool
  ds_spool :: spool
  ds_disk :: disk

definition fresh_dump :: "spool \<Rightarrow> disk \<Rightarrow> dump_state" where
  "fresh_dump sp d = \<lparr>ds_sink = None, ds_keep = False, ds_names = [], ds_name = [], ds_index = 0, ds_matches = 0,
     ds_done = False, ds_discard = False, ds_ok = True, ds_spool = sp, ds_disk = d\<rparr>"

definition note_name :: "nat \<Rightarrow> string \<Rightarrow> dump_state \<Rightarrow> dump_state" where
  "note_name index name s = (if ds_keep s then s\<lparr>ds_names := put index name (ds_names s)\<rparr> else s)"

definition note_match :: "nat \<Rightarrow> string \<Rightarrow> dump_state \<Rightarrow> dump_state" where
  "note_match index name s =
     (if ds_name s \<noteq> [] \<and> ds_name s = name then s\<lparr>ds_index := index, ds_matches := Suc (ds_matches s)\<rparr> else s)"

definition interface_item :: "string \<Rightarrow> nat \<Rightarrow> json" where
  "interface_item name flags =
     jobj [(''interface'', JString name), (''state'', JString (if odd flags then ''up'' else ''down''))]"

definition offer :: "string \<Rightarrow> nat \<Rightarrow> dump_state \<Rightarrow> dump_state" where
  "offer name flags s =
     (case ds_sink s of
        None \<Rightarrow> s
      | Some sink \<Rightarrow>
          if ds_discard s then s
          else let (more, sp, d) = sink (ds_spool s) (ds_disk s) (interface_item name flags) in
               s\<lparr>ds_discard := \<not> more, ds_spool := sp, ds_disk := d\<rparr>)"

fun OnDump :: "event \<Rightarrow> dump_state \<Rightarrow> dump_state" where
  "OnDump (Dump_event ok final reply) s =
     (if \<not> ok then s\<lparr>ds_ok := False, ds_done := True\<rparr>
      else
        (let s1 = (case reply of
               None \<Rightarrow> s
             | Some (index, raw, flags) \<Rightarrow>
                 (let name = c_str (take 64 raw) in offer name flags (note_match index name (note_name index name s)))) in
         if final then s1\<lparr>ds_done := True\<rparr> else s1))"
| "OnDump _ s = s"

definition Dump :: "'x vapi \<Rightarrow> dump_state \<Rightarrow> 'x vapi_state \<Rightarrow> (status \<times> dump_state \<times> 'x vapi_state) option" where
  "Dump V s v =
     (let (allocated, v1) = lib (x_alloc_msg V ''sw_interface_dump'') v in
      if \<not> allocated then Some (mk_status ''backend_unavailable'' ''Cannot allocate VAPI dump'', s, v1)
      else
        (let (sent, v2) = lib (x_send_dump V) v1 in
         if \<not> sent then
           Some (mk_status ''backend_unavailable'' ''Cannot submit VAPI dump'', s, Reset V (v2\<lparr>v_lib := x_free_msg V (v_lib v2)\<rparr>))
         else do {
           (st, s', v3) \<leftarrow> dispatch_30s V OnDump ds_done False s v2;
           Some (if \<not> st_ok st then (st, s', v3)
                 else if \<not> ds_ok s' then (mk_status ''backend_unavailable'' ''VAPI dump failed'', s', Reset V v3)
                 else (Ok, s', v3)) }))"

definition Vapi_List :: "'x vapi \<Rightarrow> sink \<Rightarrow> 'x vapi_state \<Rightarrow> spool \<Rightarrow> disk \<Rightarrow> (status \<times> 'x vapi_state \<times> spool \<times> disk) option" where
  "Vapi_List V sink v sp d =
     (let (st, v1) = Vapi_Connect V v in
      if \<not> st_ok st then Some (st, v1, sp, d)
      else if \<not> x_available V ''sw_interface_dump'' (v_lib v1) then
        Some (mk_status ''unsupported_operation'' ''VPP interface dump schema is unavailable'', v1, sp, d)
      else do {
        (st, s, v2) \<leftarrow> Dump V ((fresh_dump sp d)\<lparr>ds_sink := Some sink\<rparr>) v1;
        Some (st, v2, ds_spool s, ds_disk s) })"

definition RefreshNames :: "'x vapi \<Rightarrow> spool \<Rightarrow> disk \<Rightarrow> 'x vapi_state \<Rightarrow> (status \<times> 'x vapi_state) option" where
  "RefreshNames V sp d v =
     (let v0 = v\<lparr>v_names := []\<rparr> in
      if \<not> x_available V ''sw_interface_dump'' (v_lib v0) then
        Some (mk_status ''unsupported_operation'' ''Interface resolver unavailable'', v0)
      else do {
        (st, s, v1) \<leftarrow> Dump V ((fresh_dump sp d)\<lparr>ds_keep := True\<rparr>) v0;
        Some (st, v1\<lparr>v_names := ds_names s\<rparr>) })"

subsection \<open>Changing the state of an interface\<close>

record reply_state =
  rs_done :: bool
  rs_retval :: int
  rs_ok :: bool

fun OnSet :: "event \<Rightarrow> reply_state \<Rightarrow> reply_state" where
  "OnSet (Set_event ok reply) s =
     (case reply of
        None \<Rightarrow> s\<lparr>rs_ok := False, rs_done := True\<rparr>
      | Some r \<Rightarrow> s\<lparr>rs_ok := ok, rs_retval := r, rs_done := True\<rparr>)"
| "OnSet _ s = s"

definition no_spool :: spool where
  "no_spool = \<lparr>sp_path = [], sp_id = [], sp_fd = False, sp_seq = 0, sp_items = 0, sp_bytes = 0, sp_limit = 0, sp_status = Ok\<rparr>"

definition send_flags :: "'x vapi \<Rightarrow> nat \<Rightarrow> bool \<Rightarrow> 'x vapi_state \<Rightarrow> (status \<times> 'x vapi_state) option" where
  "send_flags V index up v =
     (let (allocated, v1) = lib (x_alloc_msg V ''sw_interface_set_flags'') v in
      if \<not> allocated then Some (mk_status ''backend_unavailable'' ''Cannot allocate VAPI request'', v1)
      else
        (let (sent, v2) = lib (x_send_flags V index up) v1 in
         if \<not> sent then
           Some (mk_status ''outcome_unknown'' ''VAPI send failed; reconcile interface state'',
                 Reset V (v2\<lparr>v_lib := x_free_msg V (v_lib v2)\<rparr>))
         else do {
           (st, s, v3) \<leftarrow> dispatch_30s V OnSet rs_done True \<lparr>rs_done = False, rs_retval = 0, rs_ok = True\<rparr> v2;
           Some (if \<not> st_ok st then st
                 else if \<not> rs_ok s then mk_status ''outcome_unknown'' ''VAPI reply failed; reconcile interface state''
                 else if rs_retval s \<noteq> 0 then mk_status ''vpp_rejected'' ''VPP rejected the interface state change''
                 else Ok, v3) }))"

definition Vapi_SetState :: "'x vapi \<Rightarrow> string \<Rightarrow> bool \<Rightarrow> 'x vapi_state \<Rightarrow> (status \<times> 'x vapi_state) option" where
  "Vapi_SetState V name up v =
     (let (st, v1) = Vapi_Connect V v in
      if \<not> st_ok st then Some (st, v1)
      else if \<not> x_available V ''sw_interface_dump'' (v_lib v1) \<or> \<not> x_available V ''sw_interface_set_flags'' (v_lib v1) then
        Some (mk_status ''unsupported_operation'' ''VPP interface schemas are unavailable'', v1)
      else do {
        (st, s, v2) \<leftarrow> Dump V ((fresh_dump no_spool clean_disk)\<lparr>ds_name := name\<rparr>) v1;
        if \<not> st_ok st then Some (st, v2)
        else if ds_matches s = 0 then Some (mk_status ''resource_not_found'' ''Interface name did not resolve'', v2)
        else if ds_matches s \<noteq> 1 then Some (mk_status ''ambiguous_resource'' ''Interface name is not unique'', v2)
        else send_flags V (ds_index s) up v2 })"

subsection \<open>Generated calls\<close>

text \<open>
  \<open>struct GeneratedCall\<close> with what its \<open>item\<close> closure captures: the status of the items, the spool and
  the disk. \<open>cs_thrown\<close> is set when decoding an item throws, which ends the call.
\<close>

record call_state =
  cs_done :: bool
  cs_retval :: int
  cs_ok :: bool
  cs_status :: status
  cs_reply :: string
  cs_items :: status
  cs_spool :: spool
  cs_disk :: disk
  cs_thrown :: bool

definition fresh_call :: "spool \<Rightarrow> disk \<Rightarrow> call_state" where
  "fresh_call sp d = \<lparr>cs_done = False, cs_retval = 0, cs_ok = True, cs_status = Ok, cs_reply = [], cs_items = Ok,
     cs_spool = sp, cs_disk = d, cs_thrown = False\<rparr>"

definition call_item :: "env \<Rightarrow> (string \<Rightarrow> (status \<times> json) option) \<Rightarrow> string \<Rightarrow> call_state \<Rightarrow> call_state" where
  "call_item E decode payload s =
     (if \<not> st_ok (cs_items s) \<or> \<not> st_ok (sp_status (cs_spool s)) then s
      else case decode payload of
             None \<Rightarrow> s\<lparr>cs_thrown := True\<rparr>
           | Some (st, item) \<Rightarrow>
               if \<not> st_ok st then s\<lparr>cs_items := st\<rparr>
               else let (_, sp, d) = Spool_Add E (cs_spool s) (cs_disk s) item in
                    s\<lparr>cs_items := st, cs_spool := sp, cs_disk := d\<rparr>)"

text \<open>
  The callback of \<open>tools/schema_generator.cc\<close>, function \<open>Callback\<close>. Without an explicit stream the reply
  message itself is an item of the stream; with one, the details message is, and it does not complete
  the call. Only an explicit stream registers a callback for details.
\<close>

fun OnCall :: "env \<Rightarrow> (string \<Rightarrow> (status \<times> json) option) \<Rightarrow> bool \<Rightarrow> bool \<Rightarrow> event \<Rightarrow> call_state \<Rightarrow> call_state" where
  "OnCall E decode stream explicit (Call_event details ok final reply) s =
     (if details \<and> \<not> explicit then s
      else if \<not> ok then s\<lparr>cs_ok := False, cs_done := True\<rparr>
      else
        (let s1 = (case reply of
               None \<Rightarrow> s
             | Some (retval, payload) \<Rightarrow>
                 (let s0 = (if payload = None
                            then s\<lparr>cs_status := mk_status ''payload_too_large'' ''Native reply exceeds 1 MiB''\<rparr> else s);
                      s1 = (case retval of None \<Rightarrow> s0 | Some r \<Rightarrow> s0\<lparr>cs_retval := r\<rparr>) in
                  if \<not> st_ok (cs_status s1) then s1
                  else if details \<or> stream \<and> \<not> explicit then call_item E decode (the payload) s1
                  else s1\<lparr>cs_reply := the payload\<rparr>)) in
         if final \<and> \<not> details then s1\<lparr>cs_done := True\<rparr> else s1))"
| "OnCall E decode stream explicit _ s = s"

definition symbols_of :: "(nat \<times> string) list \<Rightarrow> symbols" where
  "symbols_of names = \<lparr>
     interface_index = Some (\<lambda>name.
       (let found = filter (\<lambda>(i, n). n = name) names in
        (if length found = 1 then Ok
         else mk_status (if found \<noteq> [] then ''ambiguous_resource'' else ''resource_not_found'')
                ''Interface name did not resolve uniquely'',
         if found = [] then 0 else fst (last found)))),
     interface_name = Some (\<lambda>index.
       (case map_of names index of
          None \<Rightarrow> (mk_status ''resource_not_found'' ''VPP returned an unresolved interface index'', [])
        | Some name \<Rightarrow> (Ok, name)))\<rparr>"

type_synonym 'x answer = "(status \<times> 'x vapi_state \<times> spool \<times> disk) option"

definition respond :: "env \<Rightarrow> 'x vapi_state \<Rightarrow> spool \<Rightarrow> disk \<Rightarrow> json \<Rightarrow> 'x answer" where
  "respond E v sp d j = (let (r, sp', d') = Spool_Single E sp d j in Some (r, v, sp', d'))"

definition finish :: "env \<Rightarrow> 'x vapi_state \<Rightarrow> spool \<Rightarrow> disk \<Rightarrow> status \<Rightarrow> 'x answer" where
  "finish E v sp d st = (let (r, sp', d') = Spool_Finish E sp d st in Some (r, v, sp', d'))"

text \<open>What the call needs to know of the method.\<close>

record 'x call_info =
  i_id :: string
  i_binding :: "'x binding"
  i_input :: string
  i_output :: string
  i_reply :: json
  i_explicit :: bool
  i_stream :: bool
  i_cursor :: bool
  i_deadline :: nat

definition kStreamContinue :: int where "kStreamContinue = - 165"

text \<open>Send the request with a blocking socket, and restore the socket.\<close>

definition send_call :: "'x vapi \<Rightarrow> 'x call_info \<Rightarrow> string \<Rightarrow> 'x vapi_state \<Rightarrow> status \<times> 'x vapi_state" where
  "send_call V info bs v =
     (let (fd, v1) = lib (x_get_fd V) v in
      if \<not> fd then (mk_status ''backend_unavailable'' ''VAPI socket unavailable'', v1)
      else
        (let (blocking, v2) = lib (x_block V) v1 in
         if \<not> blocking then (mk_status ''backend_unavailable'' ''Cannot configure bounded VAPI send'', Reset V v2)
         else
           (let (sent, v3) = lib (g_send (i_binding info) bs) v2; (restored, v4) = lib (x_unblock V) v3 in
            if \<not> restored then (mk_status ''outcome_unknown'' ''Cannot restore VAPI socket after send'', Reset V v4)
            else if \<not> sent then
              (mk_status ''outcome_unknown'' ''VAPI submission failed; reconcile before retrying'', Reset V v4)
            else (Ok, v4))))"

text \<open>After a page of a stream: an answer, or the cursor of the next page.\<close>

definition stream_page ::
  "env \<Rightarrow> inet \<Rightarrow> json \<Rightarrow> 'x vapi \<Rightarrow> 'x call_info \<Rightarrow> json \<Rightarrow> status \<Rightarrow> call_state \<Rightarrow> 'x vapi_state \<Rightarrow>
   ((status + json) \<times> 'x vapi_state) option" where
  "stream_page E N S V info call_params st s v =
     (if \<not> st_ok st then Some (Inl st, v)
      else if \<not> st_ok (cs_status s) then Some (Inl (cs_status s), v)
      else if \<not> st_ok (cs_items s) \<or> \<not> st_ok (sp_status (cs_spool s)) then Some (Inl (cs_items s), v)
      else if \<not> i_explicit info then Some (Inl Ok, v)
      else do {
        t \<leftarrow> get_string (i_reply info);
        (st, completion) \<leftarrow> Decode E N S t (cs_reply s) (symbols_of (v_names v));
        if \<not> st_ok st then Some (Inl st, v)
        else if cs_retval s = kStreamContinue \<and> i_cursor info then
          (if \<not> contains completion ''cursor'' \<or> \<not> is_number_unsigned (jat completion ''cursor'') \<or>
              json_eq (jat completion ''cursor'') (jat call_params ''cursor'')
           then Some (Inl (mk_status ''deadline_exceeded'' ''VPP pagination did not complete''), v)
           else
             (let (now, v1) = lib (x_now V) v in
              if i_deadline info \<le> now
              then Some (Inl (mk_status ''deadline_exceeded'' ''VPP pagination did not complete''), v1)
              else Some (Inr (jat completion ''cursor''), v1)))
        else Some (Inl (if cs_retval s \<noteq> 0 then mk_status ''vpp_rejected'' ''VPP rejected the stream operation'' else Ok), v) })"

text \<open>The single answer of a call that is not a stream.\<close>

definition call_answer ::
  "env \<Rightarrow> inet \<Rightarrow> json \<Rightarrow> 'x vapi \<Rightarrow> 'x call_info \<Rightarrow> status \<Rightarrow> call_state \<Rightarrow> 'x vapi_state \<Rightarrow>
   ((status + json) \<times> 'x vapi_state) option" where
  "call_answer E N S V info st s v =
     (if \<not> st_ok (cs_status s) then Some (Inl (cs_status s), v)
      else if \<not> st_ok st then Some (Inl st, v)
      else if cs_retval s \<noteq> 0 then Some (Inl (mk_status ''vpp_rejected'' ''VPP rejected the operation''), v)
      else do {
        interfaces \<leftarrow> HasInterface S (i_output info);
        (st, v1) \<leftarrow> (if interfaces then RefreshNames V (cs_spool s) (cs_disk s) v else Some (Ok, v));
        if \<not> st_ok st then
          Some (Inl (mk_status ''outcome_unknown'' ''Reply received but interface names could not be refreshed''), v1)
        else do {
          (st, result) \<leftarrow> Decode E N S (i_output info) (cs_reply s) (symbols_of (v_names v1));
          if \<not> st_ok st then Some (Inl st, v1)
          else if \<not> contains result ''retval'' then Some (Inr result, v1)
          else if \<not> json_eq (jat result ''retval'') (JInt 0) then do {
            n \<leftarrow> dump E (jat result ''retval'');
            Some (Inl (mk_status ''vpp_rejected'' (''VPP rejected the operation (retval '' @ n @ '')'')), v1) }
          else Some (Inr (jerase result ''retval''), v1) } })"

text \<open>Wait for the reply of a call that was sent.\<close>

definition await_reply ::
  "env \<Rightarrow> inet \<Rightarrow> json \<Rightarrow> 'x vapi \<Rightarrow> 'x call_info \<Rightarrow> 'x vapi_state \<Rightarrow> spool \<Rightarrow> disk \<Rightarrow> (status \<times> call_state \<times> 'x vapi_state) option" where
  "await_reply E N S V info v sp d = do {
     let decode = (\<lambda>payload. Decode E N S (i_output info) payload (symbols_of (v_names v)));
     (st, s, v1) \<leftarrow> Dispatch V (OnCall E decode (i_stream info) (i_explicit info)) (\<lambda>s. cs_done s \<or> cs_thrown s)
                      True (i_deadline info) (fresh_call sp d) v;
     if cs_thrown s then None
     else Some (if st_ok st \<and> \<not> cs_ok s then (mk_status ''outcome_unknown'' ''VAPI reply failed'', s, Reset V v1)
                else (st, s, v1)) }"

fun call_pages ::
  "env \<Rightarrow> inet \<Rightarrow> json \<Rightarrow> 'x vapi \<Rightarrow> 'x call_info \<Rightarrow> nat \<Rightarrow> json \<Rightarrow> 'x vapi_state \<Rightarrow> spool \<Rightarrow> disk \<Rightarrow> 'x answer" where
  "call_pages E N S V info 0 call_params v sp d =
     finish E v sp d (mk_status ''quota_exceeded'' ''VPP pagination exceeded 1024 pages'')"
| "call_pages E N S V info (Suc pages) call_params v sp d = do {
     (st, bs) \<leftarrow> Encode E N S (i_input info) call_params (symbols_of (v_names v));
     if \<not> st_ok st then respond E v sp d (jerror (i_id info) st)
     else
       (let (st, v1) = send_call V info bs v in
        if \<not> st_ok st then respond E v1 sp d (jerror (i_id info) st)
        else do {
          (st, s, v2) \<leftarrow> await_reply E N S V info v1 sp d;
          if i_stream info then do {
            (r, v3) \<leftarrow> stream_page E N S V info call_params st s v2;
            (case r of
               Inl st \<Rightarrow> finish E v3 (cs_spool s) (cs_disk s) st
             | Inr cursor \<Rightarrow> call_pages E N S V info pages (jset call_params ''cursor'' cursor) v3 (cs_spool s) (cs_disk s)) }
          else do {
            (r, v3) \<leftarrow> call_answer E N S V info st s v2;
            respond E v3 (cs_spool s) (cs_disk s)
              (case r of Inl st \<Rightarrow> jerror (i_id info) st | Inr result \<Rightarrow> jresult (i_id info) result) } }) }"

subsection \<open>The generic entry point\<close>

text \<open>\<open>api.describe\<close>: the method with its parameters and result; the gateway's own cursor is hidden.\<close>

definition hide_cursor :: "json \<Rightarrow> json option" where
  "hide_cursor params =
     (if \<not> is_object params \<or> \<not> is_object (jat params ''properties'') then None
      else Some (jset (jset params ''properties'' (jerase (jat params ''properties'') ''cursor'')) ''required''
        (case jat params ''required'' of
           JArray xs \<Rightarrow> JArray (filter (\<lambda>x. \<not> json_eq x (JString ''cursor'')) xs)
         | j \<Rightarrow> j)))"

definition describe_method :: "env \<Rightarrow> json \<Rightarrow> json \<Rightarrow> json option" where
  "describe_method E S m = do {
     request \<leftarrow> get_string (jat m ''request'');
     params \<leftarrow> Describe E S request;
     reply \<leftarrow> value_as get_string m ''reply'' [];
     output \<leftarrow> value_as get_string m ''stream_msg'' reply;
     result \<leftarrow> Describe E S output;
     automatic \<leftarrow> value_as get_bool m ''automatic_cursor'' False;
     params \<leftarrow> (if automatic then hide_cursor params else Some params);
     Some (jset (jset m ''params'' params) ''result'' result) }"

definition api_describe :: "env \<Rightarrow> json \<Rightarrow> string \<Rightarrow> json \<Rightarrow> 'x vapi_state \<Rightarrow> spool \<Rightarrow> disk \<Rightarrow> 'x answer" where
  "api_describe E S rid params v sp d =
     (let methods = jat S ''methods''; name = jtext (jat params ''method'') in
      if jsize params \<noteq> 1 \<or> \<not> contains params ''method'' \<or> \<not> is_string (jat params ''method'') then
        respond E v sp d (jerror rid (mk_status ''invalid_params'' ''Expected a method name''))
      else if \<not> contains methods name then
        respond E v sp d (jerror rid (mk_status ''method_not_found'' ''Unknown generated method''))
      else do {
        description \<leftarrow> describe_method E S (jat methods name);
        respond E v sp d (jresult rid description) })"

definition find_binding :: "'x vapi \<Rightarrow> string \<Rightarrow> 'x binding option" where
  "find_binding V name = find (\<lambda>g. g_name g = name) (rev (x_bindings V))"

definition method_item :: "'x vapi \<Rightarrow> bool \<Rightarrow> 'x \<Rightarrow> string \<times> json \<Rightarrow> json" where
  "method_item V connected x kv =
     jset (jset (snd kv) ''method'' (JString (fst kv))) ''available''
       (JBool (connected \<and> (case find_binding V (fst kv) of None \<Rightarrow> False | Some g \<Rightarrow> g_available g x)))"

definition api_methods :: "env \<Rightarrow> json \<Rightarrow> 'x vapi \<Rightarrow> string \<Rightarrow> json \<Rightarrow> 'x vapi_state \<Rightarrow> spool \<Rightarrow> disk \<Rightarrow> 'x answer" where
  "api_methods E S V rid params v sp d =
     (if jsize params \<noteq> 0 then
        respond E v sp d (jerror rid (mk_status ''invalid_params'' ''api.methods takes no parameters''))
      else
        (let (st, v1) = Vapi_Connect V v;
             (sp', d') = offer_items (Spool_Add E) (map (method_item V (st_ok st) (v_lib v1)) (jmembers (jat S ''methods''))) sp d in
         finish E v1 sp' d' Ok))"

text \<open>What the catalog says of the method, and the deadline of the call.\<close>

definition call_setup ::
  "string \<Rightarrow> json \<Rightarrow> 'x binding \<Rightarrow> 'x call_info option" where
  "call_setup rid m g = do {
     input \<leftarrow> get_string (jat m ''request'');
     reply \<leftarrow> get_string (jat m ''reply'');
     output \<leftarrow> value_as get_string m ''stream_msg'' reply;
     cursor \<leftarrow> value_as get_bool m ''automatic_cursor'' False;
     stream \<leftarrow> value_as get_bool m ''stream'' False;
     Some \<lparr>i_id = rid, i_binding = g, i_input = input, i_output = output, i_reply = jat m ''reply'',
           i_explicit = contains m ''stream_msg'', i_stream = stream, i_cursor = cursor, i_deadline = 0\<rparr> }"

definition generated_call ::
  "env \<Rightarrow> inet \<Rightarrow> json \<Rightarrow> 'x vapi \<Rightarrow> 'x call_info \<Rightarrow> json \<Rightarrow> 'x vapi_state \<Rightarrow> spool \<Rightarrow> disk \<Rightarrow> 'x answer" where
  "generated_call E N S V info params v sp d =
     (if i_cursor info \<and> contains params ''cursor'' then
        respond E v sp d (jerror (i_id info) (mk_status ''invalid_params'' ''Pagination is managed by the gateway''))
      else do {
        let call_params = (if i_cursor info then jset params ''cursor'' (JUint UINT32_MAX) else params);
        in_interfaces \<leftarrow> HasInterface S (i_input info);
        interfaces \<leftarrow> (if in_interfaces then Some True else HasInterface S (i_output info));
        (st, v1) \<leftarrow> (if interfaces then RefreshNames V sp d v else Some (Ok, v));
        if \<not> st_ok st then respond E v1 sp d (jerror (i_id info) st)
        else
          (let (now, v2) = lib (x_now V) v1 in
           call_pages E N S V (info\<lparr>i_deadline := now + 30000\<rparr>) 1024 call_params v2 sp d) })"

definition Vapi_Generic ::
  "env \<Rightarrow> inet \<Rightarrow> json \<Rightarrow> 'x vapi \<Rightarrow> json \<Rightarrow> 'x vapi_state \<Rightarrow> spool \<Rightarrow> disk \<Rightarrow> 'x answer" where
  "Vapi_Generic E N S V request v sp d = do {
     rid \<leftarrow> get_string (jat request ''id'');
     method \<leftarrow> get_string (jat request ''method'');
     let params = jvalue request ''params'' (JObject []);
     let methods = jat S ''methods'';
     if method = ''api.describe'' then api_describe E S rid params v sp d
     else if method = ''api.methods'' then api_methods E S V rid params v sp d
     else if \<not> contains methods method then Some (Backend_Generic E request v sp d)
     else do {
       let m = jat methods method;
       supported \<leftarrow> value_as get_bool m ''supported'' False;
       if \<not> supported then do {
         reason \<leftarrow> value_as get_string m ''reason'' ''Unsupported layout'';
         respond E v sp d (jerror rid (mk_status ''unsupported_operation'' reason)) }
       else
         (let (st, v1) = Vapi_Connect V v in
          if \<not> st_ok st then respond E v1 sp d (jerror rid st)
          else case find_binding V method of
                 None \<Rightarrow> respond E v1 sp d (jerror rid
                   (mk_status ''unsupported_operation'' ''VPP message schema is unavailable or incompatible''))
               | Some g \<Rightarrow>
                   if \<not> g_available g (v_lib v1) then
                     respond E v1 sp d (jerror rid
                       (mk_status ''unsupported_operation'' ''VPP message schema is unavailable or incompatible''))
                   else do {
                     info \<leftarrow> call_setup rid m g;
                     generated_call E N S V info params v1 sp d }) } }"

definition vapi_backend :: "env \<Rightarrow> inet \<Rightarrow> json \<Rightarrow> 'x vapi \<Rightarrow> 'x vapi_state backend" where
  "vapi_backend E N S V = \<lparr>b_Generic = Vapi_Generic E N S V, b_List = Vapi_List V, b_SetState = Vapi_SetState V,
     b_Poll = Poll V\<rparr>"

definition MakeVapiBackend :: "'x \<Rightarrow> 'x vapi_state" where
  "MakeVapiBackend x = \<lparr>v_names = [], v_open = False, v_lib = x\<rparr>"

end
