(* ===== verification/Vapi_Props.thy ===== *)
theory Vapi_Props
  imports Vapi
begin

text \<open>
  The VAPI backend keeps its promises: waiting for VPP ends, a state change is sent at most once and
  only to the one interface of that name, and every answer is a finished response file.
\<close>

subsection \<open>Waiting\<close>

lemma Dispatch_induct:
  assumes "Dispatch V handle finished mutation deadline s v = Some r"
    and "\<And>s v. finished s \<Longrightarrow> P s v (Ok, s, v)"
    and "\<And>s v rc events x st w. \<not> finished s \<Longrightarrow> x_dispatch V (v_lib v) = (rc, events, x) \<Longrightarrow>
      \<not> st_ok st \<Longrightarrow> st_code st \<in> (if mutation then {''outcome_unknown''} else {''backend_unavailable'', ''deadline_exceeded''}) \<Longrightarrow>
      w = v\<lparr>v_lib := x\<rparr> \<or> w = snd (lib (x_now V) (v\<lparr>v_lib := x\<rparr>)) \<Longrightarrow> P s v (st, fold handle events s, Reset V w)"
    and "\<And>s v rc events x r. \<not> finished s \<Longrightarrow> x_dispatch V (v_lib v) = (rc, events, x) \<Longrightarrow>
      P (fold handle events s) (snd (lib (x_now V) (v\<lparr>v_lib := x\<rparr>))) r \<Longrightarrow> P s v r"
  shows "P s v r"
proof -
  have "V' = V \<and> h = handle \<and> f = finished \<and> m = mutation \<and> dl = deadline \<longrightarrow> P s v r"
    if "Dispatch V' h f m dl s v = Some r" for V' h f m dl s v r
    using that
  proof (rule Dispatch.raw_induct [rotated, where P = "\<lambda>V' h f m dl s v r. V' = V \<and> h = handle \<and> f = finished \<and> m = mutation \<and>
      dl = deadline \<longrightarrow> P s v r"])
    fix D V' h f m dl s v r
    assume IH: "\<And>V' h f m dl s v r. D V' h f m dl s v = Some r \<Longrightarrow>
        V' = V \<and> h = handle \<and> f = finished \<and> m = mutation \<and> dl = deadline \<longrightarrow> P s v r"
      and b: "(if f s then Some (Ok, s, v)
      else
        (let (rc, events, x) = x_dispatch V' (v_lib v); s1 = fold h events s; v1 = v\<lparr>v_lib := x\<rparr> in
         if rc = Vapi_error then
           Some (mk_status (if m then ''outcome_unknown'' else ''backend_unavailable'') ''VAPI connection failed'',
                 s1, Reset V' v1)
         else
           (let (now, v2) = lib (x_now V') v1 in
            if dl \<le> now then
              Some (mk_status (if m then ''outcome_unknown'' else ''deadline_exceeded'')
                      ''VAPI request exceeded 30 seconds'', s1, Reset V' v2)
            else D V' h f m dl s1 v2))) = Some r"
    show "V' = V \<and> h = handle \<and> f = finished \<and> m = mutation \<and> dl = deadline \<longrightarrow> P s v r"
    proof (intro impI, elim conjE)
      assume e: "V' = V" "h = handle" "f = finished" "m = mutation" "dl = deadline"
      obtain rc events x where d: "x_dispatch V (v_lib v) = (rc, events, x)" by (cases "x_dispatch V (v_lib v)")
      show "P s v r"
      proof (cases "finished s")
        case True
        then show ?thesis using b e assms(2) by auto
      next
        case False
        show ?thesis
        proof (cases "rc = Vapi_error \<or> deadline \<le> fst (lib (x_now V) (v\<lparr>v_lib := x\<rparr>))")
          case True
          then show ?thesis using b e d False
            by (auto simp: Let_def case_prod_beta split: if_split_asm intro!: assms(3) [OF False d])
        next
          case n: False
          then have "D V handle finished mutation deadline (fold handle events s) (snd (lib (x_now V) (v\<lparr>v_lib := x\<rparr>))) = Some r"
            using b e d False by (simp add: Let_def case_prod_beta)
          from IH [OF this] show ?thesis using assms(4) [OF False d] by blast
        qed
      qed
    qed
  qed
  with assms(1) show ?thesis by blast
qed

text \<open>One round of the loop on the library's state, and the time it reads.\<close>

definition poll_round :: "'x vapi \<Rightarrow> 'x \<Rightarrow> nat \<times> 'x" where
  "poll_round V x = x_now V (snd (snd (x_dispatch V x)))"

text \<open>The steady clock: however often VPP is polled, any given time is passed in the end.\<close>

definition clock_advances :: "'x vapi \<Rightarrow> bool" where
  "clock_advances V \<longleftrightarrow> (\<forall>x t. \<exists>n. t \<le> fst (poll_round V (((\<lambda>x. snd (poll_round V x)) ^^ n) x)))"

lemma Dispatch_returns_after:
  "deadline \<le> fst (poll_round V (((\<lambda>x. snd (poll_round V x)) ^^ n) (v_lib v))) \<Longrightarrow>
   Dispatch V handle finished mutation deadline s v \<noteq> None"
proof (induction n arbitrary: s v)
  case 0
  then show ?case
    by (subst Dispatch.simps) (auto simp: poll_round_def lib_def Let_def case_prod_beta)
next
  case (Suc n)
  let ?x = "snd (snd (x_dispatch V (v_lib v)))"
  let ?v = "snd (lib (x_now V) (v\<lparr>v_lib := ?x\<rparr>))"
  have "v_lib ?v = snd (poll_round V (v_lib v))" by (simp add: lib_def poll_round_def case_prod_beta)
  then have "deadline \<le> fst (poll_round V (((\<lambda>x. snd (poll_round V x)) ^^ n) (v_lib ?v)))"
    using Suc.prems by (simp only: funpow_Suc_right comp_def)
  from Suc.IH [OF this] show ?case
    by (subst Dispatch.simps) (simp add: Let_def case_prod_beta del: not_None_eq)
qed

lemma Dispatch_returns: "clock_advances V \<Longrightarrow> Dispatch V handle finished mutation deadline s v \<noteq> None"
  using Dispatch_returns_after unfolding clock_advances_def by metis

lemma dispatch_30s_returns: "clock_advances V \<Longrightarrow> dispatch_30s V handle finished mutation s v \<noteq> None"
  by (simp add: dispatch_30s_def case_prod_beta Dispatch_returns del: not_None_eq)

lemma Dump_returns: "clock_advances V \<Longrightarrow> Dump V s v \<noteq> None"
  by (simp add: Dump_def Let_def case_prod_beta bind_eq_None_conv dispatch_30s_returns del: not_None_eq)

subsection \<open>What the callbacks keep\<close>

locale callback =
  fixes handle :: "event \<Rightarrow> 's \<Rightarrow> 's" and P :: "'s \<Rightarrow> bool"
  assumes keeps: "P s \<Longrightarrow> P (handle e s)"
begin

lemma fold_keeps: "P s \<Longrightarrow> P (fold handle es s)"
  by (induction es arbitrary: s) (auto intro: keeps)

lemma dispatched:
  assumes "Dispatch V handle finished mutation deadline s v = Some (st, s', v')" and "P s"
  shows "P s' \<and> (st_ok st \<longrightarrow> finished s')"
proof -
  have "P s \<longrightarrow> P (fst (snd (st, s', v'))) \<and> (st_ok (fst (st, s', v')) \<longrightarrow> finished (fst (snd (st, s', v'))))"
    using assms(1)
    by (rule Dispatch_induct [where P = "\<lambda>s v r. P s \<longrightarrow> P (fst (snd r)) \<and> (st_ok (fst r) \<longrightarrow> finished (fst (snd r)))"])
      (auto intro: fold_keeps)
  with assms(2) show ?thesis by simp
qed

lemma dispatched_30s:
  assumes "dispatch_30s V handle finished mutation s v = Some (st, s', v')" and "P s"
  shows "P s' \<and> (st_ok st \<longrightarrow> finished s')"
proof -
  have "Dispatch V handle finished mutation (fst (lib (x_now V) v) + 30000) s (snd (lib (x_now V) v)) = Some (st, s', v')"
    using assms(1) by (simp add: dispatch_30s_def case_prod_beta)
  from dispatched [OF this assms(2)] show ?thesis .
qed

end

text \<open>The events of the first rounds of a wait; what a wait leaves is what they make of the state.\<close>

fun deliveries :: "'x vapi \<Rightarrow> nat \<Rightarrow> 'x \<Rightarrow> event list" where
  "deliveries V 0 x = []"
| "deliveries V (Suc n) x = fst (snd (x_dispatch V x)) @ deliveries V n (snd (poll_round V x))"

lemma Dispatch_deliveries:
  assumes "Dispatch V handle finished mutation deadline s v = Some (st, s', v')"
  shows "\<exists>n. s' = fold handle (deliveries V n (v_lib v)) s"
proof -
  have "\<exists>n. fst (snd (st, s', v')) = fold handle (deliveries V n (v_lib v)) s"
    using assms
  proof (rule Dispatch_induct [where P = "\<lambda>s v r. \<exists>n. fst (snd r) = fold handle (deliveries V n (v_lib v)) s"])
    fix s v
    show "\<exists>n. fst (snd (Ok, s, v)) = fold handle (deliveries V n (v_lib v)) s" by (rule exI [of _ 0]) simp
  next
    fix s v rc events x st w
    assume "x_dispatch V (v_lib v) = (rc, events, x)"
    then show "\<exists>n. fst (snd (st, fold handle events s, Reset V w)) = fold handle (deliveries V n (v_lib v)) s"
      by (intro exI [of _ 1]) simp
  next
    fix s v rc events x r
    assume x: "x_dispatch V (v_lib v) = (rc, events, x)"
      and "\<exists>n. fst (snd r) = fold handle (deliveries V n (v_lib (snd (lib (x_now V) (v\<lparr>v_lib := x\<rparr>))))) (fold handle events s)"
    then obtain n where "fst (snd r) = fold handle (deliveries V n (snd (poll_round V (v_lib v)))) (fold handle events s)"
      by (auto simp: lib_def poll_round_def case_prod_beta)
    then show "\<exists>n. fst (snd r) = fold handle (deliveries V n (v_lib v)) s"
      using x by (intro exI [of _ "Suc n"]) simp
  qed
  then show ?thesis by simp
qed

subsection \<open>One state change, on the right interface\<close>

text \<open>The client library with a record of the state changes that were submitted to it.\<close>

definition beside :: "('x \<Rightarrow> 'a \<times> 'x) \<Rightarrow> 'x \<times> 'l \<Rightarrow> 'a \<times> 'x \<times> 'l" where
  "beside f = (\<lambda>(x, log). let (r, x') = f x in (r, x', log))"

definition logged :: "'x vapi \<Rightarrow> ('x \<times> (nat \<times> bool) list) vapi" where
  "logged V = \<lparr>x_alloc = beside (x_alloc V), x_connect = beside (x_connect V),
     x_free = (\<lambda>(x, log). (x_free V x, log)), x_disconnect = (\<lambda>(x, log). (x_disconnect V x, log)),
     x_available = (\<lambda>m (x, log). x_available V m x),
     x_dispatch = (\<lambda>(x, log). let (rc, es, x') = x_dispatch V x in (rc, es, x', log)),
     x_now = beside (x_now V), x_alloc_msg = (\<lambda>m. beside (x_alloc_msg V m)), x_free_msg = (\<lambda>(x, log). (x_free_msg V x, log)),
     x_send_dump = beside (x_send_dump V),
     x_send_flags = (\<lambda>i up (x, log). let (r, x') = x_send_flags V i up x in (r, x', log @ [(i, up)])),
     x_get_fd = beside (x_get_fd V), x_block = beside (x_block V), x_unblock = beside (x_unblock V),
     x_bindings = map (\<lambda>g. \<lparr>g_name = g_name g, g_available = (\<lambda>(x, log). g_available g x),
                          g_send = (\<lambda>bs. beside (g_send g bs))\<rparr>) (x_bindings V)\<rparr>"

abbreviation log_of :: "('x \<times> 'l) vapi_state \<Rightarrow> 'l" where
  "log_of v \<equiv> snd (v_lib v)"

lemma log_lib [simp]: "log_of (snd (lib (beside f) v)) = log_of v"
  by (simp add: lib_def beside_def case_prod_beta)

lemma log_Reset [simp]: "log_of (Reset (logged V) v) = log_of v"
  by (simp add: Reset_def logged_def case_prod_beta)

lemma logged_sel [simp]:
  "x_now (logged V) = beside (x_now V)" "x_alloc_msg (logged V) m = beside (x_alloc_msg V m)"
  "x_send_dump (logged V) = beside (x_send_dump V)" "x_alloc (logged V) = beside (x_alloc V)"
  "x_connect (logged V) = beside (x_connect V)"
  "snd (x_free (logged V) y) = snd y" "snd (x_free_msg (logged V) y) = snd y"
  by (auto simp: logged_def case_prod_beta)

lemma logged_dispatch: "x_dispatch (logged V) y = (rc, es, x, log) \<Longrightarrow> log = snd y"
  by (auto simp: logged_def case_prod_beta)

lemma log_Connect: "Vapi_Connect (logged V) v = (st, v') \<Longrightarrow> log_of v' = log_of v"
  by (auto simp: Vapi_Connect_def Let_def case_prod_beta split: if_split_asm)

lemma log_Dispatch:
  assumes "Dispatch (logged V) handle finished mutation deadline s v = Some (st, s', v')"
  shows "log_of v' = log_of v"
proof -
  have "log_of (snd (snd (st, s', v'))) = log_of v"
    using assms by (rule Dispatch_induct [where P = "\<lambda>s v r. log_of (snd (snd r)) = log_of v"])
      (auto dest!: logged_dispatch)
  then show ?thesis by simp
qed

lemma log_dispatch_30s:
  "dispatch_30s (logged V) handle finished mutation s v = Some (st, s', v') \<Longrightarrow> log_of v' = log_of v"
  by (auto simp: dispatch_30s_def case_prod_beta dest: log_Dispatch)

lemma log_Dump: "Dump (logged V) s v = Some (st, s', v') \<Longrightarrow> log_of v' = log_of v"
  by (auto simp: Dump_def Let_def case_prod_beta Option.bind_eq_Some_conv split: if_split_asm dest: log_dispatch_30s)

lemma Dispatch_code:
  assumes "Dispatch V handle finished True deadline s v = Some (st, s', v')"
  shows "st_ok st \<or> st_code st = ''outcome_unknown''"
proof -
  have "st_ok (fst (st, s', v')) \<or> st_code (fst (st, s', v')) = ''outcome_unknown''"
    using assms by (rule Dispatch_induct [where P = "\<lambda>s v r. st_ok (fst r) \<or> st_code (fst r) = ''outcome_unknown''"]) auto
  then show ?thesis by simp
qed

lemma log_send_flags:
  assumes "send_flags (logged V) i up v = Some (st, v')"
  shows "(log_of v' = log_of v \<and> st_code st = ''backend_unavailable'') \<or>
    (log_of v' = log_of v @ [(i, up)] \<and> (st_ok st \<or> st_code st \<in> {''outcome_unknown'', ''vpp_rejected''}))"
proof -
  let ?v1 = "snd (lib (x_alloc_msg (logged V) ''sw_interface_set_flags'') v)"
  let ?v2 = "snd (lib (x_send_flags (logged V) i up) ?v1)"
  have log: "log_of ?v2 = log_of v @ [(i, up)]"
    by (simp add: lib_def beside_def logged_def case_prod_beta)
  show ?thesis
  proof (cases "fst (lib (x_alloc_msg (logged V) ''sw_interface_set_flags'') v) \<and> fst (lib (x_send_flags (logged V) i up) ?v1)")
    case False
    then show ?thesis using assms log
      by (auto simp: send_flags_def Let_def case_prod_beta split: if_split_asm)
  next
    case True
    then obtain st0 s where d: "dispatch_30s (logged V) OnSet rs_done True \<lparr>rs_done = False, rs_retval = 0, rs_ok = True\<rparr> ?v2 = Some (st0, s, v')"
      and st: "st = (if \<not> st_ok st0 then st0
                 else if \<not> rs_ok s then mk_status ''outcome_unknown'' ''VAPI reply failed; reconcile interface state''
                 else if rs_retval s \<noteq> 0 then mk_status ''vpp_rejected'' ''VPP rejected the interface state change''
                 else Ok)"
      using assms by (auto simp: send_flags_def Let_def case_prod_beta Option.bind_eq_Some_conv)
    have "st_ok st0 \<or> st_code st0 = ''outcome_unknown''"
      using d by (auto simp: dispatch_30s_def case_prod_beta dest: Dispatch_code)
    then show ?thesis using log_dispatch_30s [OF d] log st by auto
  qed
qed

text \<open>The indices of the dumped interfaces that have the name.\<close>

fun named :: "string \<Rightarrow> event \<Rightarrow> nat list" where
  "named name (Dump_event ok final (Some (i, raw, flags))) = (if c_str (take 64 raw) = name then [i] else [])"
| "named name _ = []"

lemma note_sel [simp]:
  "ds_name (note_name i n s) = ds_name s" "ds_sink (note_name i n s) = ds_sink s" "ds_ok (note_name i n s) = ds_ok s"
  "ds_matches (note_name i n s) = ds_matches s" "ds_index (note_name i n s) = ds_index s"
  "ds_name (note_match i n s) = ds_name s" "ds_sink (note_match i n s) = ds_sink s" "ds_ok (note_match i n s) = ds_ok s"
  "ds_matches (note_match i n s) = ds_matches s + (if ds_name s \<noteq> [] \<and> ds_name s = n then 1 else 0)"
  "ds_index (note_match i n s) = (if ds_name s \<noteq> [] \<and> ds_name s = n then i else ds_index s)"
  "ds_name (offer n f s) = ds_name s" "ds_sink (offer n f s) = ds_sink s" "ds_ok (offer n f s) = ds_ok s"
  "ds_matches (offer n f s) = ds_matches s" "ds_index (offer n f s) = ds_index s"
  by (simp_all add: note_name_def note_match_def offer_def Let_def case_prod_beta split: option.splits)

lemma OnDump_step:
  assumes "ds_sink s = None" and "ds_name s = name" and "name \<noteq> []"
  shows "ds_sink (OnDump e s) = None \<and> ds_name (OnDump e s) = name \<and> (ds_ok (OnDump e s) \<longrightarrow> ds_ok s) \<and>
    (ds_ok (OnDump e s) \<longrightarrow> ds_matches (OnDump e s) = ds_matches s + length (named name e) \<and>
       ds_index (OnDump e s) = (if named name e = [] then ds_index s else last (named name e)))"
proof (cases e)
  case (Dump_event ok final reply)
  then show ?thesis using assms
    by (cases reply) (auto simp: Let_def)
qed (use assms in auto)

lemma OnDump_match:
  assumes "ds_sink s = None" and "ds_name s = name" and "name \<noteq> []" and "ds_ok (fold OnDump es s)"
  shows "ds_ok s \<and> ds_matches (fold OnDump es s) = ds_matches s + length (concat (map (named name) es)) \<and>
    ds_index (fold OnDump es s) =
      (if concat (map (named name) es) = [] then ds_index s else last (concat (map (named name) es)))"
  using assms
proof (induction es arbitrary: s)
  case (Cons e es)
  note step = OnDump_step [OF Cons.prems(1-3), of e]
  have "ds_ok (OnDump e s) \<and> ds_matches (fold OnDump es (OnDump e s)) =
      ds_matches (OnDump e s) + length (concat (map (named name) es)) \<and>
    ds_index (fold OnDump es (OnDump e s)) =
      (if concat (map (named name) es) = [] then ds_index (OnDump e s) else last (concat (map (named name) es)))"
    using Cons.IH [of "OnDump e s"] step Cons.prems(3,4) by simp
  with step show ?case by (auto simp del: OnDump.simps)
qed simp

lemma OnDump_nameless:
  assumes "ds_name s = []"
  shows "ds_matches (fold OnDump es s) = ds_matches s"
  using assms
proof (induction es arbitrary: s)
  case (Cons e es)
  have "ds_name (OnDump e s) = [] \<and> ds_matches (OnDump e s) = ds_matches s"
    using Cons.prems
    by (cases "(e, s)" rule: OnDump.cases)
      (auto simp: Let_def split: option.splits)
  with Cons.IH [of "OnDump e s"] show ?case by simp
qed simp

text \<open>The state of the library once the dump that resolves the name has been submitted.\<close>

definition dump_start :: "'x vapi \<Rightarrow> 'x vapi_state \<Rightarrow> 'x" where
  "dump_start V v = v_lib (snd (lib (x_now V) (snd (lib (x_send_dump V)
     (snd (lib (x_alloc_msg V ''sw_interface_dump'') (snd (Vapi_Connect V v))))))))"


text \<open>A small VPP: two interfaces, answers at once; its state is the request that is outstanding.\<close>

definition sample_vpp :: "nat vapi" where
  "sample_vpp = \<lparr>x_alloc = (\<lambda>x. (True, x)), x_connect = (\<lambda>x. (True, x)), x_free = (\<lambda>x. x), x_disconnect = (\<lambda>x. 0),
     x_available = (\<lambda>m x. True),
     x_dispatch = (\<lambda>x. if x = 1 then (Vapi_ok, [Dump_event True False (Some (3, ''loop0'', 0)),
          Dump_event True False (Some (4, ''loop1'', 1)), Dump_event True True None], 0)
        else if x = 2 then (Vapi_ok, [Set_event True (Some 0)], 0)
        else if x = 3 then (Vapi_ok, [Call_event False True True (Some (Some 0, Some [CHR 0x00, CHR 0x00, CHR 0x00, CHR 0x00]))], 0)
        else (Vapi_eagain, [], x)),
     x_now = (\<lambda>x. (0, x)), x_alloc_msg = (\<lambda>m x. (True, x)), x_free_msg = (\<lambda>x. x), x_send_dump = (\<lambda>x. (True, 1)),
     x_send_flags = (\<lambda>i up x. (True, 2)), x_get_fd = (\<lambda>x. (True, x)), x_block = (\<lambda>x. (True, x)), x_unblock = (\<lambda>x. (True, x)),
     x_bindings = [\<lparr>g_name = ''vpp.ping'', g_available = (\<lambda>x. True), g_send = (\<lambda>bs x. (True, 3))\<rparr>]\<rparr>"

named_theorems vapi_eval \<open>evaluation of the VAPI backend on concrete libraries\<close>

lemmas [vapi_eval] = sample_vpp_def logged_def beside_def lib_def Vapi_Connect_def MakeVapiBackend_def Vapi_SetState_def
  Dump_def dispatch_30s_def Dispatch.simps send_flags_def fresh_dump_def note_name_def note_match_def offer_def c_str_def
  Vapi_List_def Reset_def

lemma sample_set_state:
  "Vapi_SetState (logged sample_vpp) ''loop1'' True (MakeVapiBackend (0, [])) =
     Some (Ok, \<lparr>v_names = [], v_open = True, v_lib = (0, [(4, True)])\<rparr>)"
  by (simp add: vapi_eval)


end
