(* ===== verification/Vapi_Responds.thy ===== *)
theory Vapi_Responds
  imports Vapi_Props Schema_Stream
begin

text \<open>
  The VAPI backend meets the contract of \<open>RunBackend\<close>: the callbacks write nothing but items of the
  stream, and every answer ends in a finished response file.
\<close>

lemma add_all_append:
  "add_all E sp d (xs @ ys) = (let (sp1, d1) = add_all E sp d xs in add_all E sp1 d1 ys)"
  by (induction xs arbitrary: sp d) (auto simp: Let_def case_prod_beta)

definition offered :: "env \<Rightarrow> spool \<Rightarrow> disk \<Rightarrow> spool \<times> disk \<Rightarrow> bool" where
  "offered E sp d r \<longleftrightarrow> (\<exists>items. add_all E sp d items = r)"

lemma offered_refl [simp]: "offered E sp d (sp, d)"
  unfolding offered_def by (rule exI [of _ "[]"]) simp

lemma offered_Add:
  assumes "offered E sp d (sp1, d1)" and "Spool_Add E sp1 d1 x = (r, sp2, d2)"
  shows "offered E sp d (sp2, d2)"
proof -
  obtain items where "add_all E sp d items = (sp1, d1)" using assms(1) by (auto simp: offered_def)
  then have "add_all E sp d (items @ [x]) = (sp2, d2)" using assms(2) by (simp add: add_all_append)
  then show ?thesis by (auto simp: offered_def)
qed

lemma offered_trans: "offered E sp d (sp1, d1) \<Longrightarrow> offered E sp1 d1 r \<Longrightarrow> offered E sp d r"
  by (auto simp: offered_def) (metis (mono_tags, lifting) add_all_append case_prod_conv)

subsection \<open>The callbacks\<close>

definition dump_offered :: "env \<Rightarrow> spool \<Rightarrow> disk \<Rightarrow> dump_state \<Rightarrow> bool" where
  "dump_offered E sp d s \<longleftrightarrow> ds_sink s = Some (Spool_Add E) \<and> offered E sp d (ds_spool s, ds_disk s)"

lemma note_spool [simp]:
  "ds_spool (note_name i n s) = ds_spool s" "ds_disk (note_name i n s) = ds_disk s"
  "ds_spool (note_match i n s) = ds_spool s" "ds_disk (note_match i n s) = ds_disk s"
  by (simp_all add: note_name_def note_match_def)

lemma offer_offered: "dump_offered E sp d s \<Longrightarrow> dump_offered E sp d (offer n f s)"
  by (cases "Spool_Add E (ds_spool s) (ds_disk s) (interface_item n f)")
    (auto simp: dump_offered_def offer_def dest: offered_Add)

interpretation dumping: callback OnDump "dump_offered E sp d" for E sp d
proof
  fix s e
  assume s: "dump_offered E sp d s"
  show "dump_offered E sp d (OnDump e s)"
  proof (cases e)
    case (Dump_event ok final reply)
    have upd: "dump_offered E sp d (t\<lparr>ds_done := x\<rparr>) = dump_offered E sp d t"
      "dump_offered E sp d (t\<lparr>ds_ok := x\<rparr>) = dump_offered E sp d t"
      "dump_offered E sp d (note_match i n (note_name i n t)) = dump_offered E sp d t" for t x i n
      by (simp_all add: dump_offered_def)
    show ?thesis using s Dump_event
      by (cases reply) (auto simp: Let_def upd intro: offer_offered)
  qed (use s in auto)
qed

definition call_offered :: "env \<Rightarrow> bool \<Rightarrow> spool \<Rightarrow> disk \<Rightarrow> call_state \<Rightarrow> bool" where
  "call_offered E items sp d s \<longleftrightarrow>
     (if items then offered E sp d (cs_spool s, cs_disk s) else cs_spool s = sp \<and> cs_disk s = d)"

lemma call_item_offered: "call_offered E True sp d s \<Longrightarrow> call_offered E True sp d (call_item E decode payload s)"
  by (cases "Spool_Add E (cs_spool s) (cs_disk s) (snd (the (decode payload)))")
    (auto simp: call_offered_def call_item_def split: option.splits dest: offered_Add)

interpretation calling: callback "OnCall E decode stream explicit" "call_offered E (stream \<or> explicit) sp d"
  for E decode stream explicit sp d
proof
  fix s e
  assume s: "call_offered E (stream \<or> explicit) sp d s"
  have upd: "call_offered E b sp d (t\<lparr>cs_done := x\<rparr>) = call_offered E b sp d t"
    "call_offered E b sp d (t\<lparr>cs_ok := x\<rparr>) = call_offered E b sp d t"
    "call_offered E b sp d (t\<lparr>cs_status := st\<rparr>) = call_offered E b sp d t"
    "call_offered E b sp d (t\<lparr>cs_retval := k\<rparr>) = call_offered E b sp d t"
    "call_offered E b sp d (t\<lparr>cs_reply := bs\<rparr>) = call_offered E b sp d t" for t b x st k bs
    by (simp_all add: call_offered_def)
  show "call_offered E (stream \<or> explicit) sp d (OnCall E decode stream explicit e s)"
  proof (cases e)
    case (Call_event details ok final reply)
    show ?thesis
    proof (cases "stream \<or> explicit")
      case True
      then show ?thesis using s Call_event
        by (cases reply) (auto simp: Let_def upd split: option.splits intro!: call_item_offered)
    next
      case False
      then show ?thesis using s Call_event
        by (cases reply) (auto simp: Let_def upd split: option.splits)
    qed
  qed (use s in auto)
qed

lemma Dump_offered:
  assumes "Dump V s v = Some (st, s', v')" and "dump_offered E sp d s"
  shows "dump_offered E sp d s'"
  using assms
  by (auto simp: Dump_def Let_def case_prod_beta Option.bind_eq_Some_conv split: if_split_asm
      dest: dumping.dispatched_30s [OF _ assms(2)])

lemma Vapi_List_offered:
  assumes "Vapi_List V (Spool_Add E) v sp d = Some (st, v', sp', d')"
  shows "offered E sp d (sp', d')"
proof -
  have init: "dump_offered E sp d ((fresh_dump sp d)\<lparr>ds_sink := Some (Spool_Add E)\<rparr>)"
    by (simp add: dump_offered_def fresh_dump_def)
  show ?thesis
    using assms
    by (auto simp: Vapi_List_def Let_def case_prod_beta Option.bind_eq_Some_conv split: if_split_asm
        dest!: Dump_offered [OF _ init]) (auto simp: dump_offered_def)
qed

subsection \<open>Answers of a call\<close>

text \<open>How a response ends: with the terminal frame of the stream, or with a single answer.\<close>

definition concluded :: "env \<Rightarrow> spool \<Rightarrow> disk \<Rightarrow> status \<Rightarrow> spool \<times> disk \<Rightarrow> bool" where
  "concluded E sp d r res \<longleftrightarrow> (\<exists>items sp1 d1. add_all E sp d items = (sp1, d1) \<and>
     ((\<exists>st. Spool_Finish E sp1 d1 st = (r, res)) \<or>
      (\<exists>j. is_object j \<and> Spool_Single E sp1 d1 j = (r, res) \<and> (items = [] \<or> st_ok (sp_status sp1)))))"

lemma concluded_finish:
  assumes "offered E sp d (sp1, d1)" and "finish E v sp1 d1 st = Some (r, v', sp', d')"
  shows "concluded E sp d r (sp', d')"
  using assms by (auto simp: offered_def finish_def concluded_def case_prod_beta prod_eq_iff)

lemma concluded_respond:
  assumes "respond E v sp1 d1 j = Some (r, v', sp', d')" and "is_object j"
    and "sp1 = sp \<and> d1 = d \<or> offered E sp d (sp1, d1) \<and> st_ok (sp_status sp1)"
  shows "concluded E sp d r (sp', d')"
proof -
  have s: "Spool_Single E sp1 d1 j = (r, sp', d')" using assms(1) by (auto simp: respond_def split: prod.split_asm)
  from assms(3) show ?thesis
  proof
    assume "sp1 = sp \<and> d1 = d"
    then show ?thesis using s assms(2) unfolding concluded_def by (intro exI [of _ "[]"]) auto
  next
    assume "offered E sp d (sp1, d1) \<and> st_ok (sp_status sp1)"
    then show ?thesis using s assms(2) unfolding concluded_def offered_def by blast
  qed
qed

lemma concluded_trans:
  assumes "offered E sp d (sp1, d1)" and "st_ok (sp_status sp1)" and "concluded E sp1 d1 r res"
  shows "concluded E sp d r res"
proof -
  obtain xs where xs: "add_all E sp d xs = (sp1, d1)" using assms(1) by (auto simp: offered_def)
  obtain items sp2 d2 where i: "add_all E sp1 d1 items = (sp2, d2)"
    "(\<exists>st. Spool_Finish E sp2 d2 st = (r, res)) \<or>
      (\<exists>j. is_object j \<and> Spool_Single E sp2 d2 j = (r, res) \<and> (items = [] \<or> st_ok (sp_status sp2)))"
    using assms(3) unfolding concluded_def by blast
  have "add_all E sp d (xs @ items) = (sp2, d2)" using xs i(1) by (simp add: add_all_append)
  moreover have "items = [] \<Longrightarrow> st_ok (sp_status sp2)" using i(1) assms(2) by simp
  ultimately show ?thesis using i(2) unfolding concluded_def by blast
qed

lemma stream_page_continues:
  "stream_page E N S V info cp st s v = Some (Inr cursor, v') \<Longrightarrow> st_ok (sp_status (cs_spool s))"
  by (auto simp: stream_page_def split: if_split_asm)

lemma await_offered:
  assumes "await_reply E N S V info v sp d = Some (st, s, v')"
  shows "call_offered E (i_stream info \<or> i_explicit info) sp d s"
proof -
  have init: "call_offered E (i_stream info \<or> i_explicit info) sp d (fresh_call sp d)"
    by (simp add: call_offered_def fresh_call_def)
  show ?thesis using assms
    by (auto simp: await_reply_def Let_def Option.bind_eq_Some_conv split: if_split_asm dest: calling.dispatched [OF _ init])
qed

lemma call_pages_concluded:
  assumes "i_explicit info \<longrightarrow> i_stream info" and "call_pages E N S V info n cp v sp d = Some (r, v', sp', d')"
  shows "concluded E sp d r (sp', d')"
  using assms(2)
proof (induction n arbitrary: cp v sp d)
  case 0
  then show ?case using concluded_finish [OF offered_refl] by simp
next
  case (Suc n)
  obtain st bs where enc: "Encode E N S (i_input info) cp (symbols_of (v_names v)) = Some (st, bs)"
    using Suc.prems by (auto simp: Option.bind_eq_Some_conv)
  obtain st1 v1 where snd: "send_call V info bs v = (st1, v1)" by force
  show ?case
  proof (cases "st_ok st \<and> st_ok st1")
    case False
    then show ?thesis using Suc.prems enc snd
      by (auto split: if_split_asm intro: concluded_respond)
  next
    case True
    then obtain st2 s v2 where a: "await_reply E N S V info v1 sp d = Some (st2, s, v2)"
      using Suc.prems enc snd by (auto simp: Option.bind_eq_Some_conv)
    have off: "call_offered E (i_stream info \<or> i_explicit info) sp d s" using a by (rule await_offered)
    show ?thesis
    proof (cases "i_stream info")
      case stream: True
      obtain p v3 where p: "stream_page E N S V info cp st2 s v2 = Some (p, v3)"
        using Suc.prems enc snd True a stream by (auto simp: Option.bind_eq_Some_conv)
      have o: "offered E sp d (cs_spool s, cs_disk s)" using off stream by (simp add: call_offered_def)
      show ?thesis
      proof (cases p)
        case (Inl st3)
        then show ?thesis using Suc.prems enc snd True a stream p o by (auto intro: concluded_finish)
      next
        case (Inr cursor)
        then have "concluded E (cs_spool s) (cs_disk s) r (sp', d')"
          using Suc.prems enc snd True a stream p by (auto intro: Suc.IH)
        then show ?thesis using concluded_trans [OF o] stream_page_continues p Inr by blast
      qed
    next
      case single: False
      then have o: "cs_spool s = sp" "cs_disk s = d" using off assms(1) by (auto simp: call_offered_def)
      obtain p v3 where "call_answer E N S V info st2 s v2 = Some (p, v3)"
        using Suc.prems enc snd True a single by (auto simp: Option.bind_eq_Some_conv)
      then show ?thesis using Suc.prems enc snd True a single o
        by (auto intro!: concluded_respond split: sum.splits)
    qed
  qed
qed

text \<open>The catalog marks every explicit stream as a stream.\<close>

definition streams_marked :: "json \<Rightarrow> bool" where
  "streams_marked S \<longleftrightarrow>
     list_all (\<lambda>kv. contains (snd kv) ''stream_msg'' \<longrightarrow> jat (snd kv) ''stream'' = JBool True) (jmembers (jat S ''methods''))"

lemma call_setup_streams:
  assumes "streams_marked S" and "contains (jat S ''methods'') method" and "call_setup rid (jat (jat S ''methods'') method) g = Some info"
  shows "i_explicit info \<longrightarrow> i_stream info"
proof -
  have "(method, jat (jat S ''methods'') method) \<in> set (jmembers (jat S ''methods''))"
    using assms(2) by (auto simp: contains_def jat_def [of "jat S ''methods''"] dest: map_of_SomeD)
  then have "contains (jat (jat S ''methods'') method) ''stream_msg'' \<longrightarrow> jat (jat (jat S ''methods'') method) ''stream'' = JBool True"
    using assms(1) by (auto simp: streams_marked_def list_all_iff)
  then show ?thesis using assms(3)
    by (auto simp: call_setup_def Option.bind_eq_Some_conv value_as_def jat_def [of _ "''stream''"] split: if_split_asm option.splits)
qed

lemma generated_call_concluded:
  assumes "i_explicit info \<longrightarrow> i_stream info" and "generated_call E N S V info params v sp d = Some (r, v', sp', d')"
  shows "concluded E sp d r (sp', d')"
  using assms(2) assms(1)
  by (auto simp: generated_call_def Let_def case_prod_beta Option.bind_eq_Some_conv simp del: call_pages.simps
      split: if_split_asm intro: concluded_respond elim!: call_pages_concluded [rotated])

lemma api_describe_concluded:
  "api_describe E S rid params v sp d = Some (r, v', sp', d') \<Longrightarrow> concluded E sp d r (sp', d')"
  by (auto simp: api_describe_def Let_def Option.bind_eq_Some_conv split: if_split_asm intro: concluded_respond)

lemma api_methods_concluded:
  assumes "api_methods E S V rid params v sp d = Some (r, v', sp', d')"
  shows "concluded E sp d r (sp', d')"
proof (cases "jsize params = 0")
  case False
  then show ?thesis using assms by (auto simp: api_methods_def intro: concluded_respond)
next
  case True
  let ?xs = "map (method_item V (st_ok (fst (Vapi_Connect V v))) (v_lib (snd (Vapi_Connect V v)))) (jmembers (jat S ''methods''))"
  obtain sp1 d1 where o: "offer_items (Spool_Add E) ?xs sp d = (sp1, d1)" by force
  have "offered E sp d (sp1, d1)" using offer_items_add_all [OF o] unfolding offered_def by blast
  moreover have "finish E (snd (Vapi_Connect V v)) sp1 d1 Ok = Some (r, v', sp', d')"
    using assms True o by (simp add: api_methods_def case_prod_beta)
  ultimately show ?thesis by (rule concluded_finish)
qed

lemma Backend_Generic_concluded:
  assumes "Backend_Generic E request (v :: 'x vapi_state) sp d = (r, v', sp', d')"
  shows "concluded E sp d r (sp', d')"
proof -
  let ?j = "jerror (jtext (jat request ''id'')) (mk_status ''method_not_found'' ''Method is not supported'')"
  have "respond E v sp d ?j = Some (r, v', sp', d')"
    using assms by (auto simp: Backend_Generic_def respond_def split: prod.split_asm)
  then show ?thesis by (rule concluded_respond) simp_all
qed

lemma Vapi_Generic_concluded:
  assumes "streams_marked S" and "Vapi_Generic E N S V request v sp d = Some (r, v', sp', d')"
  shows "concluded E sp d r (sp', d')"
proof -
  let ?methods = "jat S ''methods''" and ?m = "jtext (jat request ''method'')"
  let ?info = "\<lambda>g. call_setup (jtext (jat request ''id'')) (jat ?methods ?m) g"
  consider rid ps where "api_describe E S rid ps v sp d = Some (r, v', sp', d')"
    | rid ps where "api_methods E S V rid ps v sp d = Some (r, v', sp', d')"
    | "Backend_Generic E request v sp d = (r, v', sp', d')"
    | v1 j where "respond E v1 sp d j = Some (r, v', sp', d')" "is_object j"
    | v1 g info ps where "contains ?methods ?m" "?info g = Some info"
        "generated_call E N S V info ps v1 sp d = Some (r, v', sp', d')"
    using assms(2)
    by (auto simp: Vapi_Generic_def get_string_jtext Let_def case_prod_beta Option.bind_eq_Some_conv
        split: if_split_asm option.split_asm)
  then show ?thesis
  proof cases
    case 1
    then show ?thesis by (rule api_describe_concluded)
  next
    case 2
    then show ?thesis by (rule api_methods_concluded)
  next
    case 3
    then show ?thesis by (rule Backend_Generic_concluded)
  next
    case 4
    then show ?thesis by (auto intro: concluded_respond)
  next
    case 5
    then show ?thesis using generated_call_concluded call_setup_streams [OF assms(1)] by blast
  qed
qed

subsection \<open>The contract\<close>

lemma concluded_only:
  assumes "concluded E sp d r (sp', d')"
  shows "only_file (sp_path sp) d d'"
proof -
  obtain items sp1 d1 where i: "add_all E sp d items = (sp1, d1)"
    "(\<exists>st. Spool_Finish E sp1 d1 st = (r, sp', d')) \<or> (\<exists>j. Spool_Single E sp1 d1 j = (r, sp', d'))"
    using assms unfolding concluded_def by blast
  then show ?thesis
    using only_file_add_all [OF i(1)] by (auto dest!: only_file_Finish only_file_Single intro: only_file_trans)
qed

lemma concluded_responded:
  assumes "concluded E sp d r (sp', d')" and "fresh_spool E sp d" and "sp_items sp = 0" and "st_ok r"
  shows "responded E d' (sp_path sp)"
proof -
  obtain items sp1 d1 where i: "add_all E sp d items = (sp1, d1)"
    "(\<exists>st. Spool_Finish E sp1 d1 st = (r, sp', d')) \<or>
      (\<exists>j. is_object j \<and> Spool_Single E sp1 d1 j = (r, sp', d') \<and> (items = [] \<or> st_ok (sp_status sp1)))"
    using assms(1) unfolding concluded_def by blast
  have inv: "stream_inv E sp1 d1 (stream_frames E (sp_id sp) [] items) (length items)"
    using stream_inv_add_all [OF i(1) fresh_stream_inv [OF assms(2,3)]] by simp
  have path: "sp_path sp1 = sp_path sp" using only_file_add_all [OF i(1)] by simp
  from i(2) show ?thesis
  proof (elim disjE exE conjE)
    fix st
    assume "Spool_Finish E sp1 d1 st = (r, sp', d')"
    from Spool_Finish_Ok [OF this assms(4) inv]
    obtain gs g where "spool_holds E sp' d' (gs @ [g])" "sp_path sp' = sp_path sp1" by metis
    then show ?thesis using responded_holds path by fastforce
  next
    fix j
    assume j: "is_object j" "Spool_Single E sp1 d1 j = (r, sp', d')" and "items = []"
    then have "sp1 = sp" "d1 = d" using i(1) by auto
    then show ?thesis using Spool_Single_responded [OF j(2) assms(4)] assms(2) j(1) by simp
  next
    fix j
    assume j: "is_object j" "Spool_Single E sp1 d1 j = (r, sp', d')" and "st_ok (sp_status sp1)"
    then show ?thesis using Spool_Single_ready [OF j(2) assms(4) ready_stream [OF inv] j(1)] path by simp
  qed
qed

interpretation vapi: backend_contract E "vapi_backend E N S V" "streams_marked S" for E N S V
proof
  fix v sp d st v' sp' d'
  assume "b_List (vapi_backend E N S V) (Spool_Add E) v sp d = Some (st, v', sp', d')"
  then have "offered E sp d (sp', d')" by (auto simp: vapi_backend_def intro: Vapi_List_offered)
  then show "\<exists>items. (sp', d') = add_all E sp d items" unfolding offered_def by metis
next
  fix request v sp d r v' sp' d'
  assume "b_Generic (vapi_backend E N S V) request v sp d = Some (r, v', sp', d')" and "streams_marked S"
  then have c: "concluded E sp d r (sp', d')" by (auto simp: vapi_backend_def intro: Vapi_Generic_concluded)
  show "only_file (sp_path sp) d d'" using c by (rule concluded_only)
  assume "fresh_spool E sp d" "sp_items sp = 0" "st_ok r"
  with c show "responded E d' (sp_path sp)" by (rule concluded_responded)
qed

lemma Spool_new_items: "Spool_new d p rid limit = (sp, d') \<Longrightarrow> sp_items sp = 0"
  by (auto simp: Spool_new_def Let_def split: prod.split_asm if_split_asm)


text \<open>A catalog with one message without fields, and a library that keeps the time of its own calls.\<close>

definition ping_catalog :: json where
  "ping_catalog = JObject [(''methods'', JObject [(''vpp.ping'', JObject [(''reply'', JString ''ping_reply''),
      (''request'', JString ''ping''), (''supported'', JBool True)])]),
    (''types'', JObject [(''ping'', JObject [(''fields'', JArray []), (''kind'', JString ''struct'')]),
      (''ping_reply'', JObject [(''fields'', JArray [JObject [(''name'', JString ''retval''), (''type'', JString ''i32'')]]),
         (''kind'', JString ''struct'')])])]"

definition timed :: "'x vapi \<Rightarrow> ('x \<times> nat) vapi" where
  "timed V = \<lparr>x_alloc = beside (x_alloc V), x_connect = beside (x_connect V),
     x_free = (\<lambda>(x, t). (x_free V x, t)), x_disconnect = (\<lambda>(x, t). (x_disconnect V x, t)),
     x_available = (\<lambda>m (x, t). x_available V m x),
     x_dispatch = (\<lambda>(x, t). let (rc, es, x') = x_dispatch V x in (rc, es, x', t)),
     x_now = (\<lambda>(x, t). (t, x, Suc t)), x_alloc_msg = (\<lambda>m. beside (x_alloc_msg V m)), x_free_msg = (\<lambda>(x, t). (x_free_msg V x, t)),
     x_send_dump = beside (x_send_dump V), x_send_flags = (\<lambda>i up. beside (x_send_flags V i up)),
     x_get_fd = beside (x_get_fd V), x_block = beside (x_block V), x_unblock = beside (x_unblock V),
     x_bindings = map (\<lambda>g. \<lparr>g_name = g_name g, g_available = (\<lambda>(x, t). g_available g x),
                          g_send = (\<lambda>bs. beside (g_send g bs))\<rparr>) (x_bindings V)\<rparr>"

lemma clock_timed: "clock_advances (timed V)"
  unfolding clock_advances_def
proof (intro allI)
  fix y :: "'a \<times> nat" and t
  have r: "fst (poll_round (timed V) z) = snd z \<and> snd (snd (poll_round (timed V) z)) = Suc (snd z)" for z
    by (simp add: poll_round_def timed_def case_prod_beta)
  have "snd (((\<lambda>x. snd (poll_round (timed V) x)) ^^ n) y) = snd y + n" for n
    by (induction n) (simp_all add: r)
  then show "\<exists>n. t \<le> fst (poll_round (timed V) (((\<lambda>x. snd (poll_round (timed V) x)) ^^ n) y))"
    by (intro exI [of _ t]) (simp add: r)
qed

lemma ping_streams: "streams_marked ping_catalog"
  by (simp add: streams_marked_def ping_catalog_def jat_def contains_def)


subsection \<open>Waiting ends\<close>

text \<open>
  The gateway never hangs on VPP: as long as the steady clock advances, the operations on
  interfaces return an answer on every library behaviour, also when VPP stays silent or never sends
  the last reply of a dump.
\<close>

theorem vapi_interface_calls_return:
  assumes "clock_advances V"
  shows "RunBackend E (vapi_backend E N S V) v (list_request rid) sp d \<noteq> None \<and>
    RunBackend E (vapi_backend E N S V) v (set_request rid name up) sp d \<noteq> None"
proof -
  have "Vapi_List V sink v sp d \<noteq> None" for sink
    by (simp add: Vapi_List_def Let_def case_prod_beta bind_eq_None_conv Dump_returns [OF assms] del: not_None_eq)
  moreover have "send_flags V i up v \<noteq> None" for i up v
    by (simp add: send_flags_def Let_def case_prod_beta bind_eq_None_conv dispatch_30s_returns [OF assms] del: not_None_eq)
  then have "Vapi_SetState V name up v \<noteq> None" for up
    by (simp add: Vapi_SetState_def Let_def case_prod_beta bind_eq_None_conv Dump_returns [OF assms] del: not_None_eq)
  ultimately show ?thesis
    by (simp add: RunBackend_def vapi_backend_def Let_def case_prod_beta bind_eq_None_conv del: not_None_eq)
qed

text \<open>A VPP that never answers.\<close>

theorem vapi_interface_calls_return_witness:
  "RunBackend sample_env (vapi_backend sample_env sample_inet ping_catalog (timed (sample_vpp\<lparr>x_dispatch := (\<lambda>x. (Vapi_eagain, [], x))\<rparr>)))
     (MakeVapiBackend (0, 0)) (list_request ''r'') no_spool clean_disk \<noteq> None"
  using vapi_interface_calls_return [OF clock_timed] by blast

end
