(* ===== verification/Schema_Total.thy ===== *)
theory Schema_Total
  imports Schema_Size
begin

text \<open>
  The codec never throws on a catalog of the generator's shape (\<open>codec_catalog\<close>), whatever the client
  sends or VPP answers: a value that does not fit the type and a reply that is cut short or malformed
  are reported as a status. The JSON library's exceptions are the \<open>None\<close> of the model.
\<close>

subsection \<open>Functions that return\<close>

definition returns :: "'a option \<Rightarrow> bool" where
  "returns m \<longleftrightarrow> m \<noteq> None"

named_theorems return_rules \<open>rules to show that a function returns\<close>

lemma returns_Some [simp, return_rules]: "returns (Some x)"
  by (simp add: returns_def)

lemma returns_map [simp]: "returns (map_option f m) = returns m"
  by (simp add: returns_def)

lemma returnsE: "returns m \<Longrightarrow> (\<And>x. m = Some x \<Longrightarrow> P) \<Longrightarrow> P"
  by (auto simp: returns_def)

lemma returns_triple: "returns m \<Longrightarrow> (\<And>a b c. m = Some (a, b, c) \<Longrightarrow> P) \<Longrightarrow> P"
  by (cases m) (auto simp: returns_def)

lemma returns_rules [return_rules]:
  "returns m \<Longrightarrow> (\<And>x. m = Some x \<Longrightarrow> returns (f x)) \<Longrightarrow> returns (m \<bind> f)"
  "(c \<Longrightarrow> returns m) \<Longrightarrow> (\<not> c \<Longrightarrow> returns n) \<Longrightarrow> returns (if c then m else n)"
  "(\<And>a b. p = (a, b) \<Longrightarrow> returns (g a b)) \<Longrightarrow> returns (case p of (a, b) \<Rightarrow> g a b)"
  "(z = None \<Longrightarrow> returns m) \<Longrightarrow> (\<And>y. z = Some y \<Longrightarrow> returns (h y)) \<Longrightarrow> returns (case z of None \<Rightarrow> m | Some y \<Rightarrow> h y)"
  "returns (f x) \<Longrightarrow> returns (Let x f)"
  by (auto simp: returns_def split: prod.splits option.splits)

subsection \<open>The shape of a catalog\<close>

definition good_field :: "json \<Rightarrow> bool" where
  "good_field f \<longleftrightarrow> sane_field f \<and> is_string (jat f ''name'') \<and> is_string (jat f ''type'') \<and>
     (contains f ''count'' \<longrightarrow> is_string (jat f ''count'')) \<and>
     (contains f ''discriminator'' \<longrightarrow> is_string (jat f ''discriminator''))"

definition integers :: "json \<Rightarrow> bool" where
  "integers values \<longleftrightarrow> list_all (\<lambda>kv. is_number_integer (snd kv)) (jmembers values)"

definition good_enum :: "json \<Rightarrow> bool" where
  "good_enum T \<longleftrightarrow> (contains T ''flags'' \<longrightarrow> is_boolean (jat T ''flags'')) \<and>
     integers (jat T ''values'')"

definition good_type :: "json \<Rightarrow> bool" where
  "good_type T \<longleftrightarrow> is_object T \<and> is_string (jat T ''kind'') \<and> list_all good_field (jiter (jat T ''fields'')) \<and>
     (jat T ''kind'' \<in> {JString ''alias'', JString ''enum''} \<longrightarrow> is_string (jat T ''type'')) \<and>
     (jat T ''kind'' = JString ''enum'' \<longrightarrow> good_enum T)"

definition plain_field :: "json \<Rightarrow> string \<Rightarrow> string \<Rightarrow> bool" where
  "plain_field f name t \<longleftrightarrow> jat f ''name'' = JString name \<and> jat f ''type'' = JString t \<and>
     \<not> contains f ''length'' \<and> \<not> contains f ''count''"

text \<open>VPP's own types for addresses and prefixes, which the codec reads and writes as text.\<close>

definition layout_is :: "json \<Rightarrow> string \<Rightarrow> string \<Rightarrow> (json list \<Rightarrow> bool) \<Rightarrow> bool" where
  "layout_is S name kind P \<longleftrightarrow>
     (case Type S name of None \<Rightarrow> True | Some T \<Rightarrow> jat T ''kind'' = JString kind \<and> P (jiter (jat T ''fields'')))"

definition prefix_layout :: "string \<Rightarrow> json list \<Rightarrow> bool" where
  "prefix_layout t fs \<longleftrightarrow>
     (case fs of [a, n] \<Rightarrow> plain_field a ''address'' t \<and> plain_field n ''len'' ''u8'' | _ \<Rightarrow> False)"

definition textual_layouts :: "json \<Rightarrow> bool" where
  "textual_layouts S \<longleftrightarrow>
     layout_is S ''vl_api_address_t'' ''struct''
       (\<lambda>fs. case fs of [a, u] \<Rightarrow> plain_field a ''af'' ''vl_api_address_family_t'' \<and> plain_field u ''un'' ''vl_api_address_union_t''
                 | _ \<Rightarrow> False) \<and>
     layout_is S ''vl_api_address_union_t'' ''union''
       (list_all (\<lambda>f. jat f ''type'' \<in> {JString ''vl_api_ip4_address_t'', JString ''vl_api_ip6_address_t''})) \<and>
     layout_is S ''vl_api_prefix_t'' ''struct'' (prefix_layout ''vl_api_address_t'') \<and>
     layout_is S ''vl_api_ip4_prefix_t'' ''struct'' (prefix_layout ''vl_api_ip4_address_t'') \<and>
     layout_is S ''vl_api_ip6_prefix_t'' ''struct'' (prefix_layout ''vl_api_ip6_address_t'')"

definition codec_catalog :: "json \<Rightarrow> bool" where
  "codec_catalog S \<longleftrightarrow> sane_catalog S \<and> textual_layouts S \<and>
     list_all (\<lambda>kv. good_type (snd kv) \<and> FixedSize S (fst kv) \<noteq> None) (jmembers (jat S ''types''))"

text \<open>Documented behaviour of \<open>dump\<close>: only text that is not UTF-8 makes it throw.\<close>

definition dumps_numbers :: "env \<Rightarrow> bool" where
  "dumps_numbers E \<longleftrightarrow> (\<forall>j. is_number_integer j \<longrightarrow> dump E j \<noteq> None)"

lemma codec_catalog_type:
  assumes "codec_catalog S" and "Type S name = Some T"
  shows "good_type T" "sane_type T" "FixedSize S name \<noteq> None"
  using assms by (force simp: codec_catalog_def Type_def list_all_iff dest: map_of_SomeD sane_catalog_type)+

lemma layoutD: "layout_is S name kind P \<Longrightarrow> Type S name = Some T \<Longrightarrow> jat T ''kind'' = JString kind \<and> P (jiter (jat T ''fields''))"
  by (simp add: layout_is_def)

lemma prefix_layouts:
  assumes "codec_catalog S" and "Type S name = Some T" and "is_prefix name"
  shows "\<exists>t \<in> {''vl_api_ip4_address_t'', ''vl_api_ip6_address_t'', ''vl_api_address_t''}. prefix_layout t (jiter (jat T ''fields''))"
proof -
  have t: "textual_layouts S" using assms(1) by (simp add: codec_catalog_def)
  from assms(3) consider "name = ''vl_api_prefix_t''" | "name = ''vl_api_ip4_prefix_t''" | "name = ''vl_api_ip6_prefix_t''"
    unfolding is_prefix_def by blast
  then show ?thesis
    using t assms(2) unfolding textual_layouts_def by cases (blast dest: layoutD)+
qed

lemma address_layouts:
  assumes "codec_catalog S"
  shows "Type S ''vl_api_address_t'' = Some T \<Longrightarrow> jat T ''kind'' = JString ''struct'' \<and>
      (\<exists>a u. jiter (jat T ''fields'') = [a, u] \<and> plain_field a ''af'' ''vl_api_address_family_t'' \<and> plain_field u ''un'' ''vl_api_address_union_t'')"
    and "Type S ''vl_api_address_union_t'' = Some T \<Longrightarrow> jat T ''kind'' = JString ''union'' \<and>
      list_all (\<lambda>f. jat f ''type'' \<in> {JString ''vl_api_ip4_address_t'', JString ''vl_api_ip6_address_t''}) (jiter (jat T ''fields''))"
  using assms unfolding codec_catalog_def textual_layouts_def
  by (auto dest!: layoutD split: list.split_asm)

lemma value_as_returns: "is_object j \<Longrightarrow> (contains j k \<Longrightarrow> returns (get (jat j k))) \<Longrightarrow> returns (value_as get j k d)"
  by (auto simp: value_as_def contains_def jat_def split: option.splits)

lemma get_returns:
  "is_string j \<Longrightarrow> returns (get_string j)" "is_boolean j \<Longrightarrow> returns (get_bool j)" "is_number_integer j \<Longrightarrow> returns (get_uint64 j)"
  by (cases j; simp)+

lemma good_fieldD:
  assumes "good_field f"
  shows "is_object f" "sane_length f" "returns (get_string (jat f ''name''))" "returns (get_string (jat f ''type''))"
    "contains f ''count'' \<Longrightarrow> returns (get_string (jat f ''count''))"
    "returns (value_as get_string f ''discriminator'' d)" "is_string (jat f ''name'')"
    "contains f ''length'' \<Longrightarrow> returns (get_uint64 (jat f ''length''))" "returns (value_as get_int32 f ''length'' k)"
  using assms value_as_returns [of f "''discriminator''" get_string d] value_as_returns [of f "''length''" get_int32 k]
  by (auto simp: good_field_def sane_field_def sane_length_def intro: get_returns split: json.splits)

lemma good_typeD:
  assumes "good_type T"
  shows "is_object T" "returns (get_string (jat T ''kind''))" "list_all good_field (jiter (jat T ''fields''))"
    "jat T ''kind'' = JString ''alias'' \<or> jat T ''kind'' = JString ''enum'' \<Longrightarrow> returns (get_string (jat T ''type''))"
    "jat T ''kind'' = JString ''enum'' \<Longrightarrow> returns (value_as get_bool T ''flags'' d)"
    "jat T ''kind'' = JString ''enum'' \<Longrightarrow> integers (jat T ''values'')"
  using assms value_as_returns [of T "''flags''" get_bool d]
  by (auto simp: good_type_def good_enum_def intro: get_returns)

subsection \<open>The parts of the codec\<close>

lemma Counts_returns: "list_all good_field fs \<Longrightarrow> returns (Counts fs)"
  by (induction fs) (auto intro!: return_rules good_fieldD(5))

lemma contains_member: "contains j k \<Longrightarrow> (k, jat j k) \<in> set (jmembers j)"
  by (auto simp: contains_def jat_def split: option.splits dest: map_of_SomeD)

lemma integers_member: "integers vs \<Longrightarrow> contains vs k \<Longrightarrow> is_number_integer (jat vs k)"
  using contains_member [of vs k] by (auto simp: integers_def list_all_iff)

lemma flag_bits_returns: "integers values \<Longrightarrow> returns (flag_bits values xs seen bits)"
  by (induction xs arbitrary: seen bits) (auto intro!: return_rules get_returns simp: integers_member)

lemma flag_names_returns: "list_all (\<lambda>kv. is_number_integer (snd kv)) kvs \<Longrightarrow> returns (flag_names bits kvs remaining)"
  by (induction kvs arbitrary: remaining) (auto intro!: return_rules get_returns)

lemma dump_returns: "dumps_numbers E \<Longrightarrow> is_number_integer j \<Longrightarrow> returns (dump E j)"
  by (simp add: dumps_numbers_def returns_def)

lemma enum_numeric_returns:
  assumes "dumps_numbers E" and "integers values"
  shows "returns (enum_numeric E type values flags v)"
  unfolding enum_numeric_def
  by (auto intro!: return_rules flag_bits_returns [OF assms(2)] dump_returns [OF assms(1)] integers_member [OF assms(2)]
      simp: flag_bits_returns [OF assms(2)] integers_member [OF assms(2)] split: if_split_asm)

lemma PublicDefault_returns:
  assumes "codec_catalog S" and "dumps_numbers E" and "good_field f"
  shows "returns (PublicDefault E S f)"
proof -
  have "returns (value_as get_bool T ''flags'' False)" if "Type S n = Some T" "jat T ''kind'' = JString ''enum''" for n T
    using good_typeD(5) [OF codec_catalog_type(1) [OF assms(1) that(1)] that(2)] .
  then show ?thesis unfolding PublicDefault_def Let_def
    by (intro return_rules good_fieldD(4) [OF assms(3)]) (simp_all add: dump_returns [OF assms(2)] split: option.split)
qed

lemma any_field_returns: "(\<And>x. x \<in> set xs \<Longrightarrow> returns (f x)) \<Longrightarrow> returns (any_field f xs)"
  by (induction xs) (auto intro!: return_rules)

lemma variable_returns:
  assumes "codec_catalog S"
  shows "returns (variable_at S n name)"
proof (induction n arbitrary: name)
  case (Suc n)
  have f: "returns (variable_field (variable_at S n) f)" if "good_field f" for f
    unfolding variable_field_def using good_fieldD(4,9) [OF that] Suc by (auto intro!: return_rules)
  show ?case
  proof (cases "name = ''string'' \<or> Type S name = None")
    case False
    then obtain T where T: "Type S name = Some T" by blast
    note g = codec_catalog_type(1) [OF assms T]
    show ?thesis using False T good_typeD(3,4) [OF g] f Suc
      by (auto intro!: return_rules any_field_returns simp: list_all_iff)
  qed auto
qed simp

lemma has_interface_returns:
  assumes "codec_catalog S"
  shows "returns (has_interface S n name)"
proof (induction n arbitrary: name)
  case 0
  show ?case by (simp add: has_interface.simps)
next
  case (Suc n)
  show ?case
  proof (cases "name = ''vl_api_interface_index_t'' \<or> Type S name = None")
    case True
    then show ?thesis by (auto simp: has_interface.simps)
  next
    case False
    then obtain T where T: "Type S name = Some T" by blast
    note g = codec_catalog_type(1) [OF assms T]
    have "jvalue T ''fields'' (JArray []) = jat T ''fields'' \<or> jvalue T ''fields'' (JArray []) = JArray []"
      by (auto simp: jvalue_def jat_def contains_def split: option.splits)
    then have "list_all good_field (jiter (jvalue T ''fields'' (JArray [])))" using good_typeD(3) [OF g] by auto
    then show ?thesis using False T good_typeD(4) [OF g] Suc
      by (subst has_interface.simps) (auto intro!: return_rules any_field_returns simp: list_all_iff good_fieldD(4))
  qed
qed

subsection \<open>The recursion\<close>

text \<open>
  What a level of the codec needs of the one below: it returns, and when it decodes one of the types
  that end up in text or in an enumeration, the value has the right shape.
\<close>

locale returning = streaming rec for rec :: converter +
  fixes E :: env and S :: json
  assumes catalog: "codec_catalog S" and numbers: "dumps_numbers E"
    and rec_returns: "returns (rec t v io tag)"
    and decodes_number: "native_type t = Some T \<Longrightarrow> rec t v (Dec inp) tag = Some (st, x, io') \<Longrightarrow> st_ok st \<Longrightarrow>
      is_string x \<or> is_number x"
    and decodes_integer: "t \<in> {''u8'', ''i32''} \<Longrightarrow> rec t v (Dec inp) tag = Some (st, x, io') \<Longrightarrow> st_ok st \<Longrightarrow> is_number_integer x"
    and decodes_address: "t \<in> {''vl_api_ip4_address_t'', ''vl_api_ip6_address_t'', ''vl_api_address_t''} \<Longrightarrow>
      rec t v (Dec inp) tag = Some (st, x, io') \<Longrightarrow> st_ok st \<Longrightarrow> is_string x"
    and decodes_union: "rec ''vl_api_address_union_t'' v (Dec inp) tag = Some (st, x, io') \<Longrightarrow> st_ok st \<Longrightarrow>
      \<exists>k s. x = JObject [(k, JString s)]"
begin

lemma items_return: "returns (convert_items rec t xs io)"
  by (induction xs arbitrary: io) (auto intro!: return_rules rec_returns)

lemma alias_returns:
  assumes "good_type T" "sane_type T" "jat T ''kind'' = JString ''alias''"
  shows "returns (convert_alias rec T v io tag)"
proof -
  have "contains T ''length'' \<Longrightarrow> returns (get_uint64 (jat T ''length''))"
    using assms(2) by (auto simp: sane_type_def sane_length_def split: json.split_asm)
  then show ?thesis unfolding convert_alias_def
    using good_typeD(4) [OF assms(1)] assms(3) by (auto intro!: return_rules rec_returns items_return)
qed

lemma enum_symbol_returns: "integers vs \<Longrightarrow> is_string x \<or> is_number x \<Longrightarrow> returns (enum_symbol vs flags x)"
  by (cases x) (auto simp: enum_symbol_def integers_def intro!: return_rules flag_names_returns split: option.split)

lemma enum_returns:
  assumes "good_type T" "sane_type T" "jat T ''kind'' = JString ''enum''"
  shows "returns (convert_enum E rec T v io)"
proof -
  note g = good_typeD(4,5,6) [OF assms(1)]
  obtain N where n: "native_type (jtext (jat T ''type'')) = Some N" using assms(2,3) by (auto simp: sane_type_def)
  have sym: "returns (enum_symbol (jat T ''values'') flags x)"
    if "rec t y io None = Some (st, x, io')" "st_ok st" "\<not> encoding io" "get_string (jat T ''type'') = Some t" for t y st x io' flags
  proof -
    note r = that
    obtain inp where "io = Dec inp" using r(3) by (cases io) auto
    then show ?thesis
      using decodes_number [of t N y inp None st x io'] n r g(3) assms(3)
      by (auto simp: get_string_jtext intro: enum_symbol_returns)
  qed
  show ?thesis unfolding convert_enum_def Let_def
    using g assms(3) sym
    by (intro return_rules) (auto intro!: rec_returns enum_numeric_returns [OF numbers])
qed

lemma last_member: "list_all good_field fs \<Longrightarrow> filter P fs = m # ms \<Longrightarrow> good_field (last (m # ms))"
  using last_in_set [of "m # ms"] filter_is_subset [of P fs] by (auto simp: list_all_iff simp del: last.simps)

lemma union_encode_returns: "list_all good_field fs \<Longrightarrow> returns (union_encode rec sz fs v io tag)"
proof -
  assume fs: "list_all good_field fs"
  then have "list_all (\<lambda>f. is_string (jat f ''name'')) fs" by (auto simp: list_all_iff good_fieldD(7))
  with fs show ?thesis
    by (auto simp: union_encode_def Let_def simp del: last.simps split: list.split
        intro!: return_rules rec_returns good_fieldD(4) dest!: last_member [OF fs])
qed

lemma union_decode_returns: "list_all good_field fs \<Longrightarrow> returns (union_decode rec sz fs inp tag)"
  by (auto simp: union_decode_def Let_def simp del: last.simps split: list.split
      intro!: return_rules rec_returns good_fieldD(3,4) dest!: last_member)

lemma union_returns:
  assumes "Type S name = Some T"
  shows "returns (convert_union S rec name T v io tag)"
proof -
  note c = codec_catalog_type [OF catalog assms]
  have "returns (Variable S name)" unfolding Variable_def by (rule variable_returns [OF catalog])
  moreover have "returns (FixedSize S name)" using c(3) by (simp add: returns_def)
  ultimately show ?thesis unfolding convert_union_def
    by (cases io) (auto intro!: return_rules union_encode_returns union_decode_returns good_typeD(3) [OF c(1)])
qed

lemma fixed_string_returns: "good_field f \<Longrightarrow> contains f ''length'' \<Longrightarrow> returns (fixed_string f x io)"
  unfolding fixed_string_def by (auto intro!: return_rules good_fieldD)

lemma array_returns:
  assumes "good_field f" and "contains f ''length''"
  shows "returns (convert_array rec f object x io)"
proof -
  have "returns (array_count f object)" unfolding array_count_def
    using good_fieldD(5,8) [OF assms(1)] assms(2) by (auto intro!: return_rules get_returns(3))
  then show ?thesis unfolding convert_array_def
    using good_fieldD(3,4) [OF assms(1)] by (auto intro!: return_rules items_return)
qed

lemma member_returns:
  assumes "good_field f"
  shows "returns (convert_member rec name f object x io tag)"
proof -
  have "returns (selected_tag name f object tag)" unfolding selected_tag_def Let_def
    using good_fieldD(3,4,6) [OF assms] by (auto intro!: return_rules)
  then show ?thesis unfolding convert_member_def
    using good_fieldD(3,4) [OF assms] by (auto intro!: return_rules rec_returns)
qed

lemma field_returns:
  assumes "good_field f"
  shows "returns (convert_field E S rec name f object io tag)"
proof -
  have len: "contains f ''length''" if "value_as get_int32 f ''length'' 0 = Some n" "0 < n" for n
    using that by (auto simp: value_as_def contains_def split: if_split_asm option.split_asm)
  show ?thesis unfolding convert_field_def Let_def
    by (intro return_rules good_fieldD(3,4,9) [OF assms])
      (auto intro!: array_returns member_returns fixed_string_returns PublicDefault_returns [OF catalog numbers] assms good_fieldD(9) [OF assms]
        split: if_split_asm dest: len)
qed

lemma fields_return: "list_all good_field fs \<Longrightarrow> returns (convert_fields E S rec name fs object io tag)"
  by (induction fs arbitrary: object io) (auto intro!: return_rules field_returns)

lemma set_counts_return: "list_all good_field fs \<Longrightarrow> returns (set_counts fs object)"
  by (induction fs arbitrary: object) (auto intro!: return_rules good_fieldD(3,5))

lemma struct_encode_returns: "list_all good_field fs \<Longrightarrow> returns (struct_encode E S rec name fs v io tag)"
  unfolding struct_encode_def
  by (auto intro!: return_rules Counts_returns set_counts_return fields_return split: option.split)

text \<open>Decoding one field without length, into an object.\<close>

lemma plain_decode:
  assumes "convert_fields E S rec name (f # fs) object (Dec inp) tag = Some (st, x, io')" and "plain_field f k t" and "st_ok st"
  obtains tag' st1 y io1 where "rec t JNull (Dec inp) tag' = Some (st1, y, io1)" "st_ok st1"
    "convert_fields E S rec name fs (jset object k y) io1 tag = Some (st, x, io')"
proof -
  have k: "get_string (jat f ''name'') = Some k" "get_string (jat f ''type'') = Some t" "jtext (jat f ''name'') = k"
    using assms(2) by (auto simp: plain_field_def)
  obtain st1 y io1 where c: "convert_field E S rec name f object (Dec inp) tag = Some (st1, y, io1)"
    "if \<not> st_ok st1 then Some (st1, object, io1) = Some (st, x, io')
     else convert_fields E S rec name fs (jset object k y) io1 tag = Some (st, x, io')"
    using assms(1) k by (auto simp: Option.bind_eq_Some_conv split: if_split_asm)
  then have ok: "st_ok st1" using assms(3) by (auto split: if_split_asm)
  have "value_as get_int32 f ''length'' 0 = Some n \<Longrightarrow> n = 0" for n
    using assms(2) by (auto simp: plain_field_def value_as_def contains_def split: if_split_asm option.split_asm)
  then have "convert_member rec name f object JNull (Dec inp) tag = Some (st1, y, io1)"
    using c(1) k assms(2) by (auto simp: convert_field_def plain_field_def Let_def Option.bind_eq_Some_conv split: if_split_asm)
  then obtain tag' st0 where "rec t JNull (Dec inp) tag' = Some (st0, y, io1)" "st_ok st0"
    using ok k by (auto simp: convert_member_def Option.bind_eq_Some_conv prefix_message_def st_ok_def split: option.split_asm if_split_asm)
  with that c(2) ok show ?thesis by auto
qed

lemma pair_decode:
  assumes "convert_fields E S rec name [f, g] (JObject []) (Dec inp) tag = Some (st, x, io')" and "st_ok st"
    and "plain_field f k t" and "plain_field g l u" and "k \<noteq> l"
  obtains tag1 st1 y io1 tag2 inp2 st2 z io2 where "rec t JNull (Dec inp) tag1 = Some (st1, y, io1)" "st_ok st1"
    "rec u JNull (Dec inp2) tag2 = Some (st2, z, io2)" "st_ok st2" "jat x k = y" "jat x l = z" "Counts [f, g] = Some []"
proof -
  obtain tag1 st1 y io1 where 1: "rec t JNull (Dec inp) tag1 = Some (st1, y, io1)" "st_ok st1"
    "convert_fields E S rec name [g] (jset (JObject []) k y) io1 tag = Some (st, x, io')"
    by (rule plain_decode [OF assms(1,3,2)])
  obtain inp2 where io1: "io1 = Dec inp2" using flow [OF 1(1)] by auto
  obtain tag2 st2 z io2 where 2: "rec u JNull (Dec inp2) tag2 = Some (st2, z, io2)" "st_ok st2"
    "convert_fields E S rec name [] (jset (jset (JObject []) k y) l z) io2 tag = Some (st, x, io')"
    by (rule plain_decode [OF 1(3) [unfolded io1] assms(4,2)])
  have "jat x k = y" "jat x l = z" using 2(3) assms(5) by (auto simp: jat_def)
  moreover have "Counts [f, g] = Some []" using assms(3,4) by (simp add: plain_field_def)
  ultimately show ?thesis using that 1 2 by blast
qed

lemma prefix_text_returns:
  assumes "convert_fields E S rec name (jiter (jat T ''fields'')) (JObject []) (Dec inp) tag = Some (st, x, io')"
    and "st_ok st" and "Counts (jiter (jat T ''fields'')) = Some counts" and "Type S name = Some T" and "is_prefix name"
  shows "returns (struct_text E name (foldl jerase x counts))"
proof -
  obtain t where t: "t \<in> {''vl_api_ip4_address_t'', ''vl_api_ip6_address_t'', ''vl_api_address_t''}"
    "prefix_layout t (jiter (jat T ''fields''))"
    using prefix_layouts [OF catalog assms(4,5)] by blast
  obtain f g where fs: "jiter (jat T ''fields'') = [f, g]" "plain_field f ''address'' t" "plain_field g ''len'' ''u8''"
    using t(2) by (auto simp: prefix_layout_def split: list.split_asm)
  obtain tag1 st1 y io1 tag2 inp2 st2 z io2 where p: "rec t JNull (Dec inp) tag1 = Some (st1, y, io1)" "st_ok st1"
    "rec ''u8'' JNull (Dec inp2) tag2 = Some (st2, z, io2)" "st_ok st2" "jat x ''address'' = y" "jat x ''len'' = z"
    "Counts [f, g] = Some []"
    by (rule pair_decode [OF assms(1) [unfolded fs(1)] assms(2) fs(2,3)]) simp_all
  have "is_string (jat x ''address'')" "is_number_integer (jat x ''len'')"
    using decodes_address [OF t(1) p(1,2)] decodes_integer [OF _ p(3,4)] p(5,6) by simp_all
  moreover have "counts = []" "\<not> is_address name" using p(7) assms(3,5) fs(1) by (auto simp: is_prefix_def is_address_def)
  ultimately show ?thesis using assms(5)
    by (simp add: struct_text_def) (intro return_rules get_returns dump_returns [OF numbers])
qed

text \<open>An address decodes to the text of its union member.\<close>

lemma address_decode:
  assumes "convert_fields E S rec ''vl_api_address_t'' (jiter (jat T ''fields'')) (JObject []) (Dec inp) tag = Some (st, x, io')"
    and "st_ok st" and "Counts (jiter (jat T ''fields'')) = Some counts" and "Type S ''vl_api_address_t'' = Some T"
  shows "\<exists>s. struct_text E ''vl_api_address_t'' (foldl jerase x counts) = Some (JString s)"
proof -
  obtain f g where fs: "jiter (jat T ''fields'') = [f, g]" "plain_field f ''af'' ''vl_api_address_family_t''"
    "plain_field g ''un'' ''vl_api_address_union_t''"
    using address_layouts(1) [OF catalog assms(4)] by blast
  obtain tag1 st1 y io1 tag2 inp2 st2 z io2 where p: "rec ''vl_api_address_union_t'' JNull (Dec inp2) tag2 = Some (st2, z, io2)"
    "st_ok st2" "jat x ''un'' = z" "Counts [f, g] = Some []"
    by (rule pair_decode [OF assms(1) [unfolded fs(1)] assms(2) fs(2,3)]) simp_all
  obtain k s where "jat x ''un'' = JObject [(k, JString s)]" using decodes_union [OF p(1,2)] p(3) by blast
  moreover have "counts = []" using p(4) assms(3) fs(1) by auto
  ultimately show ?thesis by (simp add: struct_text_def is_address_def)
qed

lemma struct_decode_returns:
  assumes "Type S name = Some T"
  shows "returns (struct_decode E S rec name (jiter (jat T ''fields'')) (Dec inp) tag)"
proof -
  have gf: "list_all good_field (jiter (jat T ''fields''))"
    using good_typeD(3) [OF codec_catalog_type(1) [OF catalog assms]] .
  have "returns (struct_text E name (foldl jerase x counts))"
    if c: "convert_fields E S rec name (jiter (jat T ''fields'')) (JObject []) (Dec inp) tag = Some (st, x, io')"
      "st_ok st" "Counts (jiter (jat T ''fields'')) = Some counts" for st x io' counts
  proof -
    consider "is_prefix name" | "name = ''vl_api_address_t''" | "\<not> is_prefix name" "\<not> is_address name"
      by (auto simp: is_address_def)
    then show ?thesis
    proof cases
      case 1
      then show ?thesis using prefix_text_returns [OF c assms] by simp
    next
      case 2
      then show ?thesis using address_decode [of T inp tag st x io' counts] c assms by (auto simp: returns_def)
    next
      case 3
      then show ?thesis by (simp add: struct_text_def)
    qed
  qed
  then show ?thesis unfolding struct_decode_def
    by (intro return_rules Counts_returns [OF gf] fields_return [OF gf]) (auto intro!: return_rules)
qed

lemma catalog_returns:
  assumes "Type S name = Some T"
  shows "returns (convert_catalog E S rec name T v io tag)"
proof -
  note c = codec_catalog_type [OF catalog assms]
  have k: "jat T ''kind'' = JString k" if "get_string (jat T ''kind'') = Some k" for k
    using that by (simp add: get_string_jtext)
  show ?thesis unfolding convert_catalog_def
    using struct_decode_returns [OF assms]
    by (cases io) (auto intro!: return_rules good_typeD(2) [OF c(1)] alias_returns [OF c(1,2)] enum_returns [OF c(1,2)]
        union_returns [OF assms] struct_encode_returns good_typeD(3) [OF c(1)] dest: k split: prod.split)
qed

lemma union_address:
  assumes "Type S ''vl_api_address_union_t'' = Some T" and "st_ok st"
    and "convert_catalog E S rec ''vl_api_address_union_t'' T v (Dec inp) tag = Some (st, x, io')"
  shows "\<exists>k s. x = JObject [(k, JString s)]"
proof -
  note l = address_layouts(2) [OF catalog assms(1)]
  obtain sz where "union_decode rec sz (jiter (jat T ''fields'')) inp tag = Some (st, x, io')"
    using assms l by (auto simp: convert_catalog_def convert_union_def Option.bind_eq_Some_conv split: if_split_asm)
  then have d: "union_decode rec sz (jiter (jat T ''fields'')) inp tag = Some (st, x, io')" .
  obtain a as where f: "filter (\<lambda>f. tag \<noteq> None \<and> contains f ''case'' \<and> json_eq (jat f ''case'') (the tag)) (jiter (jat T ''fields'')) = a # as"
    using d assms(2) by (auto simp: union_decode_def split: list.split_asm)
  define m where "m = last (a # as)"
  have "m \<in> set (a # as)" unfolding m_def by (rule last_in_set) simp
  then have m1: "m \<in> set (jiter (jat T ''fields''))" unfolding f [symmetric] by simp
  obtain t st1 item io1 k where m: "get_string (jat m ''type'') = Some t"
    "rec t JNull (Dec (take sz inp)) None = Some (st1, item, io1)" "st_ok st1" "x = JObject [(k, item)]"
    using d assms(2) unfolding union_decode_def f list.case Let_def m_def [symmetric]
    by (auto simp: Option.bind_eq_Some_conv split: if_split_asm)
  have "is_string item"
    by (rule decodes_address [OF _ m(2,3)]) (use l m1 m(1) in \<open>auto simp: list_all_iff get_string_jtext\<close>)
  then show ?thesis using m(4) by (auto simp: is_string_conv)
qed

lemma struct_address:
  assumes "Type S ''vl_api_address_t'' = Some T" and "st_ok st"
    and "convert_catalog E S rec ''vl_api_address_t'' T v (Dec inp) tag = Some (st, x, io')"
  shows "is_string x"
proof -
  have "struct_decode E S rec ''vl_api_address_t'' (jiter (jat T ''fields'')) (Dec inp) tag = Some (st, x, io')"
    using assms(3) address_layouts(1) [OF catalog assms(1)] by (simp add: convert_catalog_def)
  then obtain counts st1 object io1 where d: "Counts (jiter (jat T ''fields'')) = Some counts"
    "convert_fields E S rec ''vl_api_address_t'' (jiter (jat T ''fields'')) (JObject []) (Dec inp) tag = Some (st1, object, io1)"
    "st_ok st1" "struct_text E ''vl_api_address_t'' (foldl jerase object counts) = Some x"
    using assms(2) unfolding struct_decode_def by (auto simp: Option.bind_eq_Some_conv split: if_split_asm)
  show ?thesis using address_decode [OF d(2,3,1) assms(1)] d(4) by auto
qed

end

lemma Number_decodes:
  "Number T v (Dec inp) = (st, x, io') \<Longrightarrow> st_ok st \<Longrightarrow> is_string x \<or> is_number x"
  "Number (UInt 1) v (Dec inp) = (st, x, io') \<Longrightarrow> st_ok st \<Longrightarrow> is_number_integer x"
  "Number (SInt 4) v (Dec inp) = (st, x, io') \<Longrightarrow> st_ok st \<Longrightarrow> is_number_integer x"
  by (cases T; auto simp: Number_def Let_def split: if_split_asm prod.split_asm)
    (auto simp: Number_def Let_def split: if_split_asm prod.split_asm)

lemma convert_address_decodes: "convert_address N n v (Dec inp) = (st, x, io') \<Longrightarrow> st_ok st \<Longrightarrow> is_string x"
  by (auto simp: convert_address_def Let_def split: if_split_asm prod.split_asm option.split_asm)

lemma returning_convert_at:
  assumes "codec_catalog S" and "dumps_numbers E"
  shows "returning (convert_at E N syms S n) E S"
proof (induction n)
  case 0
  show ?case by unfold_locales (use assms in auto)
next
  case (Suc n)
  let ?c = "convert_at E N syms S (Suc n)"
  show ?case
  proof
    show "codec_catalog S" "dumps_numbers E" by (fact assms)+
    fix t v io tag
    show "returns (?c t v io tag)"
      using returning.catalog_returns [OF Suc] by (auto split: option.split)
  next
    fix t T v inp tag st x io'
    assume "native_type t = Some T" "?c t v (Dec inp) tag = Some (st, x, io')" "st_ok st"
    then show "is_string x \<or> is_number x" using Number_decodes(1) by auto
  next
    fix t v inp tag st x io'
    assume "t \<in> {''u8'', ''i32''}" "?c t v (Dec inp) tag = Some (st, x, io')" "st_ok st"
    then show "is_number_integer x" using Number_decodes(2,3) by (auto simp: native_type_def)
  next
    fix t v inp tag st x io'
    assume "t \<in> {''vl_api_ip4_address_t'', ''vl_api_ip6_address_t'', ''vl_api_address_t''}"
      and c: "?c t v (Dec inp) tag = Some (st, x, io')" "st_ok st"
    then consider n where "address_size t = Some n" "convert_address N n v (Dec inp) = (st, x, io')"
      | T where "Type S ''vl_api_address_t'' = Some T"
          "convert_catalog E S (convert_at E N syms S n) ''vl_api_address_t'' T v (Dec inp) tag = Some (st, x, io')"
      by (auto simp: native_type_def address_size_def split: option.split_asm)
    then show "is_string x"
      by cases (auto intro: convert_address_decodes c(2) returning.struct_address [OF Suc _ c(2)])
  next
    fix v inp tag st x io'
    assume c: "?c ''vl_api_address_union_t'' v (Dec inp) tag = Some (st, x, io')" "st_ok st"
    then obtain T where "Type S ''vl_api_address_union_t'' = Some T"
        "convert_catalog E S (convert_at E N syms S n) ''vl_api_address_union_t'' T v (Dec inp) tag = Some (st, x, io')"
      by (auto simp: native_type_def address_size_def split: option.split_asm)
    then show "\<exists>k s. x = JObject [(k, JString s)]" using returning.union_address [OF Suc _ c(2)] by blast
  qed
qed

text \<open>The interface of the codec's clients.\<close>

locale total_codec =
  fixes E :: env and S :: json
  assumes catalog: "codec_catalog S" and numbers: "dumps_numbers E"

sublocale total_codec \<subseteq> levels: returning "convert_at E N syms S n" E S for N syms n
  by (rule returning_convert_at [OF catalog numbers])

context total_codec
begin

lemma Encode_total: "returns (Encode E N S type v syms)"
  unfolding Encode_def Convert_def by (auto intro!: return_rules levels.rec_returns)

lemma Decode_total: "returns (Decode E N S type bs syms)"
  unfolding Decode_def Convert_def by (auto intro!: return_rules levels.rec_returns)

lemma HasInterface_total: "returns (HasInterface S name)"
  unfolding HasInterface_def by (rule has_interface_returns [OF catalog])

end

text \<open>
  C29. Neither a client nor VPP can make the codec throw: on a catalog of the generator's shape, encoding
  any JSON value as any type, and decoding any bytes, return with a status.
\<close>

theorem codec_never_throws:
  assumes "codec_catalog S" and "dumps_numbers E"
  shows "(\<exists>st out. Encode E N S type v syms = Some (st, out)) \<and> (\<exists>st x. Decode E N S type bs syms = Some (st, x))"
  using total_codec.Encode_total [OF total_codec.intro [OF assms], of N type v syms]
    total_codec.Decode_total [OF total_codec.intro [OF assms], of N type bs syms]
  by (auto simp: returns_def)

text \<open>VPP's types for addresses and prefixes.\<close>

definition address_catalog :: json where
  "address_catalog = JObject [(''methods'', JObject []), (''types'', JObject [
     (''vl_api_address_family_t'', JObject [(''flags'', JBool False), (''kind'', JString ''enum''), (''type'', JString ''u8''),
        (''values'', JObject [(''ADDRESS_IP4'', JUint 0), (''ADDRESS_IP6'', JUint 1)])]),
     (''vl_api_address_t'', JObject [(''fields'', JArray [
        JObject [(''name'', JString ''af''), (''type'', JString ''vl_api_address_family_t'')],
        JObject [(''name'', JString ''un''), (''type'', JString ''vl_api_address_union_t'')]]), (''kind'', JString ''struct'')]),
     (''vl_api_address_union_t'', JObject [(''fields'', JArray [
        JObject [(''case'', JString ''ADDRESS_IP4''), (''name'', JString ''ip4''), (''type'', JString ''vl_api_ip4_address_t'')],
        JObject [(''case'', JString ''ADDRESS_IP6''), (''name'', JString ''ip6''), (''type'', JString ''vl_api_ip6_address_t'')]]),
        (''kind'', JString ''union'')]),
     (''vl_api_ip4_address_t'', JObject [(''kind'', JString ''alias''), (''length'', JUint 4), (''type'', JString ''u8'')]),
     (''vl_api_ip6_address_t'', JObject [(''kind'', JString ''alias''), (''length'', JUint 16), (''type'', JString ''u8'')]),
     (''vl_api_prefix_t'', JObject [(''fields'', JArray [
        JObject [(''name'', JString ''address''), (''type'', JString ''vl_api_address_t'')],
        JObject [(''name'', JString ''len''), (''type'', JString ''u8'')]]), (''kind'', JString ''struct'')])])]"

lemma codec_catalog_address: "codec_catalog address_catalog"
proof -
  have "sane_catalog address_catalog"
    by (simp add: address_catalog_def sane_catalog_def sane_type_def sane_field_def sane_length_def native_names_def alias_of_def
        schema_eval)
  moreover have "textual_layouts address_catalog"
    by (simp add: address_catalog_def textual_layouts_def layout_is_def prefix_layout_def plain_field_def schema_eval)
  moreover have "list_all (\<lambda>kv. good_type (snd kv)) (jmembers (jat address_catalog ''types''))"
    by (simp add: address_catalog_def good_type_def good_field_def sane_field_def sane_length_def good_enum_def integers_def schema_eval)
  moreover have "list_all (\<lambda>kv. FixedSize address_catalog (fst kv) \<noteq> None) (jmembers (jat address_catalog ''types''))"
    by (simp add: address_catalog_def schema_eval del: not_None_eq)
  ultimately show ?thesis by (auto simp: codec_catalog_def list_all_iff)
qed

lemma dumps_numbers_sample: "dumps_numbers sample_env"
  by (simp add: dumps_numbers_def)

interpretation addresses: total_codec sample_env address_catalog
  by unfold_locales (rule codec_catalog_address dumps_numbers_sample)+

theorem codec_never_throws_witness:
  "\<exists>st x. Decode sample_env sample_inet address_catalog ''vl_api_prefix_t'' [CHR 0x00, CHR 0x0A, CHR 0x00] sample_symbols = Some (st, x)"
  using codec_never_throws [OF addresses.catalog addresses.numbers] by blast

end
