(* ===== verification/Vapi_Total.thy ===== *)
theory Vapi_Total
  imports Vapi_Responds Schema_Total
begin

text \<open>
  The VAPI backend always answers: on a catalog of the generator's shape and with a clock that advances,
  no request makes it throw and no behaviour of VPP makes it wait for ever.
\<close>

subsection \<open>Descriptions\<close>

lemma FixedSize_returns:
  assumes "codec_catalog S"
  shows "returns (FixedSize S name)"
proof (cases "Type S name")
  case None
  then show ?thesis by (simp add: FixedSize_def levels_numeral)
next
  case (Some T)
  then show ?thesis using codec_catalog_type(3) [OF assms] by (simp add: returns_def)
qed

lemma describe_returns:
  assumes "codec_catalog S" and "dumps_numbers E"
  shows "returns (describe_at E S n name)"
proof (induction n arbitrary: name)
  case (Suc n)
  have f: "returns (describe_field (describe_at E S n) f)" if "good_field f" for f
    unfolding describe_field_def Let_def using good_fieldD(4,9) [OF that] Suc by (auto intro!: return_rules)
  have fs: "returns (describe_fields E S (describe_at E S n) counts fs (ps, rs))" if "list_all good_field fs" for counts fs ps rs
    using that
  proof (induction fs arbitrary: ps rs)
    case (Cons g fs)
    then have g: "good_field g" by simp
    show ?case using Cons PublicDefault_returns [OF assms g] f [OF g]
      by (auto intro!: return_rules good_fieldD(3) [OF g])
  qed simp
  have "returns (describe_catalog E S (describe_at E S n) name)"
  proof (cases "Type S name")
    case (Some T)
    note g = codec_catalog_type(1) [OF assms(1) Some]
    show ?thesis using Some good_typeD(3,4,5) [OF g] Suc fs
      by (auto simp: describe_catalog_def describe_enum_def describe_layout_def Let_def intro!: return_rules Counts_returns)
  qed (simp add: describe_catalog_def)
  then show ?case by (auto intro!: return_rules FixedSize_returns [OF assms(1)])
qed simp

subsection \<open>The shape of the methods\<close>

text \<open>
  A method of the catalog: names are strings and marks are booleans, a supported method has a reply, the
  messages are structures, and a return value is an \<open>i32\<close>.
\<close>

definition message_type :: "json \<Rightarrow> string \<Rightarrow> bool" where
  "message_type S name \<longleftrightarrow> name \<notin> set kTextTypes \<and> name \<noteq> ''vl_api_interface_index_t'' \<and> native_type name = None \<and>
     (case Type S name of
        None \<Rightarrow> False
      | Some T \<Rightarrow> jat T ''kind'' = JString ''struct'' \<and> name \<noteq> ''bool'' \<and> name \<noteq> ''string'' \<and>
          list_all (\<lambda>f. jat f ''name'' = JString ''retval'' \<longrightarrow> plain_field f ''retval'' ''i32'') (jiter (jat T ''fields'')))"

definition optional :: "(json \<Rightarrow> bool) \<Rightarrow> json \<Rightarrow> string \<Rightarrow> bool" where
  "optional P m k \<longleftrightarrow> (contains m k \<longrightarrow> P (jat m k))"

definition good_method :: "json \<Rightarrow> json \<Rightarrow> bool" where
  "good_method S m \<longleftrightarrow> is_object m \<and> is_string (jat m ''request'') \<and> message_type S (jtext (jat m ''request'')) \<and>
     optional is_string m ''reply'' \<and> optional is_string m ''stream_msg'' \<and> optional is_string m ''reason'' \<and>
     optional is_boolean m ''supported'' \<and> optional is_boolean m ''stream'' \<and> optional is_boolean m ''automatic_cursor'' \<and>
     (jat m ''supported'' = JBool True \<longrightarrow> contains m ''reply'' \<and> message_type S (jtext (jat m ''reply'')) \<and>
        optional (\<lambda>j. message_type S (jtext j)) m ''stream_msg'')"

definition method_catalog :: "json \<Rightarrow> bool" where
  "method_catalog S \<longleftrightarrow> codec_catalog S \<and> streams_marked S \<and>
     list_all (\<lambda>kv. good_method S (snd kv)) (jmembers (jat S ''methods''))"

lemma good_methodD:
  assumes "good_method S m"
  shows "is_object m" "returns (get_string (jat m ''request''))" "returns (value_as get_string m ''reply'' s)"
    "returns (value_as get_string m ''stream_msg'' s)" "returns (value_as get_string m ''reason'' s)"
    "returns (value_as get_bool m ''supported'' b)" "returns (value_as get_bool m ''stream'' b)"
    "returns (value_as get_bool m ''automatic_cursor'' b)"
  using assms by (auto simp: good_method_def optional_def intro!: value_as_returns intro: get_returns)

lemma describe_fields_object:
  "describe_fields E S describe counts fs (ps, rs) = Some (ps', rs') \<Longrightarrow> is_object ps \<Longrightarrow> is_object ps'"
  by (induction fs arbitrary: ps rs) (auto simp: Option.bind_eq_Some_conv is_object_jset split: if_split_asm)

lemma describe_message:
  assumes "codec_catalog S" and "dumps_numbers E" and "message_type S name" and "Describe E S name = Some j"
  shows "returns (hide_cursor j)"
proof -
  obtain T where T: "Type S name = Some T" "jat T ''kind'' = JString ''struct''"
    using assms(3) by (auto simp: message_type_def split: option.split_asm)
  have "native_type t \<noteq> None" if "t \<in> {''u64'', ''i64'', ''f32'', ''f64''}" for t
    using that by (auto simp: native_type_def)
  moreover have m: "native_type name = None" "name \<noteq> ''bool''" "name \<noteq> ''string''"
    using assms(3) unfolding message_type_def T(1) option.case by blast+
  ultimately have n: "name \<noteq> ''u64''" "name \<noteq> ''i64''" "name \<noteq> ''f32''" "name \<noteq> ''f64''" "name \<noteq> ''bool''" "name \<noteq> ''string''"
    by blast+
  obtain sz where "(if 2 \<le> length name \<and> (hd name = CHR ''u'' \<or> hd name = CHR ''i'') then FixedSize S name else Some 0) = Some sz"
    using FixedSize_returns [OF assms(1), of name] by (fastforce simp: returns_def)
  note sz = this
  have k: "name \<notin> set kTextTypes" "name \<noteq> ''vl_api_interface_index_t''" using assms(3) by (simp_all add: message_type_def)
  have "describe_at E S (Suc 32) name = Some j" using assms(4) unfolding Describe_def by (simp only: numeral_eq_Suc pred_numeral_simps BitM.simps)
  then have "describe_catalog E S (describe_at E S 32) name = Some j"
    unfolding describe_at.simps(2) sz using n k T(1) by (simp only: Option.bind.simps simp_thms if_False option.distinct)
  then have "describe_layout E S (describe_at E S 32) T = Some j" using T by (simp add: describe_catalog_def)
  then show ?thesis
    by (auto simp: describe_layout_def Let_def T(2) Option.bind_eq_Some_conv hide_cursor_def json_simps dest!: describe_fields_object)
qed

subsection \<open>The return value of a reply\<close>

definition integer_retval :: "json \<Rightarrow> bool" where
  "integer_retval x \<longleftrightarrow> is_object x \<and> (\<forall>v. (''retval'', v) \<in> set (jmembers x) \<longrightarrow> is_number_integer v)"

lemma set_put_subset: "set (put k v kvs) \<subseteq> insert (k, v) (set kvs)"
  by (induction kvs) (auto split: if_split_asm)

lemma integer_retval_update:
  "integer_retval x \<Longrightarrow> (k = ''retval'' \<Longrightarrow> is_number_integer v) \<Longrightarrow> integer_retval (jset x k v)"
  "integer_retval x \<Longrightarrow> integer_retval (jerase x k)"
  using set_put_subset [of k v "jmembers x"] set_drop_key [of k "jmembers x"]
  by (cases x; auto simp: integer_retval_def)+

context returning
begin

lemma field_shape:
  assumes "convert_field E S rec name f object (Dec inp) tag = Some (st, x, io')" and "plain_field f k t" and "st_ok st"
    and "is_object object"
  shows "\<exists>tag' st'. rec t JNull (Dec inp) tag' = Some (st', x, io') \<and> st_ok st'"
proof -
  have "convert_fields E S rec name [f] object (Dec inp) tag = Some (Ok, jset object k x, io')"
    using assms by (simp add: plain_field_def)
  then obtain tag' st1 y where y: "rec t JNull (Dec inp) tag' = Some (st1, y, io')" "st_ok st1" "jset object k y = jset object k x"
    by (rule plain_decode [OF _ assms(2)]) auto
  have "y = x" using arg_cong [OF y(3), of "\<lambda>j. jat j k"] assms(4) by (simp add: jat_jset)
  then show ?thesis using y by blast
qed

lemma fields_retval:
  assumes "list_all (\<lambda>f. jat f ''name'' = JString ''retval'' \<longrightarrow> plain_field f ''retval'' ''i32'') fs" and "list_all good_field fs"
    and "convert_fields E S rec name fs object (Dec inp) tag = Some (st, x, io')" and "st_ok st"
    and "integer_retval object"
  shows "integer_retval x"
  using assms
proof (induction fs arbitrary: object inp)
  case (Cons f fs)
  obtain st1 y io1 where c: "convert_field E S rec name f object (Dec inp) tag = Some (st1, y, io1)" "st_ok st1"
    "convert_fields E S rec name fs (jset object (jtext (jat f ''name'')) y) io1 tag = Some (st, x, io')"
    using Cons.prems(3,4) by (auto simp: Option.bind_eq_Some_conv split: if_split_asm)
  obtain inp1 where io1: "io1 = Dec inp1" using field_flow [OF c(1)] by auto
  have "is_number_integer y" if r: "jtext (jat f ''name'') = ''retval''"
  proof -
    have "jat f ''name'' = JString ''retval''"
      using r Cons.prems(2) by (auto simp: good_field_def is_string_conv)
    then have "plain_field f ''retval'' ''i32''" using Cons.prems(1) by simp
    from field_shape [OF c(1) this c(2)] Cons.prems(5) show ?thesis
      unfolding integer_retval_def using decodes_integer [of "''i32''"] by blast
  qed
  then have "integer_retval (jset object (jtext (jat f ''name'')) y)"
    using Cons.prems(5) integer_retval_update(1) by blast
  with Cons.IH [OF _ _ c(3) [unfolded io1] Cons.prems(4)] Cons.prems(1,2) show ?case by simp
qed simp

lemma message_retval:
  assumes "Type S name = Some T" and "message_type S name" and "st_ok st"
    and "convert_catalog E S rec name T v (Dec inp) tag = Some (st, x, io')"
  shows "integer_retval x"
proof -
  have m: "jat T ''kind'' = JString ''struct''" "name \<notin> set kTextTypes"
    "list_all (\<lambda>f. jat f ''name'' = JString ''retval'' \<longrightarrow> plain_field f ''retval'' ''i32'') (jiter (jat T ''fields''))"
    using assms(2) unfolding message_type_def assms(1) option.case by blast+
  have n: "\<not> is_address name" "\<not> is_prefix name" using m(2) by (auto simp: is_address_def is_prefix_def kTextTypes_def)
  note gf = good_typeD(3) [OF codec_catalog_type(1) [OF catalog assms(1)]]
  have "struct_decode E S rec name (jiter (jat T ''fields'')) (Dec inp) tag = Some (st, x, io')"
    using assms(4) m(1) by (simp add: convert_catalog_def)
  then obtain counts st1 object io1 where d:
    "convert_fields E S rec name (jiter (jat T ''fields'')) (JObject []) (Dec inp) tag = Some (st1, object, io1)"
    "st_ok st1" "foldl jerase object counts = x"
    using assms(3) n unfolding struct_decode_def by (auto simp: Option.bind_eq_Some_conv struct_text_def split: if_split_asm)
  have "integer_retval (JObject [])" by (simp add: integer_retval_def)
  from fields_retval [OF m(3) gf d(1,2) this] have "integer_retval object" .
  then have "integer_retval (foldl jerase object counts)"
    by (induction counts arbitrary: object) (auto intro: integer_retval_update(2))
  then show ?thesis using d(3) by simp
qed

end

lemma Decode_retval:
  assumes "codec_catalog S" and "dumps_numbers E" and "message_type S name"
    and "Decode E N S name bs syms = Some (st, x)" and "st_ok st"
  shows "integer_retval x"
proof -
  obtain T where T: "Type S name = Some T" using assms(3) by (auto simp: message_type_def split: option.split_asm)
  have m: "native_type name = None" "name \<noteq> ''bool''" "name \<noteq> ''string''" "name \<noteq> ''vl_api_interface_index_t''"
    "name \<notin> set kTextTypes"
    using assms(3) unfolding message_type_def T option.case by blast+
  then have a: "address_size name = None" by (auto simp: address_size_def kTextTypes_def)
  obtain st1 io where "convert_catalog E S (convert_at E N syms S 32) name T JNull (Dec bs) None = Some (st1, x, io)" "st_ok st1"
    using assms(4,5) T m a by (auto simp: Decode_def Convert_def levels_numeral Option.bind_eq_Some_conv split: if_split_asm)
  then show ?thesis using returning.message_retval [OF returning_convert_at [OF assms(1,2)] T assms(3)] by blast
qed

subsection \<open>A generated call returns\<close>

lemma OnCall_total:
  assumes "\<And>payload. returns (decode payload)"
  shows "callback (OnCall E decode stream explicit) (\<lambda>s. \<not> cs_thrown s)"
proof
  fix s :: call_state and e
  have item: "cs_thrown (call_item E decode p s) = cs_thrown s" for p s
    using assms [of p] by (cases "decode p") (auto simp: call_item_def returns_def Let_def case_prod_beta)
  assume "\<not> cs_thrown s"
  then show "\<not> cs_thrown (OnCall E decode stream explicit e s)"
    by (cases e) (auto simp: Let_def item split: option.split)
qed

locale answering = total_codec E S for E :: env and S :: json +
  fixes V :: "'x vapi"
  assumes methods: "method_catalog S" and clock: "clock_advances V"
begin

lemma RefreshNames_total: "returns (RefreshNames V sp d v)"
proof -
  have "returns (Dump V s w)" for s w using Dump_returns [OF clock] by (simp add: returns_def)
  then show ?thesis unfolding RefreshNames_def Let_def by (auto intro!: return_rules)
qed

lemma await_total: "returns (await_reply E N S V info v sp d)"
proof -
  let ?decode = "\<lambda>payload. Decode E N S (i_output info) payload (symbols_of (v_names v))"
  have "returns (Dispatch V (OnCall E ?decode (i_stream info) (i_explicit info)) (\<lambda>s. cs_done s \<or> cs_thrown s)
      True (i_deadline info) (fresh_call sp d) v)"
    using Dispatch_returns [OF clock] by (simp add: returns_def)
  moreover have "\<not> cs_thrown s"
    if "Dispatch V (OnCall E ?decode (i_stream info) (i_explicit info)) (\<lambda>s. cs_done s \<or> cs_thrown s)
      True (i_deadline info) (fresh_call sp d) v = Some (st, s, v')" for st s v'
    using callback.dispatched [OF OnCall_total [OF Decode_total] that] by (simp add: fresh_call_def)
  ultimately show ?thesis unfolding await_reply_def Let_def by (auto intro!: return_rules)
qed

lemma stream_page_total: "is_string (i_reply info) \<Longrightarrow> returns (stream_page E N S V info cp st s v)"
  unfolding stream_page_def by (auto intro!: return_rules get_returns Decode_total)

lemma call_answer_total:
  assumes "message_type S (i_output info)"
  shows "returns (call_answer E N S V info st s v)"
proof -
  have "returns (dump E (jat result ''retval''))"
    if "Decode E N S (i_output info) bs syms = Some (st1, result)" "st_ok st1" "contains result ''retval''" for bs syms st1 result
    using Decode_retval [OF catalog numbers assms that(1,2)] contains_member [OF that(3)] dump_returns [OF numbers]
    by (simp add: integer_retval_def)
  then show ?thesis unfolding call_answer_def
    by (auto intro!: return_rules HasInterface_total RefreshNames_total Decode_total)
qed

lemma respond_total [simp]: "returns (respond E v sp d j)" "returns (finish E v sp d st)"
  by (simp_all add: respond_def finish_def returns_def case_prod_beta)

lemma call_pages_total:
  assumes "is_string (i_reply info)" and "message_type S (i_output info)"
  shows "returns (call_pages E N S V info n cp v sp d)"
proof (induction n arbitrary: cp v sp d)
  case (Suc n)
  then show ?case
    by (auto intro!: return_rules Encode_total await_total stream_page_total [OF assms(1)] call_answer_total [OF assms(2)]
        simp: case_prod_beta split: sum.split)
qed simp

lemma generated_call_total:
  assumes "is_string (i_reply info)" and "message_type S (i_output info)"
  shows "returns (generated_call E N S V info params v sp d)"
proof -
  have "returns (call_pages E N S V (info\<lparr>i_deadline := t\<rparr>) 1024 cp w sp d)" for t cp w
    using assms by (intro call_pages_total) simp_all
  then show ?thesis unfolding generated_call_def Let_def
    by (auto intro!: return_rules HasInterface_total RefreshNames_total simp del: call_pages.simps)
qed

lemma call_setup_total:
  assumes "good_method S m" and "jat m ''supported'' = JBool True"
  shows "\<exists>info. call_setup rid m g = Some info \<and> is_string (i_reply info) \<and> message_type S (i_output info)"
proof -
  obtain reply where r: "jat m ''reply'' = JString reply" "message_type S reply"
    using assms by (auto simp: good_method_def optional_def is_string_conv)
  obtain input cursor stream where "get_string (jat m ''request'') = Some input"
    "value_as get_bool m ''automatic_cursor'' False = Some cursor" "value_as get_bool m ''stream'' False = Some stream"
    using good_methodD(2,7,8) [OF assms(1)] unfolding returns_def by blast
  moreover obtain out where "value_as get_string m ''stream_msg'' reply = Some out" "message_type S out"
    using assms r by (auto simp: good_method_def optional_def value_as_def contains_def jat_def is_string_conv split: option.split_asm)
  ultimately show ?thesis using r by (simp add: call_setup_def)
qed

lemma api_describe_total: "(\<And>k m. (k, m) \<in> set (jmembers (jat S ''methods'')) \<Longrightarrow> good_method S m) \<Longrightarrow>
  returns (api_describe E S rid params v sp d)"
proof -
  assume g: "\<And>k m. (k, m) \<in> set (jmembers (jat S ''methods'')) \<Longrightarrow> good_method S m"
  have D: "returns (Describe E S n)" for n unfolding Describe_def by (rule describe_returns [OF catalog numbers])
  have "returns (describe_method E S m)" if "good_method S m" for m
  proof -
    have "returns (hide_cursor j)" if "Describe E S t = Some j" "get_string (jat m ''request'') = Some t" for t j
      using describe_message [OF catalog numbers _ that(1)] \<open>good_method S m\<close> that(2) by (auto simp: good_method_def get_string_jtext)
    then show ?thesis unfolding describe_method_def
      using good_methodD [OF that] D by (intro return_rules) auto
  qed
  with g contains_member [of "jat S ''methods''"] show ?thesis
    unfolding api_describe_def Let_def by (auto intro!: return_rules)
qed

lemma good_methods: "(k, m) \<in> set (jmembers (jat S ''methods'')) \<Longrightarrow> good_method S m"
  using methods by (auto simp: method_catalog_def list_all_iff)

lemma Vapi_Generic_total:
  assumes "is_string (jat request ''id'')" and "is_string (jat request ''method'')"
  shows "returns (Vapi_Generic E N S V request v sp d)"
proof -
  let ?m = "jat (jat S ''methods'') (jtext (jat request ''method''))"
  have g: "good_method S ?m" if "contains (jat S ''methods'') (jtext (jat request ''method''))"
    using good_methods contains_member [OF that] by blast
  have "\<exists>info. call_setup rid ?m b = Some info \<and> returns (generated_call E N S V info params w sp d)"
    if "contains (jat S ''methods'') (jtext (jat request ''method''))" "value_as get_bool ?m ''supported'' False = Some True" for rid b params w
  proof -
    have "jat ?m ''supported'' = JBool True"
      using that(2) by (auto simp: value_as_def jat_def [of ?m] split: if_split_asm option.split_asm elim: get_bool.elims)
    from call_setup_total [OF g [OF that(1)] this] show ?thesis
      using generated_call_total by blast
  qed
  moreover have "returns (value_as get_bool ?m ''supported'' False)" "returns (value_as get_string ?m ''reason'' s)"
    if "contains (jat S ''methods'') (jtext (jat request ''method''))" for s
    using good_methodD(5,6) [OF g [OF that]] by auto
  moreover have "returns (api_methods E S V rid params v sp d)" for rid params
    by (simp add: api_methods_def case_prod_beta)
  ultimately show ?thesis unfolding Vapi_Generic_def Let_def
    using assms
    by (intro return_rules get_returns)
      (auto simp: get_string_jtext returns_def [of "call_setup _ _ _"] intro: api_describe_total good_methods, (metis option.inject)+)
qed

lemma run_total:
  assumes "is_string (jat request ''id'')" and "is_string (jat request ''method'')"
  shows "returns (RunBackend E (vapi_backend E N S V) v request sp d)"
proof -
  have "returns (Dump V s w)" for s w using Dump_returns [OF clock] by (simp add: returns_def)
  then have "returns (Vapi_List V sink v sp d)" for sink
    unfolding Vapi_List_def Let_def by (auto intro!: return_rules)
  moreover have "returns (dispatch_30s V h f mut s w)" for h :: "event \<Rightarrow> reply_state \<Rightarrow> reply_state" and f mut s w
    using dispatch_30s_returns [OF clock] by (simp add: returns_def)
  then have "returns (send_flags V i up w)" for i up w
    unfolding send_flags_def Let_def by (auto intro!: return_rules)
  then have "returns (Vapi_SetState V name up v)" for name up
    using \<open>\<And>s w. returns (Dump V s w)\<close> unfolding Vapi_SetState_def Let_def by (auto intro!: return_rules)
  ultimately show ?thesis unfolding RunBackend_def vapi_backend_def Let_def
    using assms by (auto intro!: return_rules get_returns Vapi_Generic_total)
qed

end

text \<open>
  C30. The worker always finishes a job on the VAPI backend. On a catalog of the generator's shape, with a
  clock that advances, any request of the journal (with a textual identifier and method) is answered,
  whatever its parameters and whatever VPP does: nothing throws in the worker and no wait is endless.
  With C27, when the result is a success the spool holds a finished response.
\<close>

theorem vapi_always_answers:
  assumes "method_catalog S" and "dumps_numbers E" and "clock_advances V"
    and "is_string (jat request ''id'')" and "is_string (jat request ''method'')"
  shows "\<exists>r v' sp' d'. RunBackend E (vapi_backend E N S V) v request sp d = Some (r, v', sp', d')"
proof -
  have "answering E S V" using assms(1-3) by unfold_locales (auto simp: method_catalog_def)
  from answering.run_total [OF this assms(4,5)] show ?thesis by (metis returnsE surj_pair)
qed

lemma method_catalog_ping: "method_catalog ping_catalog"
proof -
  have "sane_catalog ping_catalog"
    by (simp add: ping_catalog_def sane_catalog_def sane_type_def sane_field_def sane_length_def native_names_def alias_of_def
        schema_eval)
  moreover have "textual_layouts ping_catalog"
    by (simp add: ping_catalog_def textual_layouts_def layout_is_def schema_eval)
  moreover have "list_all (\<lambda>kv. good_type (snd kv)) (jmembers (jat ping_catalog ''types''))"
    by (simp add: ping_catalog_def good_type_def good_field_def sane_field_def sane_length_def schema_eval)
  moreover have "list_all (\<lambda>kv. FixedSize ping_catalog (fst kv) \<noteq> None) (jmembers (jat ping_catalog ''types''))"
    by (simp add: ping_catalog_def schema_eval del: not_None_eq)
  moreover have "list_all (\<lambda>kv. good_method ping_catalog (snd kv)) (jmembers (jat ping_catalog ''methods''))"
    by (simp add: ping_catalog_def good_method_def message_type_def optional_def kTextTypes_def plain_field_def schema_eval)
  ultimately show ?thesis using ping_streams by (auto simp: method_catalog_def codec_catalog_def list_all_iff)
qed

interpretation ping: answering sample_env ping_catalog "timed V" for V
  using method_catalog_ping by unfold_locales (auto simp: method_catalog_def dumps_numbers_sample clock_timed)

definition ping_request :: json where
  "ping_request = JObject [(''id'', JString ''r''), (''method'', JString ''vpp.ping'')]"

text \<open>A generated call, to a VPP that never answers.\<close>

theorem vapi_always_answers_witness:
  "\<exists>r v' sp' d'. RunBackend sample_env (vapi_backend sample_env sample_inet ping_catalog
       (timed (sample_vpp\<lparr>x_dispatch := (\<lambda>x. (Vapi_eagain, [], x))\<rparr>)))
     (MakeVapiBackend (0, 0)) ping_request no_spool clean_disk = Some (r, v', sp', d')"
  by (rule vapi_always_answers [OF ping.methods ping.numbers ping.clock]) (simp_all add: ping_request_def jat_def)

end
