(* ===== verification/Generator.thy ===== *)
theory Generator
  imports Catalog Schema_Size
begin

text \<open>
  The schema generator (\<open>tools/schema_generator.cc\<close>): which methods it supports, and the catalog it
  embeds in the gateway. The C++ text it prints is not modelled, but for the decisions behind it: the
  layout of a reply's tail here, and the callbacks in theory \<open>Vapi\<close>. As in theory \<open>Schema\<close>, \<open>None\<close> is an
  exception and the depth is counted down from 33.
\<close>

subsection \<open>Supported layouts\<close>

fun all_fields :: "(json \<Rightarrow> bool option) \<Rightarrow> json list \<Rightarrow> bool option" where
  "all_fields f [] = Some True"
| "all_fields f (x # xs) = do { b \<leftarrow> f x; if b then all_fields f xs else Some False }"

definition discriminated :: "json \<Rightarrow> bool" where
  "discriminated field \<longleftrightarrow> contains field ''discriminator'' \<or> json_eq (jat field ''type'') (JString ''vl_api_address_union_t'')"

definition supported_field :: "(bool \<Rightarrow> string \<Rightarrow> bool option) \<Rightarrow> json \<Rightarrow> json \<Rightarrow> bool option" where
  "supported_field supported type field =
     (if json_eq (jat type ''kind'') (JString ''union'') \<and> contains field ''length'' then Some False
      else do { t \<leftarrow> get_string (jat field ''type''); supported (discriminated field) t })"

fun supported_at :: "json \<Rightarrow> nat \<Rightarrow> bool \<Rightarrow> string \<Rightarrow> bool option" where
  "supported_at S 0 tagged name = Some False"
| "supported_at S (Suc levels) tagged name = do {
     sz \<leftarrow> FixedSize S name;
     if sz < 0 then Some False
     else case Type S name of
            None \<Rightarrow> Some True
          | Some type \<Rightarrow>
              if json_eq (jat type ''kind'') (JString ''alias'') then do {
                t \<leftarrow> get_string (jat type ''type'');
                supported_at S levels False t }
              else if json_eq (jat type ''kind'') (JString ''union'') \<and> \<not> tagged then Some False
              else all_fields (supported_field (supported_at S levels) type) (jiter (jvalue type ''fields'' (JArray []))) }"

definition Supported :: "json \<Rightarrow> string \<Rightarrow> bool option" where
  "Supported S name = supported_at S 33 False name"

subsection \<open>The tail of a reply\<close>

text \<open>
  The variable part of a reply: \<open>Some None\<close> when there is none, \<open>Some (Some (count, element))\<close> with the C
  expressions for its length and the size of an element, \<open>None\<close> when the layout is not supported.
\<close>

type_synonym tail = "(string \<times> string) option option"

definition variable_part :: "json \<Rightarrow> json \<Rightarrow> string \<Rightarrow> bool option" where
  "variable_part S field child = do {
     n \<leftarrow> value_as get_int32 field ''length'' (- 1);
     variable \<leftarrow> (if n = 0 then Some True else Variable S child);
     m \<leftarrow> (if child = ''string'' then value_as get_int32 field ''length'' 0 else Some 0);
     Some (if 0 < m then False else variable) }"

definition counted_by :: "json list \<Rightarrow> json \<Rightarrow> bool" where
  "counted_by earlier field \<longleftrightarrow>
     list_ex (\<lambda>f. json_eq (jat f ''name'') (jat field ''count'') \<and>
       (json_eq (jat f ''type'') (JString ''u8'') \<or> json_eq (jat f ''type'') (JString ''u16'') \<or>
        json_eq (jat f ''type'') (JString ''u32''))) earlier"

definition tail_field ::
  "json \<Rightarrow> (string \<Rightarrow> string \<Rightarrow> tail option) \<Rightarrow> string \<Rightarrow> json list \<Rightarrow> json \<Rightarrow> bool \<Rightarrow> tail option" where
  "tail_field S reply_tail path earlier field last_one = do {
     child \<leftarrow> get_string (jat field ''type'');
     if \<not> last_one then Some None
     else do {
       name \<leftarrow> get_string (jat field ''name'');
       let member = path @ name;
       if child = ''string'' then Some (Some (Some (member @ ''.length'', ''1'')))
       else if \<not> contains field ''length'' then reply_tail child (member @ ''.'')
       else do {
         variable \<leftarrow> Variable S child;
         if variable \<or> \<not> contains field ''count'' then Some None
         else if counted_by earlier field then do {
           count \<leftarrow> get_string (jat field ''count'');
           Some (Some (Some (path @ count, ''sizeof('' @ member @ ''[0])''))) }
         else Some None } } }"

fun tail_fields ::
  "json \<Rightarrow> (string \<Rightarrow> string \<Rightarrow> tail option) \<Rightarrow> string \<Rightarrow> json list \<Rightarrow> json list \<Rightarrow> tail option" where
  "tail_fields S reply_tail path earlier [] = Some None"
| "tail_fields S reply_tail path earlier (field # rest) = do {
     child \<leftarrow> get_string (jat field ''type'');
     variable \<leftarrow> variable_part S field child;
     if \<not> variable then tail_fields S reply_tail path (earlier @ [field]) rest
     else tail_field S reply_tail path earlier field (rest = []) }"

fun ReplyTail :: "json \<Rightarrow> nat \<Rightarrow> string \<Rightarrow> string \<Rightarrow> tail option" where
  "ReplyTail S 0 name path = Some None"
| "ReplyTail S (Suc levels) name path = do {
     variable \<leftarrow> Variable S name;
     if \<not> variable then Some (Some None)
     else case Type S name of
            None \<Rightarrow> Some None
          | Some type \<Rightarrow>
              if json_eq (jat type ''kind'') (JString ''alias'') \<and> \<not> contains type ''length'' then do {
                t \<leftarrow> get_string (jat type ''type'');
                ReplyTail S levels t path }
              else if \<not> json_eq (jat type ''kind'') (JString ''struct'') then Some None
              else tail_fields S (ReplyTail S levels) path [] (jiter (jat type ''fields'')) }"

definition ReplyLayout :: "json \<Rightarrow> string \<Rightarrow> bool option" where
  "ReplyLayout S name = map_option (\<lambda>tail. tail \<noteq> None) (ReplyTail S 33 name ''reply->'')"

subsection \<open>The catalog of the gateway\<close>

definition kCursorMethod :: string where
  "kCursorMethod = ''sw_interface_tx_placement_get''"

text \<open>Why a method is not supported; the empty text when it is.\<close>

definition unsupported_reason :: "json \<Rightarrow> json \<Rightarrow> string option" where
  "unsupported_reason S m = do {
     request \<leftarrow> get_string (jat m ''request'');
     reply \<leftarrow> value_as get_string m ''reply'' [];
     details \<leftarrow> value_as get_string m ''stream_msg'' [];
     if contains m ''events'' then Some ''Event subscriptions require a subscription adapter''
     else if details \<noteq> [] \<and> request \<noteq> kCursorMethod then
       Some ''Stream continuation policy requires a dedicated adapter''
     else do {
       ok_types \<leftarrow> (if Type S reply = None then Some False
         else do { a \<leftarrow> Supported S request; if a then Supported S reply else Some False });
       if \<not> ok_types then Some ''Unsupported or ambiguous payload layout''
       else do {
         layout \<leftarrow> ReplyLayout S reply;
         ok_details \<leftarrow> (if layout \<and> details \<noteq> [] then do { a \<leftarrow> Supported S details; if a then ReplyLayout S details else Some False }
                       else Some layout);
         Some (if ok_details then [] else ''Nested variable reply layout requires a dedicated adapter'') } } }"

definition annotate_method :: "json \<Rightarrow> json \<Rightarrow> json option" where
  "annotate_method S m = do {
     request \<leftarrow> get_string (jat m ''request'');
     reason \<leftarrow> unsupported_reason S m;
     let m1 = jset (jset m ''supported'' (JBool (reason = []))) ''automatic_cursor'' (JBool (request = kCursorMethod));
     Some (if reason = [] then m1 else jset m1 ''reason'' (JString reason)) }"

fun annotate_methods :: "json \<Rightarrow> (string \<times> json) list \<Rightarrow> (string \<times> json) list option" where
  "annotate_methods S [] = Some []"
| "annotate_methods S ((k, m) # kvs) = do {
     m' \<leftarrow> annotate_method S m;
     rest \<leftarrow> annotate_methods S kvs;
     Some ((k, m') # rest) }"

definition generated_catalog :: "json \<Rightarrow> json option" where
  "generated_catalog S = do {
     ms \<leftarrow> annotate_methods S (jmembers (jat S ''methods''));
     Some (jset S ''methods'' (JObject ms)) }"

text \<open>The name of the module in a path: after the last slash, up to \<open>.api.json\<close>.\<close>

fun before_suffix :: "string \<Rightarrow> string \<Rightarrow> string option" where
  "before_suffix pat [] = (if pat = [] then Some [] else None)"
| "before_suffix pat (c # cs) =
     (if take (length pat) (c # cs) = pat then Some [] else map_option ((#) c) (before_suffix pat cs))"

definition module_of :: "path \<Rightarrow> string option" where
  "module_of p = before_suffix ''.api.json'' (rev (takeWhile (\<lambda>c. c \<noteq> CHR ''/'') (rev p)))"

text \<open>The inputs in order, with the documents read from them; the exit code on failure.\<close>

fun load_inputs :: "(path \<times> json) list \<Rightarrow> json \<Rightarrow> (nat + json) option" where
  "load_inputs [] S = Some (Inr S)"
| "load_inputs ((p, document_json) # rest) S =
     (case module_of p of
        None \<Rightarrow> Some (Inl 2)
      | Some module \<Rightarrow> do {
          (st, S') \<leftarrow> AddModule document_json module S;
          if \<not> st_ok st then Some (Inl 1) else load_inputs rest S' })"

definition generator :: "(path \<times> json) list \<Rightarrow> (nat + json) option" where
  "generator inputs =
     (if inputs = [] then Some (Inl 2)
      else do {
        loaded \<leftarrow> load_inputs inputs empty_catalog;
        (case loaded of Inl code \<Rightarrow> Some (Inl code) | Inr S \<Rightarrow> map_option Inr (generated_catalog S)) })"


subsection \<open>What a supported message is made of\<close>

text \<open>
  A use of a type: its name, and whether the field that uses it selects the member of a union. The types
  that the layout of a use mentions are its parts.
\<close>

type_synonym use = "bool \<times> string"

definition fields_of :: "json \<Rightarrow> json list" where
  "fields_of type = jiter (jvalue type ''fields'' (JArray []))"

definition parts :: "json \<Rightarrow> use \<Rightarrow> use set" where
  "parts S u =
     (case Type S (snd u) of
        None \<Rightarrow> {}
      | Some type \<Rightarrow>
          if json_eq (jat type ''kind'') (JString ''alias'') then {(False, jtext (jat type ''type''))}
          else (\<lambda>field. (discriminated field, jtext (jat field ''type''))) ` set (fields_of type))"

text \<open>A use with a layout that can be converted: of known size, and never a union without a selected member.\<close>

definition sound_use :: "json \<Rightarrow> use \<Rightarrow> bool" where
  "sound_use S u \<longleftrightarrow> (case FixedSize S (snd u) of None \<Rightarrow> False | Some sz \<Rightarrow> 0 \<le> sz) \<and>
     (case Type S (snd u) of
        None \<Rightarrow> True
      | Some type \<Rightarrow>
          if json_eq (jat type ''kind'') (JString ''alias'') then is_string (jat type ''type'')
          else list_all (\<lambda>field. is_string (jat field ''type'')) (fields_of type) \<and>
               (json_eq (jat type ''kind'') (JString ''union'') \<longrightarrow>
                  fst u \<and> list_all (\<lambda>field. \<not> contains field ''length'') (fields_of type)))"

text \<open>Every use within a layout, to the depth at which the generator stops.\<close>

definition nested :: "json \<Rightarrow> nat \<Rightarrow> use \<Rightarrow> use \<Rightarrow> bool" where
  "nested S k = ((\<lambda>u v. v \<in> parts S u) ^^ k)"

lemma nested_0 [simp]: "nested S 0 u v \<longleftrightarrow> u = v"
  by (auto simp: nested_def)

lemma nested_Suc: "nested S (Suc k) u w \<longleftrightarrow> (\<exists>v \<in> parts S u. nested S k v w)"
  by (auto simp: nested_def relpowp_Suc_left simp del: relpowp.simps intro: relcomppI)

lemma get_string_iff: "get_string j = Some s \<longleftrightarrow> is_string j \<and> s = jtext j"
  by (cases j) auto

lemma all_fields_True: "all_fields f xs = Some True \<longleftrightarrow> list_all (\<lambda>x. f x = Some True) xs"
  by (induction xs) (auto simp: Option.bind_eq_Some_conv)

lemma supported_field_True:
  "supported_field supported type field = Some True \<longleftrightarrow>
     \<not> (json_eq (jat type ''kind'') (JString ''union'') \<and> contains field ''length'') \<and> is_string (jat field ''type'') \<and>
     supported (discriminated field) (jtext (jat field ''type'')) = Some True"
  by (auto simp: supported_field_def get_string_iff Option.bind_eq_Some_conv)

lemma supported_at_Suc:
  "supported_at S (Suc n) (fst u) (snd u) = Some True \<longleftrightarrow>
     sound_use S u \<and> (\<forall>v \<in> parts S u. supported_at S n (fst v) (snd v) = Some True)"
proof (cases "\<exists>sz. FixedSize S (snd u) = Some sz \<and> 0 \<le> sz")
  case True
  then obtain sz where sz: "FixedSize S (snd u) = Some sz" "0 \<le> sz" by blast
  show ?thesis
  proof (cases "Type S (snd u)")
    case (Some T)
    show ?thesis
    proof (cases "json_eq (jat T ''kind'') (JString ''alias'')")
      case True
      with sz Some show ?thesis by (auto simp: sound_use_def parts_def get_string_iff Option.bind_eq_Some_conv)
    next
      case False
      with sz Some show ?thesis
        by (simp add: sound_use_def parts_def all_fields_True supported_field_True list_all_iff flip: fields_of_def) blast
    qed
  qed (use sz in \<open>simp add: sound_use_def parts_def\<close>)
qed (auto simp: sound_use_def Option.bind_eq_Some_conv split: option.split_asm if_split_asm)

lemma all_nat_Suc: "(\<forall>k. P k) \<longleftrightarrow> P 0 \<and> (\<forall>k. P (Suc k))"
  by (metis not0_implies_Suc)

lemma supported_at_iff:
  "supported_at S n (fst u) (snd u) = Some True \<longleftrightarrow> (\<forall>k v. nested S k u v \<longrightarrow> k < n \<and> sound_use S v)"
proof (induction n arbitrary: u)
  case 0
  then show ?case by (auto intro: exI [of _ 0])
next
  case (Suc n)
  have "(\<forall>k v. nested S k u v \<longrightarrow> k < Suc n \<and> sound_use S v) \<longleftrightarrow>
      sound_use S u \<and> (\<forall>k. \<forall>v \<in> parts S u. \<forall>w. nested S k v w \<longrightarrow> k < n \<and> sound_use S w)"
    by (subst all_nat_Suc) (auto simp: nested_Suc)
  then show ?case unfolding supported_at_Suc Suc.IH by blast
qed



definition host_api :: json where
  "host_api = JObject [
     (''types'', JArray [JArray [JString ''host'', JArray [JString ''u8'', JString ''af''],
        JArray [JString ''vl_api_host_union_t'', JString ''un'', JObject [(''discriminator'', JString ''af'')]]]]),
     (''unions'', JArray [JArray [JString ''host_union'', JArray [JString ''u32'', JString ''ip4''], JArray [JString ''u64'', JString ''ip6'']]]),
     (''messages'', JArray [
        JArray [JString ''host_add'', JArray [JString ''u32'', JString ''context''], JArray [JString ''vl_api_host_t'', JString ''host''],
          JObject [(''crc'', JString ''0x1234'')]],
        JArray [JString ''host_add_reply'', JArray [JString ''u32'', JString ''context''], JArray [JString ''i32'', JString ''retval''],
          JObject [(''crc'', JString ''0x5678'')]]]),
     (''services'', JObject [(''host_add'', JObject [(''reply'', JString ''host_add_reply'')]),
        (''host_add_reply'', JObject [(''reply'', JString ''null'')])])]"

definition host_methods :: "(string \<times> json) list" where
  "host_methods = [
     (''vpp.host_add'', JObject [(''crc'', JString ''0x1234''), (''module'', JString ''host''),
        (''reply'', JString ''host_add_reply''), (''request'', JString ''host_add'')]),
     (''vpp.host_add_reply'', JObject [(''crc'', JString ''0x5678''), (''module'', JString ''host''),
        (''reply'', JString ''null''), (''request'', JString ''host_add_reply'')])]"

definition host_catalog :: "(string \<times> json) list \<Rightarrow> json" where
  "host_catalog methods = JObject [(''methods'', JObject methods), (''types'', JObject [
     (''host_add'', JObject [(''fields'', JArray [JObject [(''name'', JString ''host''), (''type'', JString ''vl_api_host_t'')]]),
        (''kind'', JString ''struct'')]),
     (''host_add_reply'', JObject [(''fields'', JArray [JObject [(''name'', JString ''retval''), (''type'', JString ''i32'')]]),
        (''kind'', JString ''struct'')]),
     (''vl_api_host_t'', JObject [(''fields'', JArray [JObject [(''name'', JString ''af''), (''type'', JString ''u8'')],
          JObject [(''discriminator'', JString ''af''), (''name'', JString ''un''), (''type'', JString ''vl_api_host_union_t'')]]),
        (''kind'', JString ''struct'')]),
     (''vl_api_host_union_t'', JObject [(''fields'', JArray [JObject [(''name'', JString ''ip4''), (''type'', JString ''u32'')],
          JObject [(''name'', JString ''ip6''), (''type'', JString ''u64'')]]),
        (''kind'', JString ''union'')])])]"

lemma host_loaded: "AddModule host_api ''host'' empty_catalog = Some (Ok, host_catalog host_methods)"
  by code_simp

lemmas supported_numeral [schema_eval] =
  supported_at.simps(2) [where levels = "pred_numeral k" for k, folded numeral_eq_Suc]
  ReplyTail.simps(2) [where levels = "pred_numeral k" for k, folded numeral_eq_Suc]

lemmas [schema_eval] = host_catalog_def value_as_def FixedSize_def Variable_def Supported_def supported_field_def discriminated_def
  field_size_def variable_field_def int64_mult_def to_int32_def jvalue_def

lemma host_supported:
  "Supported (host_catalog ms) ''host_add'' = Some True"
  "Supported (host_catalog ms) ''vl_api_host_union_t'' = Some False"
  by (simp_all add: schema_eval)

lemma host_nested: "nested (host_catalog []) 2 (False, ''host_add'') (True, ''vl_api_host_union_t'')"
  by (simp add: numeral_2_eq_2 nested_Suc parts_def fields_of_def schema_eval)


subsection \<open>The generated catalog\<close>

text \<open>The layout queries only look at the types of a catalog.\<close>

lemma fixed_size_types: "Type S = Type S' \<Longrightarrow> fixed_size S n name = fixed_size S' n name"
proof (induction n arbitrary: name)
  case (Suc n)
  then have eq: "fixed_size S n = fixed_size S' n" by blast
  show ?case unfolding fixed_size.simps Suc.prems eq ..
qed simp

lemma variable_at_types: "Type S = Type S' \<Longrightarrow> variable_at S n name = variable_at S' n name"
proof (induction n arbitrary: name)
  case (Suc n)
  then have eq: "variable_at S n = variable_at S' n" by blast
  show ?case unfolding variable_at.simps Suc.prems eq ..
qed simp

lemma layout_queries_types:
  assumes "Type S = Type S'"
  shows "FixedSize S = FixedSize S'" "Variable S = Variable S'"
  using fixed_size_types [OF assms] variable_at_types [OF assms] by (auto simp: FixedSize_def Variable_def)

lemma Supported_types: "Type S = Type S' \<Longrightarrow> Supported S = Supported S'"
proof -
  assume t: "Type S = Type S'"
  have "supported_at S n = supported_at S' n" for n
  proof (induction n)
    case (Suc n)
    show ?case unfolding fun_eq_iff supported_at.simps Suc layout_queries_types [OF t] t by blast
  qed (simp add: fun_eq_iff)
  then show ?thesis by (simp add: Supported_def fun_eq_iff)
qed

lemma ReplyLayout_types: "Type S = Type S' \<Longrightarrow> ReplyLayout S = ReplyLayout S'"
proof -
  assume t: "Type S = Type S'"
  note q = layout_queries_types [OF t]
  have f: "tail_field S = tail_field S'" "variable_part S = variable_part S'"
    unfolding fun_eq_iff tail_field_def variable_part_def q by blast+
  have "tail_fields S r p e fs = tail_fields S' r p e fs" for r p e fs
  proof (induction fs arbitrary: e)
    case (Cons g fs)
    show ?case unfolding tail_fields.simps f Cons ..
  qed simp
  then have fs: "tail_fields S = tail_fields S'" by (intro ext)
  have "ReplyTail S n = ReplyTail S' n" for n
  proof (induction n)
    case (Suc n)
    show ?case unfolding fun_eq_iff ReplyTail.simps Suc q t fs by blast
  qed (simp add: fun_eq_iff)
  then show ?thesis by (simp add: ReplyLayout_def fun_eq_iff)
qed


lemma Type_methods: "is_object S \<Longrightarrow> Type (jset S ''methods'' ms) = Type S"
  by (auto simp: Type_def fun_eq_iff json_simps)

text \<open>What the marks of a method mean.\<close>

definition supported_method :: "json \<Rightarrow> json \<Rightarrow> bool" where
  "supported_method S m \<longleftrightarrow> \<not> contains m ''events'' \<and>
     (\<exists>request reply details.
        jat m ''request'' = JString request \<and> value_as get_string m ''reply'' [] = Some reply \<and>
        value_as get_string m ''stream_msg'' [] = Some details \<and>
        Type S reply \<noteq> None \<and> Supported S request = Some True \<and> Supported S reply = Some True \<and> ReplyLayout S reply = Some True \<and>
        (details \<noteq> [] \<longrightarrow> jat m ''automatic_cursor'' = JBool True \<and> request = kCursorMethod \<and>
           Supported S details = Some True \<and> ReplyLayout S details = Some True))"

definition marked_method :: "json \<Rightarrow> json \<Rightarrow> bool" where
  "marked_method S m \<longleftrightarrow>
     jat m ''supported'' = JBool True \<and> supported_method S m \<or>
     jat m ''supported'' = JBool False \<and> (\<exists>reason. reason \<noteq> [] \<and> jat m ''reason'' = JString reason)"

lemma value_as_jset: "is_object m \<Longrightarrow> k \<noteq> l \<Longrightarrow> value_as get (jset m k v) l d = value_as get m l d"
  by (cases m) (auto simp: value_as_def json_simps)

lemma unsupported_reason_empty:
  assumes "unsupported_reason S m = Some []"
  shows "\<exists>request reply details. get_string (jat m ''request'') = Some request \<and> value_as get_string m ''reply'' [] = Some reply \<and>
    value_as get_string m ''stream_msg'' [] = Some details \<and> \<not> contains m ''events'' \<and> (details \<noteq> [] \<longrightarrow> request = kCursorMethod) \<and>
    Type S reply \<noteq> None \<and> Supported S request = Some True \<and> Supported S reply = Some True \<and> ReplyLayout S reply = Some True \<and>
    (details \<noteq> [] \<longrightarrow> Supported S details = Some True \<and> ReplyLayout S details = Some True)"
  using assms by (auto simp: unsupported_reason_def Option.bind_eq_Some_conv split: if_split_asm)

lemma annotate_method_marked:
  assumes "annotate_method S m = Some m'" and "is_object m" and "Type S' = Type S"
  shows "marked_method S' m' \<and> is_object m' \<and> jat m' ''request'' = jat m ''request'' \<and> jat m' ''module'' = jat m ''module''"
proof -
  obtain request reason where r: "get_string (jat m ''request'') = Some request" "unsupported_reason S m = Some reason"
    and m': "m' = (let m1 = jset (jset m ''supported'' (JBool (reason = []))) ''automatic_cursor'' (JBool (request = kCursorMethod))
      in if reason = [] then m1 else jset m1 ''reason'' (JString reason))"
    using assms(1) by (auto simp: annotate_method_def Option.bind_eq_Some_conv Let_def)
  have keeps: "is_object m'" "jat m' ''request'' = jat m ''request''" "jat m' ''module'' = jat m ''module''"
    "jat m' ''supported'' = JBool (reason = [])" "reason \<noteq> [] \<Longrightarrow> jat m' ''reason'' = JString reason"
    "jat m' ''automatic_cursor'' = JBool (request = kCursorMethod)" "contains m' ''events'' = contains m ''events''"
    "value_as get_string m' ''reply'' [] = value_as get_string m ''reply'' []"
    "value_as get_string m' ''stream_msg'' [] = value_as get_string m ''stream_msg'' []"
    using assms(2) by (auto simp: m' Let_def json_simps value_as_jset)
  have "supported_method S' m'" if "reason = []"
    using unsupported_reason_empty [of S m] r that keeps assms(3)
    by (auto simp: supported_method_def Supported_types [OF assms(3)] ReplyLayout_types [OF assms(3)] get_string_iff)
       (auto simp: is_string_conv)
  then show ?thesis using keeps by (cases "reason = []") (auto simp: marked_method_def)
qed


lemma annotate_methods_member:
  "annotate_methods S kvs = Some kvs' \<Longrightarrow> map_of kvs' k = Some m' \<Longrightarrow>
     \<exists>m. map_of kvs k = Some m \<and> annotate_method S m = Some m'"
  by (induction kvs arbitrary: kvs') (auto simp: Option.bind_eq_Some_conv split: if_split_asm)

lemma safe_method_object: "safe_method name m \<Longrightarrow> is_object m"
  by (cases m) (auto simp: safe_method_def jat_def)

lemma load_inputs_safe:
  "load_inputs inputs S = Some (Inr S') \<Longrightarrow> safe_catalog S \<Longrightarrow> safe_catalog S'"
proof (induction inputs arbitrary: S)
  case (Cons input inputs)
  then show ?case
    by (cases input) (fastforce simp: Option.bind_eq_Some_conv grows_def split: option.split_asm if_split_asm dest: grows_AddModule)
qed simp

lemma generated_catalog_marked:
  assumes "generated_catalog S = Some S'" and "safe_catalog S"
  shows "safe_catalog S' \<and> (\<forall>name m. methods_of S' name = Some m \<longrightarrow> marked_method S' m)"
proof -
  obtain ms where ms: "annotate_methods S (jmembers (jat S ''methods'')) = Some ms" "S' = jset S ''methods'' (JObject ms)"
    using assms(1) by (auto simp: generated_catalog_def Option.bind_eq_Some_conv)
  have o: "is_object S" and safe: "\<And>name m. methods_of S name = Some m \<Longrightarrow> safe_method name m"
    using assms(2) by (auto simp: safe_catalog_def)
  have t: "Type S' = Type S" using Type_methods [OF o] by (simp add: ms(2))
  have "safe_method name m' \<and> marked_method S' m'" if in_ms: "map_of ms name = Some m'" for name m'
  proof -
    obtain m where m: "methods_of S name = Some m" "annotate_method S m = Some m'"
      using annotate_methods_member [OF ms(1) in_ms] by blast
    with annotate_method_marked [OF m(2) safe_method_object [OF safe [OF m(1)]] t] safe [OF m(1)] show ?thesis
      by (simp add: safe_method_def)
  qed
  then show ?thesis using assms(2) o unfolding safe_catalog_def by (auto simp: ms(2) json_simps)
qed


lemma host_generated:
  "\<exists>m m'. generator [(''vpp/host.api.json'', host_api)] =
     Some (Inr (host_catalog [(''vpp.host_add'', m), (''vpp.host_add_reply'', m')])) \<and>
     jat m ''supported'' = JBool True \<and> jat m' ''supported'' = JBool False"
proof -
  have m: "module_of ''vpp/host.api.json'' = Some ''host''" by code_simp
  show ?thesis
    by (simp add: generator_def m host_loaded host_methods_def generated_catalog_def annotate_method_def unsupported_reason_def
      ReplyLayout_def kCursorMethod_def schema_eval)
qed


end
