(* ===== verification/Emit.thy ===== *)
theory Emit
  imports Generator
begin

text \<open>
  The program that the schema generator prints (\<open>tools/schema_generator.cc\<close>): for every supported method
  a function that asks whether VPP knows its messages, one or two callbacks and a function that sends the
  request, then the table of bindings and the catalog as a string literal. What the callbacks do is
  modelled in theory \<open>Vapi\<close>; here is their text. As in theory \<open>Generator\<close>, \<open>None\<close> is an exception.
\<close>

subsection \<open>Callbacks\<close>

definition nl :: string where
  "nl = [CHR 0x0A]"

definition dq :: string where
  "dq = [CHR 0x22]"

definition callback_head :: "string \<Rightarrow> string \<Rightarrow> string \<Rightarrow> string" where
  "callback_head function reply size_text =
     ''vapi_error_e '' @ function @ ''(vapi_ctx_t, void* opaque, vapi_error_e rc, bool last, vapi_payload_'' @
     reply @ ''* reply) {'' @ nl @ '' auto* state = static_cast<GeneratedCall*>(opaque);'' @ nl @
     '' if (rc != VAPI_OK) { state->error = rc; state->done = true; return VAPI_OK; }'' @ nl @ '' if (reply) {'' @
     nl @ '' static_assert(sizeof('' @ ''*reply) == '' @ size_text @ '', '' @ dq @
     ''Schema/native reply layout mismatch'' @ dq @ '');'' @ nl @ '' size_t size = sizeof('' @ ''*reply);'' @ nl"

definition callback_tail :: "string \<Rightarrow> string \<Rightarrow> string" where
  "callback_tail count element =
     '' const uint64_t count = '' @ count @ '';'' @ nl @ '' constexpr size_t element = '' @ element @ '';'' @ nl @
     '' if (size > Limits::kNativePayloadBytes || count > (Limits::kNativePayloadBytes - size) / element) { state->status = {'' @
     dq @ ''payload_too_large'' @ dq @ '', '' @ dq @ ''Native reply exceeds 1 MiB'' @ dq @
     ''}; } else { size += count * element; }'' @ nl"

text \<open>The return value of the call, when the reply has one.\<close>

definition callback_retval :: "json \<Rightarrow> string" where
  "callback_retval field =
     (if json_eq (jat field ''name'') (JString ''retval'') \<and> json_eq (jat field ''type'') (JString ''i32'')
      then '' state->retval = reply->retval;'' @ nl else [])"

definition callback_store :: "bool \<Rightarrow> string" where
  "callback_store items =
     '' if (state->status.ok()) { const auto* data = reinterpret_cast<const uint8_t*>(reply);'' @ nl @
     (if items then '' state->item({data, size});'' @ nl
      else '' state->reply.assign(data, data + size);'' @ nl) @
     '' } }'' @ nl"

definition callback_end :: "bool \<Rightarrow> string" where
  "callback_end completes =
     (if completes then '' if (last) state->done = true;'' @ nl else '' (void)last;'' @ nl) @
     '' return VAPI_OK;'' @ nl @ ''}'' @ nl"

definition Callback :: "json \<Rightarrow> string \<Rightarrow> string \<Rightarrow> bool \<Rightarrow> bool \<Rightarrow> string option" where
  "Callback S function reply items completes = do {
     sz \<leftarrow> FixedSize S reply;
     variable \<leftarrow> Variable S reply;
     tail_text \<leftarrow> (if \<not> variable then Some []
       else do {
         tail \<leftarrow> ReplyTail S 33 reply ''reply->'';
         Some (case tail of Some (Some (count, element)) \<Rightarrow> callback_tail count element | _ \<Rightarrow> callback_tail [] []) });
     type \<leftarrow> Type S reply;
     Some (callback_head function reply (int_to_string sz) @ tail_text @
       concat (map callback_retval (jiter (jat type ''fields''))) @ callback_store items @ callback_end completes) }"

subsection \<open>Methods\<close>

definition available_text :: "string \<Rightarrow> string \<Rightarrow> string \<Rightarrow> string" where
  "available_text request reply details =
     ''bool Available_'' @ request @ ''(vapi_ctx_t ctx) { return vapi_is_msg_available(ctx, vapi_msg_id_'' @
     request @ '') && vapi_is_msg_available(ctx, vapi_msg_id_'' @ reply @ '')'' @
     (if details = [] then [] else '' && vapi_is_msg_available(ctx, vapi_msg_id_'' @ details @ '')'') @ ''; }'' @
     nl"

definition payload_text :: "string option \<Rightarrow> string" where
  "payload_text sz =
     (case sz of
        Some n \<Rightarrow> '' constexpr size_t header = offsetof(Message, payload);'' @ nl @
            '' static_assert(sizeof(((Message*'' @ '')nullptr)->payload) == '' @ n @ '', '' @ dq @
            ''Schema/native request layout mismatch'' @ dq @ '');'' @ nl
      | None \<Rightarrow> '' constexpr size_t header = sizeof(Message);'' @ nl)"

definition send_text :: "string \<Rightarrow> string \<Rightarrow> string option \<Rightarrow> string" where
  "send_text request details sz =
     ''vapi_error_e Send_'' @ request @
     ''(vapi_ctx_t ctx, std::span<const uint8_t> bytes, GeneratedCall* state) {'' @ nl @
     '' using Message = vapi_msg_'' @ request @ '';'' @ nl @ payload_text sz @
     '' auto* msg = static_cast<Message*>(vapi_msg_alloc(ctx, header + bytes.size()));'' @ nl @
     '' if (!msg) return VAPI_ENOMEM;'' @ nl @ '' msg->header.client_index = vapi_get_client_index(ctx);'' @ nl @
     '' msg->header.context = 0;'' @ nl @ '' msg->header._vl_msg_id = vapi_lookup_vl_msg_id(ctx, vapi_msg_id_'' @
     request @ '');'' @ nl @
     '' if (!bytes.empty()) std::memcpy(reinterpret_cast<uint8_t*>(msg) + header, bytes.data(), bytes.size());'' @
     nl @ '' auto rc = vapi_'' @ request @ ''(ctx, msg, Reply_'' @ request @ '', state'' @
     (if details = [] then [] else '', Details_'' @ request @ '', state'') @ '');'' @ nl @
     '' if (rc != VAPI_OK) vapi_msg_free(ctx, msg);'' @ nl @ '' return rc;'' @ nl @ ''}'' @ nl"

definition method_text :: "json \<Rightarrow> json \<Rightarrow> string option" where
  "method_text S m = do {
     request \<leftarrow> get_string (jat m ''request'');
     reply \<leftarrow> value_as get_string m ''reply'' [];
     details \<leftarrow> value_as get_string m ''stream_msg'' [];
     stream \<leftarrow> value_as get_bool m ''stream'' False;
     type \<leftarrow> Type S request;
     on_reply \<leftarrow> Callback S (''Reply_'' @ request) reply (stream \<and> details = []) True;
     on_details \<leftarrow> (if details = [] then Some [] else Callback S (''Details_'' @ request) details True False);
     sz \<leftarrow> (if jsize (jat type ''fields'') = 0 then Some None
            else map_option (\<lambda>n. Some (int_to_string n)) (FixedSize S request));
     Some (available_text request reply details @ on_reply @ on_details @ send_text request details sz) }"

text \<open>The loop over the methods: the text, and the names of the supported ones.\<close>

fun emit_methods :: "json \<Rightarrow> (string \<times> json) list \<Rightarrow> (string \<times> string list) option" where
  "emit_methods S [] = Some ([], [])"
| "emit_methods S ((k, m) # kvs) = do {
     reason \<leftarrow> unsupported_reason S m;
     if reason \<noteq> [] then emit_methods S kvs
     else do {
       request \<leftarrow> get_string (jat m ''request'');
       body \<leftarrow> method_text S m;
       (rest, names) \<leftarrow> emit_methods S kvs;
       Some (body @ rest, request # names) } }"

subsection \<open>The file\<close>

definition file_head :: string where
  "file_head =
     ''// Copyright 2026 David Cornejo'' @ nl @ ''// SPDX-License-Identifier: Apache-2.0'' @ nl @
     ''// Generated from VPP API schemas. Do not edit.'' @ nl @ ''#include <cstring>'' @ nl @
     ''#include <cstddef>'' @ nl @ ''#include '' @ dq @ ''src/generated_api.h'' @ dq @ nl"

text \<open>A \<open>std::set\<close> of the modules, in order.\<close>

definition modules_of :: "(path \<times> json) list \<Rightarrow> string list" where
  "modules_of inputs = remdups (sort (List.map_filter (\<lambda>input. module_of (fst input)) inputs))"

definition include_line :: "string \<Rightarrow> string" where
  "include_line module = ''#include <vapi/'' @ module @ ''.api.vapi.h>'' @ nl"

definition to_upper :: "char \<Rightarrow> char" where
  "to_upper c = (if CHR ''a'' \<le> c \<and> c \<le> CHR ''z'' then char_of ((of_char c :: nat) - 32) else c)"

definition ids_line :: "string \<Rightarrow> string" where
  "ids_line module = ''DEFINE_VAPI_MSG_IDS_'' @ map to_upper module @ ''_API_JSON;'' @ nl"

definition bindings_head :: string where
  "bindings_head =
     ''}  // namespace'' @ nl @ ''const std::vector<GeneratedBinding>& GeneratedBindings() {'' @ nl @
     '' static const std::vector<GeneratedBinding> bindings = {'' @ nl"

definition binding_row :: "string \<Rightarrow> string" where
  "binding_row name = ''{'' @ dq @ ''vpp.'' @ name @ dq @ '', Available_'' @ name @ '', Send_'' @ name @ ''},'' @ nl"

definition catalog_text :: "string \<Rightarrow> string" where
  "catalog_text literal =
     ''};'' @ nl @ '' return bindings;'' @ nl @ ''}'' @ nl @ ''Schema GeneratedSchema() {'' @ nl @
     '' Schema schema;'' @ nl @ '' schema.Load(Json::parse('' @ literal @ ''));'' @ nl @ '' return schema;'' @
     nl @ ''}'' @ nl @ ''}  // namespace vpp_json'' @ nl"

definition program_text :: "env \<Rightarrow> string list \<Rightarrow> json \<Rightarrow> string option" where
  "program_text E modules S = do {
     (bodies, names) \<leftarrow> emit_methods S (jmembers (jat S ''methods''));
     catalog \<leftarrow> generated_catalog S;
     t \<leftarrow> dump E catalog;
     literal \<leftarrow> dump E (JString t);
     Some (file_head @ concat (map include_line modules) @ concat (map ids_line modules) @
       ''namespace vpp_json {'' @ nl @ ''namespace {'' @ nl @ bodies @
       bindings_head @ concat (map binding_row names) @ catalog_text literal) }"

text \<open>\<open>main\<close>: the exit code, and what is printed; \<open>good\<close> tells whether the output file could be written.\<close>

definition generator_main :: "env \<Rightarrow> bool \<Rightarrow> (path \<times> json) list \<Rightarrow> (nat \<times> string) option" where
  "generator_main E good inputs =
     (if inputs = [] then Some (2, [])
      else do {
        loaded \<leftarrow> load_inputs inputs empty_catalog;
        (case loaded of
           Inl code \<Rightarrow> Some (code, [])
         | Inr S \<Rightarrow> map_option (\<lambda>t. (if good then 0 else 1, t)) (program_text E (modules_of inputs) S)) })"

subsection \<open>The methods of a catalog are a map\<close>

definition method_map :: "json \<Rightarrow> bool" where
  "method_map S \<longleftrightarrow> is_object S \<and> is_object (jat S ''methods'') \<and> keys_sorted (jmembers (jat S ''methods''))"

interpretation mapping: catalog_relation "\<lambda>S S'. method_map S \<longrightarrow> method_map S'"
  by unfold_locales auto

lemma map_add_type: "add_type name T S = Some (st, S') \<Longrightarrow> method_map S \<Longrightarrow> method_map S'"
  by (auto simp: add_type_def method_map_def json_simps split: if_split_asm)

lemma map_adds:
  "mapping.within (add_layout category raw)" "mapping.within (add_enum category raw)" "mapping.within (add_alias kv)"
  "mapping.within (add_service messages module kv)"
proof -
  show "mapping.within (add_layout category raw)" "mapping.within (add_enum category raw)" "mapping.within (add_alias kv)"
    using map_add_type
    by (auto simp: mapping.within_def add_layout_def add_enum_def add_alias_def Let_def Option.bind_eq_Some_conv split: if_split_asm)
  show "mapping.within (add_service messages module kv)"
    unfolding mapping.within_def
    by (auto simp: add_service_def method_map_def Option.bind_eq_Some_conv json_simps split: if_split_asm)
qed

lemma map_AddModule: "AddModule document_json module S = Some (st, S') \<Longrightarrow> method_map S \<Longrightarrow> method_map S'"
  unfolding AddModule_def
  by (auto split: if_split_asm dest!: mapping.withinD [rotated]
      intro!: mapping.within_both mapping.within_until map_adds)

lemma load_inputs_map: "load_inputs inputs S = Some (Inr S') \<Longrightarrow> method_map S \<Longrightarrow> method_map S'"
proof (induction inputs arbitrary: S)
  case (Cons input inputs)
  then show ?case
    by (cases input) (fastforce simp: Option.bind_eq_Some_conv split: option.split_asm if_split_asm dest: map_AddModule)
qed simp

subsection \<open>What the text defines\<close>

text \<open>The functions that a binding needs are in the text; for an explicit stream also the second callback.\<close>

definition body_defines :: "json \<Rightarrow> string \<Rightarrow> string \<Rightarrow> bool" where
  "body_defines m name body \<longleftrightarrow>
     sublist (''bool Available_'' @ name @ ''('') body \<and> sublist (''vapi_error_e Reply_'' @ name @ ''('') body \<and>
     sublist (''vapi_error_e Send_'' @ name @ ''('') body \<and>
     (value_as get_string m ''stream_msg'' [] \<noteq> Some [] \<longrightarrow> sublist (''vapi_error_e Details_'' @ name @ ''('') body)"

lemma prefix_text: "prefix xs (xs @ ys)" "prefix ys zs \<Longrightarrow> prefix (xs @ ys) (xs @ zs)"
  by simp_all

lemma Callback_prefix:
  assumes "Callback S function reply items completes = Some body"
  shows "prefix (''vapi_error_e '' @ function @ ''('') body"
proof -
  obtain sz rest where "body = callback_head function reply sz @ rest"
    using assms by (auto simp: Callback_def Option.bind_eq_Some_conv)
  moreover have "prefix (''vapi_error_e '' @ function @ ''('') (callback_head function reply sz)" for sz
    unfolding callback_head_def by (simp add: prefix_def)
  ultimately show ?thesis by (simp only: prefix_prefix)
qed

lemma sublist_of: "prefix xs ys \<Longrightarrow> sublist xs (us @ ys @ vs)"
  by (auto simp: prefix_def sublist_def) (metis append.assoc)

lemma method_text_defines:
  assumes "method_text S m = Some body" and "get_string (jat m ''request'') = Some request"
  shows "body_defines m request body"
proof -
  obtain reply details stream on_reply on_details sz where e: "value_as get_string m ''stream_msg'' [] = Some details"
    "Callback S (''Reply_'' @ request) reply stream True = Some on_reply"
    "(if details = [] then Some [] else Callback S (''Details_'' @ request) details True False) = Some on_details"
    "body = available_text request reply details @ on_reply @ on_details @ send_text request details sz"
    using assms unfolding method_text_def Option.bind_eq_Some_conv by (simp only: option.inject) blast
  have b: "value_as get_string m ''stream_msg'' [] = Some details"
    "body = available_text request reply details @ on_reply @ on_details @ send_text request details sz"
    "prefix (''vapi_error_e Reply_'' @ request @ ''('') on_reply"
    "details = [] \<or> prefix (''vapi_error_e Details_'' @ request @ ''('') on_details"
    using e Callback_prefix [OF e(2)] Callback_prefix [of S "''Details_'' @ request" details True False on_details]
    by (auto split: if_split_asm)
  have "prefix (''bool Available_'' @ request @ ''('') (available_text request reply details)"
    unfolding available_text_def by (simp add: prefix_def)
  moreover have "prefix (''vapi_error_e Send_'' @ request @ ''('') (send_text request details sz)"
    unfolding send_text_def by (simp add: prefix_def)
  ultimately show ?thesis
    using sublist_of [of _ "available_text request reply details" "[]"] sublist_of [OF b(3), of "available_text request reply details"]
      sublist_of [of _ on_details "available_text request reply details @ on_reply"]
      sublist_of [of _ "send_text request details sz" "available_text request reply details @ on_reply @ on_details" "[]"] b(1,4)
    unfolding body_defines_def b(2) by auto
qed

definition public_name :: "string \<Rightarrow> string" where
  "public_name name = ''vpp.'' @ name"

lemma emit_methods_bodies:
  assumes "emit_methods S kvs = Some (t, names)" and "\<forall>(k, m) \<in> set kvs. safe_method k m"
  shows "\<exists>bodies. t = concat bodies \<and>
    list_all2 (\<lambda>name body. \<exists>m. (public_name name, m) \<in> set kvs \<and> unsupported_reason S m = Some [] \<and> body_defines m name body) names bodies \<and>
    map public_name names = map fst (filter (\<lambda>(k, m). unsupported_reason S m = Some []) kvs)"
  using assms
proof (induction kvs arbitrary: t names)
  case (Cons kv kvs)
  obtain k m where kv: "kv = (k, m)" by force
  obtain reason where r: "unsupported_reason S m = Some reason" using Cons.prems(1) by (auto simp: kv Option.bind_eq_Some_conv)
  have safe: "\<forall>(k, m) \<in> set kvs. safe_method k m" using Cons.prems(2) by simp
  let ?P = "\<lambda>kvs name body. \<exists>m. (public_name name, m) \<in> set kvs \<and> unsupported_reason S m = Some [] \<and> body_defines m name body"
  show ?case
  proof (cases "reason = []")
    case False
    then have "emit_methods S kvs = Some (t, names)" using Cons.prems(1) r by (simp add: kv)
    then obtain bodies where b: "t = concat bodies" "list_all2 (?P kvs) names bodies"
      "map public_name names = map fst (filter (\<lambda>(k, m). unsupported_reason S m = Some []) kvs)"
      using Cons.IH [OF _ safe] by blast
    have "list_all2 (?P (kv # kvs)) names bodies" using list_all2_mono [OF b(2), of "?P (kv # kvs)"] by fastforce
    then show ?thesis using False r b by (intro exI [of _ bodies]) (simp add: kv)
  next
    case True
    then obtain request body rest ns where e: "get_string (jat m ''request'') = Some request" "method_text S m = Some body"
      "emit_methods S kvs = Some (rest, ns)" "t = body @ rest" "names = request # ns"
      using Cons.prems(1) r by (auto simp: kv Option.bind_eq_Some_conv)
    obtain bodies where b: "rest = concat bodies" "list_all2 (?P kvs) ns bodies"
      "map public_name ns = map fst (filter (\<lambda>(k, m). unsupported_reason S m = Some []) kvs)"
      using Cons.IH [OF e(3) safe] by blast
    have k: "k = public_name request" using Cons.prems(2) e(1) by (auto simp: kv safe_method_def public_name_def)
    have "list_all2 (?P (kv # kvs)) ns bodies" using list_all2_mono [OF b(2), of "?P (kv # kvs)"] by fastforce
    then show ?thesis using True r e b k method_text_defines [OF e(2,1)]
      by (intro exI [of _ "body # bodies"]) (auto simp: kv)
  qed
qed simp

lemma kept_keys: "k \<in> fst ` set (filter (\<lambda>(k, m). P m) kvs) \<longleftrightarrow> (\<exists>m. (k, m) \<in> set kvs \<and> P m)"
  by force

lemma annotated_keys: "annotate_methods S kvs = Some kvs' \<Longrightarrow> map fst kvs' = map fst kvs"
  by (induction kvs arbitrary: kvs') (auto simp: Option.bind_eq_Some_conv)

lemma annotated_member:
  "annotate_methods S kvs = Some kvs' \<Longrightarrow> (k, m) \<in> set kvs \<Longrightarrow> \<exists>m'. (k, m') \<in> set kvs' \<and> annotate_method S m = Some m'"
  by (induction kvs arbitrary: kvs') (auto simp: Option.bind_eq_Some_conv)

lemma annotated_supported:
  assumes "annotate_method S m = Some m'" and "is_object m"
  shows "jat m' ''supported'' = JBool (unsupported_reason S m = Some [])"
    and "value_as get_string m' ''stream_msg'' [] = value_as get_string m ''stream_msg'' []"
proof -
  obtain request reason where r: "unsupported_reason S m = Some reason"
    and m': "m' = (let m1 = jset (jset m ''supported'' (JBool (reason = []))) ''automatic_cursor'' (JBool (request = kCursorMethod))
      in if reason = [] then m1 else jset m1 ''reason'' (JString reason))"
    using assms(1) by (auto simp: annotate_method_def Option.bind_eq_Some_conv Let_def)
  show "jat m' ''supported'' = JBool (unsupported_reason S m = Some [])"
    "value_as get_string m' ''stream_msg'' [] = value_as get_string m ''stream_msg'' []"
    using assms(2) r by (auto simp: m' Let_def json_simps value_as_jset)
qed

lemma generated_methods:
  assumes "generated_catalog S0 = Some S" and "safe_catalog S0" and "method_map S0"
  shows "methods_of S name = Some m' \<longleftrightarrow> (\<exists>m. (name, m) \<in> set (jmembers (jat S0 ''methods'')) \<and> annotate_method S0 m = Some m')"
    and "\<forall>(k, m) \<in> set (jmembers (jat S0 ''methods'')). safe_method k m"
proof -
  let ?kvs = "jmembers (jat S0 ''methods'')"
  obtain ms where ms: "annotate_methods S0 ?kvs = Some ms" "S = jset S0 ''methods'' (JObject ms)"
    using assms(1) by (auto simp: generated_catalog_def Option.bind_eq_Some_conv)
  have at: "methods_of S = map_of ms" using assms(3) by (simp add: ms(2) method_map_def json_simps)
  have d: "distinct (map fst ?kvs)" using assms(3) by (simp add: method_map_def keys_sorted_distinct)
  then have d': "distinct (map fst ms)" using annotated_keys [OF ms(1)] by simp
  show "methods_of S name = Some m' \<longleftrightarrow> (\<exists>m. (name, m) \<in> set ?kvs \<and> annotate_method S0 m = Some m')"
  proof
    assume "methods_of S name = Some m'"
    then show "\<exists>m. (name, m) \<in> set ?kvs \<and> annotate_method S0 m = Some m'"
      using annotate_methods_member [OF ms(1)] at map_of_SomeD by fastforce
  next
    assume "\<exists>m. (name, m) \<in> set ?kvs \<and> annotate_method S0 m = Some m'"
    then have "(name, m') \<in> set ms" using annotated_member [OF ms(1)] by fastforce
    then show "methods_of S name = Some m'" using d' by (simp add: at)
  qed
  show "\<forall>(k, m) \<in> set ?kvs. safe_method k m"
    using assms(2) d by (auto simp: safe_catalog_def)
qed

text \<open>The marks of the embedded catalog, and the names of the supported methods.\<close>

lemma generated_mark:
  assumes "generated_catalog S0 = Some S" and "safe_catalog S0" and "method_map S0" and m: "(k, m) \<in> set (jmembers (jat S0 ''methods''))"
  shows "\<exists>m'. methods_of S k = Some m' \<and> jat m' ''supported'' = JBool (unsupported_reason S0 m = Some []) \<and>
    (body_defines m name body \<longrightarrow> body_defines m' name body)"
proof -
  note gm = generated_methods [OF assms(1-3)]
  have obj: "is_object m" using gm(2) m safe_method_object by blast
  obtain ms where ms: "annotate_methods S0 (jmembers (jat S0 ''methods'')) = Some ms"
    using assms(1) by (auto simp: generated_catalog_def Option.bind_eq_Some_conv)
  obtain m' where m': "annotate_method S0 m = Some m'" using annotated_member [OF ms m] by blast
  then show ?thesis using gm(1) m annotated_supported [OF m' obj] by (auto simp: body_defines_def)
qed

lemma supported_names:
  assumes "generated_catalog S0 = Some S" and "safe_catalog S0" and "method_map S0"
  shows "(\<exists>m. (k, m) \<in> set (jmembers (jat S0 ''methods'')) \<and> unsupported_reason S0 m = Some []) \<longleftrightarrow>
    (\<exists>m. methods_of S k = Some m \<and> jat m ''supported'' = JBool True)"
    (is "?here \<longleftrightarrow> ?there")
proof
  assume ?here
  then obtain m where m: "(k, m) \<in> set (jmembers (jat S0 ''methods''))" "unsupported_reason S0 m = Some []" by blast
  show ?there using generated_mark [OF assms m(1)] m(2) by auto
next
  note gm = generated_methods [OF assms]
  assume ?there
  then obtain m' where m': "methods_of S k = Some m'" "jat m' ''supported'' = JBool True" by blast
  then obtain m where m: "(k, m) \<in> set (jmembers (jat S0 ''methods''))" "annotate_method S0 m = Some m'" using gm(1) by blast
  then have "is_object m" using gm(2) safe_method_object by blast
  from annotated_supported(1) [OF m(2) this] m m'(2) show ?here by auto
qed

text \<open>
  C15. The program that the generator prints binds exactly the supported methods. Its table of bindings
  has one row for each method that the embedded catalog marks as supported, and no other; the names are
  plain identifiers, no two are equal; every function a row refers to, and every callback the
  functions refer to, is defined in the text before it; and the catalog is the one the gateway loads.
\<close>

theorem generated_program:
  assumes "generator_main E good inputs = Some (code, t)" and "generator inputs = Some (Inr S)"
  shows "\<exists>names bodies catalog literal.
    t = file_head @ concat (map include_line (modules_of inputs)) @ concat (map ids_line (modules_of inputs)) @
      ''namespace vpp_json {'' @ nl @ ''namespace {'' @ nl @ concat bodies @
      bindings_head @ concat (map binding_row names) @ catalog_text literal \<and>
    dump E S = Some catalog \<and> dump E (JString catalog) = Some literal \<and>
    distinct names \<and> list_all Identifier names \<and>
    (\<forall>name. name \<in> set names \<longleftrightarrow> (\<exists>m. methods_of S (public_name name) = Some m \<and> jat m ''supported'' = JBool True)) \<and>
    list_all2 (\<lambda>name body. \<exists>m. methods_of S (public_name name) = Some m \<and> body_defines m name body) names bodies"
proof -
  obtain r where r: "load_inputs inputs empty_catalog = Some r" "inputs \<noteq> []"
    "(case r of Inl code \<Rightarrow> Some (Inl code) | Inr S0 \<Rightarrow> map_option Inr (generated_catalog S0)) = Some (Inr S)"
    using assms(2) by (auto simp: generator_def Option.bind_eq_Some_conv split: if_split_asm)
  then obtain S0 where S0: "load_inputs inputs empty_catalog = Some (Inr S0)" "generated_catalog S0 = Some S" "inputs \<noteq> []"
    by (cases r) auto
  let ?kvs = "jmembers (jat S0 ''methods'')"
  have safe: "safe_catalog S0" by (rule load_inputs_safe [OF S0(1) safe_empty_catalog])
  have map: "method_map S0" by (rule load_inputs_map [OF S0(1)]) (simp add: method_map_def empty_catalog_def json_simps)
  note gm = generated_methods [OF S0(2) safe map]
  obtain names bodies where e: "emit_methods S0 ?kvs = Some (bodies, names)" and
    t: "\<exists>catalog literal. dump E S = Some catalog \<and> dump E (JString catalog) = Some literal \<and>
      t = file_head @ concat (map include_line (modules_of inputs)) @ concat (map ids_line (modules_of inputs)) @
      ''namespace vpp_json {'' @ nl @ ''namespace {'' @ nl @ bodies @
      bindings_head @ concat (map binding_row names) @ catalog_text literal"
    using assms(1) S0 by (auto simp: generator_main_def program_text_def Option.bind_eq_Some_conv)
  obtain bs where b: "bodies = concat bs"
    "list_all2 (\<lambda>name body. \<exists>m. (public_name name, m) \<in> set ?kvs \<and> unsupported_reason S0 m = Some [] \<and> body_defines m name body) names bs"
    "map public_name names = map fst (filter (\<lambda>(k, m). unsupported_reason S0 m = Some []) ?kvs)"
    using emit_methods_bodies [OF e gm(2)] by blast
  have "distinct (map public_name names)"
    unfolding b(3) using map by (simp add: method_map_def keys_sorted_distinct distinct_map_filter)
  then have D: "distinct names" by (simp add: distinct_map)
  have I: "Identifier name" if "name \<in> set names" for name
  proof -
    have "public_name name \<in> set (map fst (filter (\<lambda>(k, m). unsupported_reason S0 m = Some []) ?kvs))" using that b(3) by (metis image_eqI set_map)
    then show ?thesis using gm(2) by (auto simp: safe_method_def public_name_def)
  qed
  have N: "name \<in> set names \<longleftrightarrow> (\<exists>m. methods_of S (public_name name) = Some m \<and> jat m ''supported'' = JBool True)" for name
  proof -
    have "name \<in> set names \<longleftrightarrow> public_name name \<in> public_name ` set names" by (auto simp: public_name_def)
    also have "\<dots> \<longleftrightarrow> (\<exists>m. (public_name name, m) \<in> set ?kvs \<and> unsupported_reason S0 m = Some [])"
      using arg_cong [OF b(3), of set] by (simp only: set_map kept_keys)
    finally show ?thesis unfolding supported_names [OF S0(2) safe map] .
  qed
  have L: "list_all2 (\<lambda>name body. \<exists>m. methods_of S (public_name name) = Some m \<and> body_defines m name body) names bs"
    using b(2) by (rule list_all2_mono) (use generated_mark [OF S0(2) safe map] in blast)
  obtain catalog literal where c: "dump E S = Some catalog" "dump E (JString catalog) = Some literal"
    "t = file_head @ concat (map include_line (modules_of inputs)) @ concat (map ids_line (modules_of inputs)) @
      ''namespace vpp_json {'' @ nl @ ''namespace {'' @ nl @ concat bs @
      bindings_head @ concat (map binding_row names) @ catalog_text literal"
    using t unfolding b(1) by blast
  show ?thesis
    unfolding list_all_iff
    by (intro exI [of _ names] exI [of _ bs] exI [of _ catalog] exI [of _ literal] conjI ballI allI D I N L c)
qed

lemma host_program:
  "\<exists>t. generator_main sample_env True [(''vpp/host.api.json'', host_api)] = Some (0, t)"
proof -
  have m: "module_of ''vpp/host.api.json'' = Some ''host''" by code_simp
  have g: "\<exists>S. generated_catalog (host_catalog host_methods) = Some S"
    using host_generated by (auto simp: generator_def m host_loaded)
  have e: "\<exists>x. emit_methods (host_catalog host_methods) host_methods = Some x"
    by (simp add: host_methods_def method_text_def Callback_def unsupported_reason_def ReplyLayout_def kCursorMethod_def schema_eval)
  have "jmembers (jat (host_catalog host_methods) ''methods'') = host_methods" by (simp add: host_catalog_def jat_def)
  then show ?thesis using g e by (auto simp: generator_main_def m host_loaded program_text_def)
qed

theorem generated_program_witness:
  "\<exists>t names bodies rest S. generator_main sample_env True [(''vpp/host.api.json'', host_api)] = Some (0, t) \<and>
     generator [(''vpp/host.api.json'', host_api)] = Some (Inr S) \<and> sublist (bindings_head @ concat (map binding_row names) @ rest) t \<and>
     distinct names \<and> ''host_add'' \<in> set names \<and>
     list_all2 (\<lambda>name body. \<exists>m. methods_of S (public_name name) = Some m \<and> body_defines m name body) names bodies"
proof -
  obtain t where t: "generator_main sample_env True [(''vpp/host.api.json'', host_api)] = Some (0, t)" using host_program by blast
  obtain m m' where g: "generator [(''vpp/host.api.json'', host_api)] =
     Some (Inr (host_catalog [(''vpp.host_add'', m), (''vpp.host_add_reply'', m')]))" "jat m ''supported'' = JBool True"
    using host_generated by blast
  let ?S = "host_catalog [(''vpp.host_add'', m), (''vpp.host_add_reply'', m')]"
  have "methods_of ?S (public_name ''host_add'') = Some m" by (simp add: host_catalog_def jat_def public_name_def)
  obtain names bodies literal where p:
    "t = file_head @ concat (map include_line (modules_of [(''vpp/host.api.json'', host_api)])) @
      concat (map ids_line (modules_of [(''vpp/host.api.json'', host_api)])) @
      ''namespace vpp_json {'' @ nl @ ''namespace {'' @ nl @ concat bodies @
      bindings_head @ concat (map binding_row names) @ catalog_text literal"
    "distinct names" "\<forall>name. name \<in> set names \<longleftrightarrow> (\<exists>m. methods_of ?S (public_name name) = Some m \<and> jat m ''supported'' = JBool True)"
    "list_all2 (\<lambda>name body. \<exists>m. methods_of ?S (public_name name) = Some m \<and> body_defines m name body) names bodies"
    using generated_program [OF t g(1)] by blast
  have "sublist (bindings_head @ concat (map binding_row names) @ catalog_text literal) t"
    unfolding p(1) sublist_def by (metis append.assoc append_Nil2)
  moreover have "''host_add'' \<in> set names" using p(3) \<open>methods_of ?S (public_name ''host_add'') = Some m\<close> g(2) by blast
  ultimately show ?thesis using t g(1) p(2,4) by blast
qed

end
