(* ===== verification/Directories.thy ===== *)
theory Directories
  imports Files
begin

text \<open>
  Directories: \<open>MakeDirectories\<close> of \<open>src/common.cc\<close>. A \<open>tree\<close> adds to a disk
  the directories, each by the place its path names: whether the path is absolute, and its components.
  As the system does, empty components and \<open>.\<close> are skipped, so that \<open>a/b\<close>, \<open>a//b\<close> and \<open>a/b/\<close> name the
  same place; \<open>..\<close> and links are not modelled. The root and the working directory always exist. Every
  call may fail, following the fault plan of the disk.
\<close>

subsection \<open>Places\<close>

fun components :: "string \<Rightarrow> string \<Rightarrow> string list" where
  "components acc [] = (if acc = [] \<or> acc = ''.'' then [] else [acc])"
| "components acc (c # cs) =
     (if c = CHR ''/'' then (if acc = [] \<or> acc = ''.'' then [] else [acc]) @ components [] cs
      else components (acc @ [c]) cs)"

type_synonym place = "bool \<times> string list"

definition place_of :: "path \<Rightarrow> place" where
  "place_of p = (p \<noteq> [] \<and> hd p = CHR ''/'', components [] p)"

definition parent_place :: "place \<Rightarrow> place" where
  "parent_place x = (fst x, butlast (snd x))"

record tree =
  t_dirs :: "place list"
  t_disk :: disk

definition is_dir :: "tree \<Rightarrow> place \<Rightarrow> bool" where
  "is_dir t x \<longleftrightarrow> snd x = [] \<or> x \<in> set (t_dirs t)"

definition is_reg :: "tree \<Rightarrow> place \<Rightarrow> bool" where
  "is_reg t x \<longleftrightarrow> x \<in> place_of ` fst ` set (files (t_disk t))"

definition called :: "tree \<Rightarrow> tree" where
  "called t = t\<lparr>t_disk := next_call (t_disk t)\<rparr>"

datatype errno = EEXIST | ENOENT | EOTHER

text \<open>\<open>mkdir\<close>: the error, if any.\<close>

definition mkdir :: "tree \<Rightarrow> path \<Rightarrow> errno option \<times> tree" where
  "mkdir t p =
     (let x = place_of p; u = called t in
      if \<not> sys_ok (t_disk t) then (Some EOTHER, u)
      else if p = [] then (Some ENOENT, u)
      else if is_dir t x \<or> is_reg t x then (Some EEXIST, u)
      else if is_dir t (parent_place x) then (None, u\<lparr>t_dirs := x # t_dirs t\<rparr>)
      else (Some (if is_reg t (parent_place x) then EOTHER else ENOENT), u))"

text \<open>\<open>lstat\<close> followed by \<open>S_ISDIR\<close>.\<close>

definition stat_dir :: "tree \<Rightarrow> path \<Rightarrow> bool \<times> tree" where
  "stat_dir t p = (sys_ok (t_disk t) \<and> is_dir t (place_of p), called t)"

subsection \<open>Making directories\<close>

lemma components_slash: "components acc (xs @ CHR ''/'' # ys) = components acc xs @ components [] ys"
  by (induction acc xs rule: components.induct) auto

lemma ParentDirectory_cases:
  obtains "CHR ''/'' \<notin> set p" "ParentDirectory p = ''.''"
  | ys where "p = CHR ''/'' # ys" "CHR ''/'' \<notin> set ys" "ParentDirectory p = ''/''"
  | xs ys where "p = xs @ CHR ''/'' # ys" "CHR ''/'' \<notin> set ys" "xs \<noteq> []" "ParentDirectory p = xs"
proof (cases "CHR ''/'' \<in> set p")
  case True
  then obtain xs ys where p: "p = xs @ CHR ''/'' # ys" "CHR ''/'' \<notin> set ys" by (metis split_list_last)
  have "dropWhile (\<lambda>c. c \<noteq> CHR ''/'') (rev p) = CHR ''/'' # rev xs"
    using p by (simp add: dropWhile_append3 dropWhile_append)
  then have "ParentDirectory p = (if xs = [] then ''/'' else xs)" using True by (simp add: ParentDirectory_def)
  then show ?thesis using that p by (cases "xs = []") auto
qed (use that in \<open>auto simp: ParentDirectory_def\<close>)

lemma ParentDirectory_shorter:
  assumes "components [] p \<noteq> []"
  shows "components [] (ParentDirectory p) = [] \<or> length (ParentDirectory p) < length p"
  using assms by (cases rule: ParentDirectory_cases [of p]) auto

lemma mkdir_ENOENT: "mkdir t p = (Some ENOENT, t') \<Longrightarrow> p \<noteq> [] \<Longrightarrow> components [] p \<noteq> []"
  by (auto simp: mkdir_def Let_def is_dir_def place_of_def split: if_split_asm)

function MakeDirectories :: "tree \<Rightarrow> path \<Rightarrow> bool \<times> tree" where
  "MakeDirectories t p =
     (let (e, t1) = mkdir t p in
      if e = None then (True, t1)
      else if e = Some EEXIST then stat_dir t1 p
      else if e \<noteq> Some ENOENT \<or> p = [] then (False, t1)
      else
        (let (made, t2) = MakeDirectories t1 (ParentDirectory p) in
         if \<not> made then (False, t2)
         else let (e, t3) = mkdir t2 p in (e = None, t3)))"
  by auto
termination
proof (relation "measure (\<lambda>(t, p). if components [] p = [] then 0 else length p)", goal_cases)
  case (2 t p r e t1)
  then have "mkdir t p = (Some ENOENT, t1)" "p \<noteq> []" by auto
  then have "components [] p \<noteq> []" by (rule mkdir_ENOENT)
  then show ?case using ParentDirectory_shorter [of p] \<open>p \<noteq> []\<close> by auto
qed simp

declare MakeDirectories.simps [simp del]

text \<open>Places on the way to a place, itself included.\<close>

definition above :: "place \<Rightarrow> place \<Rightarrow> bool" where
  "above y x \<longleftrightarrow> fst y = fst x \<and> prefix (snd y) (snd x)"

lemma above_simps [simp]: "above x x" "above y (parent_place x) \<Longrightarrow> above y x"
  by (auto simp: above_def parent_place_def intro: prefix_order.trans prefixeq_butlast)

lemma above_ParentDirectory: "snd y \<noteq> [] \<Longrightarrow> above y (place_of (ParentDirectory p)) \<Longrightarrow> above y (place_of p)"
  by (cases rule: ParentDirectory_cases [of p])
    (auto simp: above_def place_of_def components_slash)

text \<open>What happens to the tree: new directories on the way to the path, and nothing else.\<close>

definition grown :: "place \<Rightarrow> tree \<Rightarrow> tree \<Rightarrow> bool" where
  "grown x t t' \<longleftrightarrow> set (t_dirs t) \<subseteq> set (t_dirs t') \<and> files (t_disk t') = files (t_disk t) \<and>
     fault (t_disk t') = fault (t_disk t) \<and> (\<forall>y \<in> set (t_dirs t') - set (t_dirs t). snd y \<noteq> [] \<and> above y x)"

lemma grown_simps [simp]: "grown x t t" "grown x t (called t)"
  by (simp_all add: grown_def called_def io_simps)

lemma grown_trans: "grown x t u \<Longrightarrow> grown x u v \<Longrightarrow> grown x t v"
  by (auto simp: grown_def)

lemma grown_mkdir: "mkdir t p = (e, t') \<Longrightarrow> grown (place_of p) t t'"
  by (auto simp: mkdir_def Let_def is_dir_def grown_def called_def io_simps split: if_split_asm)

lemma grown_parent: "grown (place_of (ParentDirectory p)) t t' \<Longrightarrow> grown (place_of p) t t'"
  by (auto simp: grown_def intro: above_ParentDirectory)

lemma grown_MakeDirectories: "MakeDirectories t p = (made, t') \<Longrightarrow> grown (place_of p) t t'"
proof (induction t p arbitrary: made t' rule: MakeDirectories.induct)
  case (1 t p)
  obtain e t1 where m: "mkdir t p = (e, t1)" by force
  note g = grown_mkdir [OF m]
  show ?case
  proof (cases "e = Some ENOENT \<and> p \<noteq> []")
    case False
    then show ?thesis using "1.prems" m g
      by (subst (asm) MakeDirectories.simps) (auto simp: stat_dir_def split: if_split_asm intro: grown_trans)
  next
    case True
    obtain made1 t2 where r: "MakeDirectories t1 (ParentDirectory p) = (made1, t2)" by force
    have "grown (place_of p) t1 t2" using "1.IH" [OF m [symmetric] refl] True r by (auto intro: grown_parent)
    with g have g2: "grown (place_of p) t t2" by (rule grown_trans)
    have "t' = t2 \<or> t' = snd (mkdir t2 p)"
      using "1.prems" m True r by (subst (asm) MakeDirectories.simps) (auto simp: case_prod_beta split: if_split_asm)
    then show ?thesis using g2 grown_mkdir [of t2 p] by (auto intro: grown_trans [OF g2] simp: prod_eq_iff)
  qed
qed

lemma mkdir_made: "fst (mkdir t p) = None \<Longrightarrow> is_dir (snd (mkdir t p)) (place_of p)"
  by (auto simp: mkdir_def Let_def is_dir_def split: if_split_asm)

lemma made_MakeDirectories: "MakeDirectories t p = (True, t') \<Longrightarrow> is_dir t' (place_of p)"
  using mkdir_made by (subst (asm) MakeDirectories.simps)
    (auto simp: stat_dir_def called_def is_dir_def case_prod_beta Let_def split: if_split_asm)

text \<open>A path whose components, after the first, are names.\<close>

definition proper :: "path \<Rightarrow> bool" where
  "proper p \<longleftrightarrow> p \<noteq> [] \<and>
     (\<forall>xs ys. p = xs @ CHR ''/'' # ys \<longrightarrow> xs \<noteq> [] \<longrightarrow> takeWhile (\<lambda>c. c \<noteq> CHR ''/'') ys \<notin> {[], ''.''})"

lemma components_name: "CHR ''/'' \<notin> set ys \<Longrightarrow> components acc ys = (if acc @ ys \<in> {[], ''.''} then [] else [acc @ ys])"
  by (induction ys arbitrary: acc) auto

lemma proper_parent:
  assumes "proper p" and "components [] p \<noteq> []"
  shows "proper (ParentDirectory p)" "place_of (ParentDirectory p) = parent_place (place_of p)"
proof -
  have dot: "proper ''.''" "proper ''/''" by (auto simp: proper_def Cons_eq_append_conv)
  have "proper (ParentDirectory p) \<and> place_of (ParentDirectory p) = parent_place (place_of p)"
  proof (cases rule: ParentDirectory_cases [of p])
    case 1
    then show ?thesis using assms dot
      by (cases p) (auto simp: place_of_def parent_place_def components_name split: if_split_asm)
  next
    case (2 ys)
    then show ?thesis using dot by (auto simp: place_of_def parent_place_def components_name)
  next
    case (3 xs ys)
    have tw: "takeWhile (\<lambda>c. c \<noteq> CHR ''/'') ys = ys" using 3(2) by (auto simp: takeWhile_eq_all_conv)
    note names = assms(1) [unfolded proper_def, THEN conjunct2, rule_format]
    have "ys \<notin> {[], ''.''}" using names [OF 3(1,3)] tw by simp
    moreover have "proper xs"
      unfolding proper_def
    proof (intro conjI allI impI)
      fix as bs
      assume a: "xs = as @ CHR ''/'' # bs" "as \<noteq> []"
      have "takeWhile (\<lambda>c. c \<noteq> CHR ''/'') (bs @ CHR ''/'' # ys) = takeWhile (\<lambda>c. c \<noteq> CHR ''/'') bs"
        by (induction bs) auto
      then show "takeWhile (\<lambda>c. c \<noteq> CHR ''/'') bs \<notin> {[], ''.''}"
        using names [of as "bs @ CHR ''/'' # ys"] 3(1) a by simp
    qed (fact 3(3))
    ultimately show ?thesis using 3 by (auto simp: place_of_def parent_place_def components_slash components_name)
  qed
  then show "proper (ParentDirectory p)" "place_of (ParentDirectory p) = parent_place (place_of p)" by auto
qed

definition unobstructed :: "place \<Rightarrow> tree \<Rightarrow> bool" where
  "unobstructed x t \<longleftrightarrow> fault (t_disk t) = (\<lambda>_. None) \<and> (\<forall>y. above y x \<longrightarrow> \<not> is_reg t y)"

lemma unobstructed_grown: "grown z t t' \<Longrightarrow> unobstructed x t \<Longrightarrow> unobstructed x t'"
  by (auto simp: grown_def unobstructed_def is_reg_def)

lemma MakeDirectories_makes:
  "proper p \<Longrightarrow> unobstructed (place_of p) t \<Longrightarrow> fst (MakeDirectories t p)"
proof (induction t p rule: MakeDirectories.induct)
  case (1 t p)
  obtain e t1 where m: "mkdir t p = (e, t1)" by force
  have t: "sys_ok u" if "unobstructed x (v\<lparr>t_disk := u\<rparr>)" for u v x using that by (simp add: unobstructed_def sys_ok_def)
  show ?case
  proof (cases "e = Some ENOENT")
    case False
    then show ?thesis using "1.prems" m
      by (subst MakeDirectories.simps)
        (auto simp: mkdir_def stat_dir_def called_def Let_def unobstructed_def sys_ok_def is_dir_def io_simps above_def parent_place_def
          prefixeq_butlast split: if_split_asm)
  next
    case True
    have p: "p \<noteq> []" "components [] p \<noteq> []"
      using "1.prems"(1) mkdir_ENOENT m True by (auto simp: proper_def)
    note par = proper_parent [OF "1.prems"(1) p(2)]
    have u1: "unobstructed (place_of p) t1" using unobstructed_grown [OF grown_mkdir [OF m]] "1.prems"(2) .
    then have "unobstructed (place_of (ParentDirectory p)) t1" using par(2) by (auto simp: unobstructed_def)
    then obtain t2 where r: "MakeDirectories t1 (ParentDirectory p) = (True, t2)"
      using "1.IH" [OF m [symmetric] refl] True p par(1) by (cases "MakeDirectories t1 (ParentDirectory p)") auto
    note g = grown_MakeDirectories [OF r]
    have "is_dir t2 (parent_place (place_of p))" using made_MakeDirectories [OF r] par(2) by simp
    moreover have "\<not> is_dir t2 (place_of p)"
    proof -
      have "place_of p \<notin> set (t_dirs t1)"
        using m True p by (auto simp: mkdir_def Let_def is_dir_def called_def split: if_split_asm)
      moreover have "\<not> above (place_of p) (place_of (ParentDirectory p))"
        using p(2) prefix_length_le [of "components [] p" "butlast (components [] p)"] unfolding par(2)
        by (cases "components [] p") (auto simp: above_def parent_place_def place_of_def)
      ultimately show ?thesis using g p by (auto simp: grown_def is_dir_def place_of_def)
    qed
    moreover have "unobstructed (place_of p) t2" using unobstructed_grown [OF g u1] .
    then have "\<not> is_reg t2 (place_of p)" "sys_ok (t_disk t2)" by (auto simp: unobstructed_def sys_ok_def above_def)
    ultimately have "fst (mkdir t2 p) = None" using p by (simp add: mkdir_def Let_def)
    then show ?thesis using m True p r by (subst MakeDirectories.simps) (simp add: case_prod_beta)
  qed
qed

text \<open>
  C31. \<open>MakeDirectories\<close> does what its name says. When it reports success, the path is a directory; in
  any case no file is touched, no directory is lost, and new directories lie on the way to the path.
  And when no call fails and no file is in the way, it succeeds on every path whose components after
  the first are names.
\<close>

theorem make_directories:
  "(MakeDirectories t p = (made, t') \<longrightarrow> grown (place_of p) t t' \<and> (made \<longrightarrow> is_dir t' (place_of p))) \<and>
   (proper p \<and> unobstructed (place_of p) t \<longrightarrow> fst (MakeDirectories t p))"
proof (intro conjI impI)
  assume m: "MakeDirectories t p = (made, t')"
  show "grown (place_of p) t t'" using m by (rule grown_MakeDirectories)
  assume made
  then show "is_dir t' (place_of p)" using m made_MakeDirectories by simp
qed (use MakeDirectories_makes in blast)

definition empty_tree :: tree where
  "empty_tree = \<lparr>t_dirs = [], t_disk = clean_disk\<rparr>"

lemmas directory_eval = mkdir_def stat_dir_def called_def is_dir_def is_reg_def parent_place_def place_of_def empty_tree_def
  ParentDirectory_def clean_disk_def sys_ok_def next_call_def

lemma make_state_spool:
  "MakeDirectories empty_tree ''state/spool'' =
     (True, \<lparr>t_dirs = [(False, [''state'', ''spool'']), (False, [''state''])], t_disk = clean_disk\<lparr>tick := 3\<rparr>\<rparr>)"
  by (simp add: MakeDirectories.simps directory_eval)

theorem make_directories_witness:
  "is_dir \<lparr>t_dirs = [(False, [''state'', ''spool'']), (False, [''state''])], t_disk = clean_disk\<lparr>tick := 3\<rparr>\<rparr> (place_of ''state/spool'')"
  using make_directories [of empty_tree "''state/spool''" True] make_state_spool by blast

text \<open>
  The condition on the components is needed: for a path that ends in a slash, the last of two missing
  directories is made by the recursive call, and the final \<open>mkdir\<close> reports that it is there.
\<close>

lemma trailing_slash_fails:
  "fst (MakeDirectories empty_tree ''a/b/'') = False"
  by (simp add: MakeDirectories.simps directory_eval)

end
