(* ===== verification/Removal.thy ===== *)
theory Removal
  imports Directories
begin

text \<open>
  \<open>RemoveTree\<close> of \<open>src/common.cc\<close>, on the trees of theory \<open>Directories\<close>. Every call may fail, following the
  fault plan of the disk. The recursion follows the depth of the tree, which is the fuel of the model;
  the theorem shows that the depth is enough. The order of the entries of a directory is the one of the
  lists of the tree.
\<close>

subsection \<open>Operations\<close>

definition places :: "tree \<Rightarrow> place list" where
  "places t = t_dirs t @ map (place_of \<circ> fst) (files (t_disk t))"

definition names_in :: "tree \<Rightarrow> place \<Rightarrow> string list" where
  "names_in t x = remdups (map (last \<circ> snd) (filter (\<lambda>y. snd y \<noteq> [] \<and> parent_place y = x) (places t)))"

text \<open>\<open>ListFiles\<close> on a tree: \<open>opendir\<close> or \<open>readdir\<close> may fail.\<close>

definition list_tree :: "tree \<Rightarrow> path \<Rightarrow> path list option \<times> tree" where
  "list_tree t p =
     (let t1 = called t in
      if \<not> sys_ok (t_disk t) then (None, t1)
      else if \<not> sys_ok (t_disk t1) then (None, called t1)
      else (Some (map (\<lambda>name. p @ ''/'' @ name) (names_in t (place_of p))), called t1))"

definition unlink_at :: "tree \<Rightarrow> path \<Rightarrow> bool \<times> tree" where
  "unlink_at t p =
     (if \<not> sys_ok (t_disk t) then (False, called t)
      else (True, called (t\<lparr>t_disk := (t_disk t)\<lparr>files := filter (\<lambda>f. place_of (fst f) \<noteq> place_of p) (files (t_disk t))\<rparr>\<rparr>)))"

definition rmdir :: "tree \<Rightarrow> path \<Rightarrow> bool \<times> tree" where
  "rmdir t p =
     (let x = place_of p in
      if \<not> sys_ok (t_disk t) \<or> snd x = [] \<or> names_in t x \<noteq> [] then (False, called t)
      else (True, called (t\<lparr>t_dirs := filter (\<lambda>y. y \<noteq> x) (t_dirs t)\<rparr>)))"

text \<open>A component before the last is a file, so that \<open>lstat\<close> fails with \<open>ENOTDIR\<close>.\<close>

definition through_file :: "tree \<Rightarrow> place \<Rightarrow> bool" where
  "through_file t x \<longleftrightarrow> list_ex (\<lambda>k. is_reg t (fst x, take k (snd x))) [0..<length (snd x)]"

fun remove_each :: "(tree \<Rightarrow> path \<Rightarrow> (bool \<times> tree) option) \<Rightarrow> path list \<Rightarrow> tree \<Rightarrow> (bool \<times> tree) option" where
  "remove_each rm [] t = Some (True, t)"
| "remove_each rm (p # ps) t =
     (case rm t p of
        None \<Rightarrow> None
      | Some (ok, t') \<Rightarrow> if \<not> ok then Some (False, t') else remove_each rm ps t')"

fun RemoveTree :: "nat \<Rightarrow> tree \<Rightarrow> path \<Rightarrow> (bool \<times> tree) option" where
  "RemoveTree 0 t p = None"
| "RemoveTree (Suc n) t p =
     (let x = place_of p; t1 = called t in
      if \<not> sys_ok (t_disk t) \<or> through_file t x then Some (False, t1)
      else if p = [] \<or> \<not> (is_dir t x \<or> is_reg t x) then Some (True, t1)
      else if \<not> is_dir t x then Some (unlink_at t1 p)
      else
        (case list_tree t1 p of
           (None, t2) \<Rightarrow> Some (False, t2)
         | (Some ps, t2) \<Rightarrow>
             (case remove_each (RemoveTree n) ps t2 of
                None \<Rightarrow> None
              | Some (ok, t3) \<Rightarrow> if \<not> ok then Some (False, t3) else Some (rmdir t3 p))))"

subsection \<open>Trees\<close>

definition is_name :: "string \<Rightarrow> bool" where
  "is_name s \<longleftrightarrow> CHR ''/'' \<notin> set s \<and> s \<notin> {[], ''.''}"

text \<open>Directories have names, everything lies in a directory, and no directory is a file.\<close>

definition wf_tree :: "tree \<Rightarrow> bool" where
  "wf_tree t \<longleftrightarrow> list_all (\<lambda>y. list_all is_name (snd y) \<and> snd y \<noteq> []) (t_dirs t) \<and>
     list_all (\<lambda>y. is_dir t (parent_place y)) (places t) \<and> list_all (\<lambda>y. \<not> is_reg t y) (t_dirs t)"

definition shrunk :: "place \<Rightarrow> tree \<Rightarrow> tree \<Rightarrow> bool" where
  "shrunk x t t' \<longleftrightarrow> set (t_dirs t') \<subseteq> set (t_dirs t) \<and> set (files (t_disk t')) \<subseteq> set (files (t_disk t)) \<and>
     fault (t_disk t') = fault (t_disk t) \<and>
     (\<forall>y \<in> set (t_dirs t). \<not> above x y \<longrightarrow> y \<in> set (t_dirs t')) \<and>
     (\<forall>f \<in> set (files (t_disk t)). \<not> above x (place_of (fst f)) \<longrightarrow> f \<in> set (files (t_disk t')))"

definition deepest :: "tree \<Rightarrow> nat" where
  "deepest t = fold max (map (length \<circ> snd) (places t)) 0"

lemma deepest_le: "deepest t \<le> n \<longleftrightarrow> (\<forall>y \<in> set (places t). length (snd y) \<le> n)"
proof -
  have "fold max xs m \<le> n \<longleftrightarrow> m \<le> n \<and> (\<forall>x \<in> set xs. x \<le> n)" for xs and m :: nat
    by (induction xs arbitrary: m) auto
  then show ?thesis by (simp add: deepest_def)
qed

lemma called_simps [simp]:
  "t_dirs (called t) = t_dirs t" "files (t_disk (called t)) = files (t_disk t)" "fault (t_disk (called t)) = fault (t_disk t)"
  "places (called t) = places t" "is_dir (called t) = is_dir t" "is_reg (called t) = is_reg t" "names_in (called t) = names_in t"
  "wf_tree (called t) = wf_tree t"
proof -
  show s: "t_dirs (called t) = t_dirs t" "files (t_disk (called t)) = files (t_disk t)" "fault (t_disk (called t)) = fault (t_disk t)"
    by (simp_all add: called_def io_simps)
  then show p: "places (called t) = places t" "is_dir (called t) = is_dir t" "is_reg (called t) = is_reg t"
    by (simp_all add: places_def is_dir_def is_reg_def fun_eq_iff)
  then show "names_in (called t) = names_in t" by (simp add: names_in_def fun_eq_iff)
  show "wf_tree (called t) = wf_tree t" by (simp add: wf_tree_def s p)
qed

lemma shrunk_called [simp]: "shrunk x t (called t)" "shrunk x t (called (called t))" "shrunk x t t"
  by (simp_all add: shrunk_def)

lemma shrunk_trans: "shrunk x t u \<Longrightarrow> shrunk x u v \<Longrightarrow> shrunk x t v"
  unfolding shrunk_def by (intro conjI) (simp_all, blast+)

lemma shrunk_places: "shrunk x t t' \<Longrightarrow> set (places t') \<subseteq> set (places t)"
  by (auto simp: shrunk_def places_def)

lemma above_trans: "above x y \<Longrightarrow> above y z \<Longrightarrow> above x z"
  unfolding above_def using prefix_order.trans by auto

lemma shrunk_below:
  assumes "shrunk y t t'" and "above x y"
  shows "shrunk x t t'"
proof -
  have "\<not> above x z \<Longrightarrow> \<not> above y z" for z using above_trans assms(2) by blast
  then show ?thesis using assms(1) unfolding shrunk_def by (intro conjI ballI impI) simp_all
qed

lemma names_components: "CHR ''/'' \<notin> set acc \<Longrightarrow> list_all is_name (components acc p)"
  by (induction acc p rule: components.induct) (auto simp: is_name_def)

lemma place_child:
  assumes "is_name s" and "p \<noteq> []"
  shows "place_of (p @ ''/'' @ s) = (fst (place_of p), snd (place_of p) @ [s])"
  using assms components_name [of s "[]"] by (auto simp: place_of_def components_slash is_name_def)

lemma names_in_iff:
  "s \<in> set (names_in t x) \<longleftrightarrow> (fst x, snd x @ [s]) \<in> set (places t)"
proof
  assume "s \<in> set (names_in t x)"
  then obtain y where "y \<in> set (places t)" "snd y \<noteq> []" "parent_place y = x" "s = last (snd y)" by (auto simp: names_in_def)
  then show "(fst x, snd x @ [s]) \<in> set (places t)" by (cases y) (auto simp: parent_place_def)
next
  assume "(fst x, snd x @ [s]) \<in> set (places t)"
  moreover have "parent_place (fst x, snd x @ [s]) = x" "last (snd (fst x, snd x @ [s])) = s" "snd (fst x, snd x @ [s]) \<noteq> []"
    by (simp_all add: parent_place_def)
  ultimately show "s \<in> set (names_in t x)" unfolding names_in_def set_remdups set_map set_filter by force
qed

lemma in_places: "snd x \<noteq> [] \<Longrightarrow> x \<in> set (places t) \<longleftrightarrow> is_dir t x \<or> is_reg t x"
  by (auto simp: places_def is_dir_def is_reg_def image_comp)

lemma place_names: "y \<in> set (places t) \<Longrightarrow> wf_tree t \<Longrightarrow> list_all is_name (snd y)"
  using names_components [of "[]"] by (auto simp: places_def wf_tree_def list_all_iff place_of_def)

lemma wf_treeD:
  assumes "wf_tree t"
  shows "y \<in> set (places t) \<Longrightarrow> is_dir t (parent_place y)" "y \<in> set (t_dirs t) \<Longrightarrow> \<not> is_reg t y" "y \<in> set (t_dirs t) \<Longrightarrow> snd y \<noteq> []"
  using assms by (auto simp: wf_tree_def list_all_iff)

subsection \<open>One call\<close>

definition removes :: "path \<Rightarrow> tree \<Rightarrow> bool \<Rightarrow> tree \<Rightarrow> bool" where
  "removes p t ok t' \<longleftrightarrow> wf_tree t' \<and> shrunk (place_of p) t t' \<and> (ok \<longrightarrow> place_of p \<notin> set (places t'))"

lemma removes_unlink:
  assumes "wf_tree t" and "\<not> is_dir t (place_of p)" and "unlink_at t p = (ok, t')"
  shows "removes p t ok t'"
proof (cases "sys_ok (t_disk t)")
  case False
  then show ?thesis using assms by (auto simp: unlink_at_def removes_def)
next
  case True
  let ?u = "t\<lparr>t_disk := (t_disk t)\<lparr>files := filter (\<lambda>f. place_of (fst f) \<noteq> place_of p) (files (t_disk t))\<rparr>\<rparr>"
  have t': "t' = called ?u" using True assms(3) by (simp add: unlink_at_def)
  have "shrunk (place_of p) t ?u" by (auto simp: shrunk_def)
  moreover have "is_reg ?u y \<Longrightarrow> is_reg t y" "set (places ?u) \<subseteq> set (places t)" for y by (auto simp: places_def is_reg_def)
  then have "wf_tree ?u" using assms(1) by (auto simp: wf_tree_def is_dir_def list_all_iff)
  moreover have "place_of p \<notin> set (places ?u)" using assms(2) by (auto simp: places_def is_dir_def)
  ultimately show ?thesis by (simp add: removes_def t' shrunk_def)
qed

lemma removes_rmdir:
  assumes "wf_tree t" and "\<not> is_reg t (place_of p)" and "rmdir t p = (ok, t')"
  shows "removes p t ok t'"
proof (cases ok)
  case False
  then show ?thesis using assms by (auto simp: rmdir_def removes_def Let_def split: if_split_asm)
next
  case True
  let ?x = "place_of p"
  let ?u = "t\<lparr>t_dirs := filter (\<lambda>y. y \<noteq> ?x) (t_dirs t)\<rparr>"
  have t': "t' = called ?u" "snd ?x \<noteq> []" "names_in t ?x = []"
    using True assms(3) by (auto simp: rmdir_def Let_def split: if_split_asm)
  have none: "parent_place y \<noteq> ?x" if "y \<in> set (places t)" for y
  proof
    assume "parent_place y = ?x"
    then have x: "fst ?x = fst y" "snd ?x = butlast (snd y)" by (auto simp: parent_place_def simp flip: \<open>parent_place y = ?x\<close>)
    then have "snd y \<noteq> []" using t'(2) by auto
    then have "y = (fst ?x, snd ?x @ [last (snd y)])" unfolding x by simp
    then have "last (snd y) \<in> set (names_in t ?x)" using that by (simp add: names_in_iff)
    then show False using t'(3) by simp
  qed
  have sub: "set (places ?u) \<subseteq> set (places t)" by (auto simp: places_def)
  have "is_dir ?u (parent_place y)" if "y \<in> set (places ?u)" for y
    using wf_treeD(1) [OF assms(1), of y] none [of y] that sub by (auto simp: is_dir_def)
  then have "wf_tree ?u" using assms(1) by (auto simp: wf_tree_def list_all_iff is_reg_def)
  moreover have "shrunk ?x t ?u" by (auto simp: shrunk_def)
  moreover have "?x \<notin> set (places ?u)" using assms(2) by (auto simp: places_def is_reg_def)
  ultimately show ?thesis by (simp add: removes_def t'(1) shrunk_def)
qed

lemma removes_each:
  assumes "remove_each rm ps t = Some (ok, t')" and "wf_tree t"
    and "\<And>p u ok u'. p \<in> set ps \<Longrightarrow> wf_tree u \<Longrightarrow> rm u p = Some (ok, u') \<Longrightarrow> removes p u ok u' \<and> above x (place_of p)"
  shows "wf_tree t' \<and> shrunk x t t' \<and> (ok \<longrightarrow> (\<forall>p \<in> set ps. place_of p \<notin> set (places t')))"
  using assms
proof (induction ps arbitrary: t)
  case (Cons p ps)
  obtain ok1 u where r: "rm t p = Some (ok1, u)" using Cons.prems(1) by (auto split: option.split_asm)
  have p: "removes p t ok1 u" "above x (place_of p)" using Cons.prems(3) [OF _ Cons.prems(2) r] by auto
  then have u: "wf_tree u" "shrunk x t u" using shrunk_below [of "place_of p" t u x] by (simp_all add: removes_def)
  show ?case
  proof (cases ok1)
    case False
    then show ?thesis using Cons.prems(1) r u by auto
  next
    case True
    have "remove_each rm ps u = Some (ok, t')" using Cons.prems(1) r True by simp
    from Cons.IH [OF this u(1)] Cons.prems(3)
    have i: "wf_tree t'" "shrunk x u t'" "ok \<longrightarrow> (\<forall>p \<in> set ps. place_of p \<notin> set (places t'))" by auto
    have "place_of p \<notin> set (places t')" using p(1) True shrunk_places [OF i(2)] by (auto simp: removes_def)
    then show ?thesis using i shrunk_trans [OF u(2) i(2)] by auto
  qed
qed simp

subsection \<open>The whole tree\<close>

lemma above_child: "above x (fst x, snd x @ ys)"
  by (simp add: above_def)

text \<open>The entries of a directory are its children, by the paths the listing gives them.\<close>

lemma listed_places:
  assumes "list_tree t p = (Some ps, t')" and "wf_tree t" and "p \<noteq> []"
  shows "q \<in> set ps \<Longrightarrow> \<exists>s. is_name s \<and> place_of q = (fst (place_of p), snd (place_of p) @ [s]) \<and> q \<noteq> [] \<and> place_of q \<in> set (places t)"
    and "t' = called (called t)"
    and "names_in u (place_of p) \<noteq> [] \<Longrightarrow> set (places u) \<subseteq> set (places t) \<Longrightarrow> \<exists>q \<in> set ps. place_of q \<in> set (places u)"
proof -
  have l: "ps = map (\<lambda>name. p @ ''/'' @ name) (names_in t (place_of p))" "t' = called (called t)"
    using assms(1) by (auto simp: list_tree_def Let_def split: if_split_asm)
  have name: "is_name s" if "s \<in> set (names_in t (place_of p))" for s
    using place_names [OF _ assms(2)] that by (fastforce simp: names_in_iff list_all_iff)
  show "\<exists>s. is_name s \<and> place_of q = (fst (place_of p), snd (place_of p) @ [s]) \<and> q \<noteq> [] \<and> place_of q \<in> set (places t)" if q: "q \<in> set ps"
  proof -
    obtain s where s: "s \<in> set (names_in t (place_of p))" "q = p @ ''/'' @ s" using q l(1) by auto
    then show ?thesis using name [OF s(1)] place_child [OF name [OF s(1)] assms(3)] by (auto simp: names_in_iff)
  qed
  show "t' = called (called t)" by (fact l(2))
  assume "names_in u (place_of p) \<noteq> []" and sub: "set (places u) \<subseteq> set (places t)"
  then obtain s where s: "s \<in> set (names_in u (place_of p))" by (cases "names_in u (place_of p)") auto
  then have "s \<in> set (names_in t (place_of p))" using sub by (auto simp: names_in_iff)
  then show "\<exists>q \<in> set ps. place_of q \<in> set (places u)"
    using s place_child [OF name assms(3)] by (intro bexI [of _ "p @ ''/'' @ s"]) (auto simp: l(1) names_in_iff)
qed

lemma removes_RemoveTree: "wf_tree t \<Longrightarrow> p \<noteq> [] \<Longrightarrow> RemoveTree n t p = Some (ok, t') \<Longrightarrow> removes p t ok t'"
proof (induction n arbitrary: t p ok t')
  case (Suc n)
  let ?x = "place_of p"
  show ?case
  proof (cases "sys_ok (t_disk t) \<and> \<not> through_file t ?x \<and> is_dir t ?x")
    case False
    then consider "ok = False" "t' = called t" | "ok = True" "t' = called t" "\<not> is_dir t ?x" "\<not> is_reg t ?x"
      | "\<not> is_dir t ?x" "unlink_at (called t) p = (ok, t')"
      using Suc.prems(2,3) by (auto simp: Let_def split: if_split_asm)
    then show ?thesis
    proof cases
      case 3
      from removes_unlink [OF _ _ 3(2)] 3(1) Suc.prems(1) show ?thesis by (simp add: removes_def shrunk_def)
    qed (use Suc.prems(1) in \<open>auto simp: removes_def places_def is_dir_def is_reg_def\<close>)
  next
    case True
    obtain listed t2 where l: "list_tree (called t) p = (listed, t2)" by force
    show ?thesis
    proof (cases listed)
      case None
      then have "t' = t2" "\<not> ok" "t2 = called (called t) \<or> t2 = called (called (called t))"
        using Suc.prems(2,3) True l by (auto simp: list_tree_def Let_def split: if_split_asm)
      then show ?thesis using Suc.prems(1) by (auto simp: removes_def shrunk_def)
    next
      case (Some ps)
      note lp = listed_places [OF l [unfolded Some], simplified, OF Suc.prems(1,2)]
      have t2: "wf_tree t2" "shrunk ?x t t2" using Suc.prems(1) lp(2) by (auto simp: shrunk_def)
      obtain ok3 t3 where e: "remove_each (RemoveTree n) ps t2 = Some (ok3, t3)"
        and r: "if ok3 then rmdir t3 p = (ok, t') else ok = False \<and> t' = t3"
        using Suc.prems(2,3) True l Some by (auto simp: Let_def split: option.split_asm if_split_asm)
      have each: "removes q u o1 u' \<and> above ?x (place_of q)" if q: "q \<in> set ps" "wf_tree u" "RemoveTree n u q = Some (o1, u')" for q u o1 u'
      proof -
        obtain y where y: "place_of q = (fst ?x, snd ?x @ [y])" "q \<noteq> []" using lp(1) [OF q(1)] by blast
        show ?thesis using Suc.IH [OF q(2) y(2) q(3)] above_child [of ?x "[y]"] unfolding y(1) [symmetric] by blast
      qed
      have "wf_tree t3 \<and> shrunk ?x t2 t3 \<and> (ok3 \<longrightarrow> (\<forall>q \<in> set ps. place_of q \<notin> set (places t3)))"
        by (rule removes_each [OF e t2(1)]) (rule each)
      then have s: "wf_tree t3" "shrunk ?x t2 t3" by simp_all
      note t3 = s(1) shrunk_trans [OF t2(2) s(2)]
      show ?thesis
      proof (cases ok3)
        case False
        then show ?thesis using r t3 by (simp add: removes_def)
      next
        case True
        have "\<not> is_reg t ?x" if "ok"
        proof -
          have "snd ?x \<noteq> []" using that r True by (auto simp: rmdir_def Let_def split: if_split_asm)
          then show ?thesis using wf_treeD(2) [OF Suc.prems(1), of ?x] \<open>sys_ok (t_disk t) \<and> \<not> through_file t ?x \<and> is_dir t ?x\<close>
            by (simp add: is_dir_def)
        qed
        moreover have "is_reg t3 ?x \<Longrightarrow> is_reg t ?x" using t3(2) by (auto simp: shrunk_def is_reg_def)
        ultimately have "removes p t3 ok t'" using r True t3(1) removes_rmdir [of t3 p ok t']
          by (cases ok) (auto simp: removes_def rmdir_def Let_def split: if_split_asm)
        then show ?thesis using shrunk_trans [OF t3(2), of t'] by (simp add: removes_def)
      qed
    qed
  qed
qed simp

lemma returns_each:
  assumes "wf_tree t" and "deepest t \<le> m" and "\<And>q. q \<in> set qs \<Longrightarrow> q \<noteq> []"
    and "\<And>q u. q \<in> set qs \<Longrightarrow> wf_tree u \<Longrightarrow> deepest u \<le> m \<Longrightarrow> RemoveTree n u q \<noteq> None"
  shows "remove_each (RemoveTree n) qs t \<noteq> None"
  using assms
proof (induction qs arbitrary: t)
  case (Cons q qs)
  obtain ok u where r: "RemoveTree n t q = Some (ok, u)" using Cons.prems(4) [of q t] Cons.prems(1,2) by auto
  have u: "wf_tree u" "shrunk (place_of q) t u" using removes_RemoveTree [OF Cons.prems(1) _ r] Cons.prems(3) by (auto simp: removes_def)
  have "deepest u \<le> m" using Cons.prems(2) shrunk_places [OF u(2)] by (auto simp: deepest_le)
  then have "remove_each (RemoveTree n) qs u \<noteq> None" using Cons.IH [OF u(1)] Cons.prems(3,4) by simp
  then show ?case using r by (cases ok) auto
qed simp

lemma RemoveTree_returns:
  "wf_tree t \<Longrightarrow> p \<noteq> [] \<Longrightarrow> deepest t \<le> n + length (snd (place_of p)) \<Longrightarrow> RemoveTree (Suc n) t p \<noteq> None"
proof (induction n arbitrary: t p)
  case 0
  have "ps = []" if l: "list_tree (called t) p = (Some ps, t2)" for ps t2
  proof (rule ccontr)
    assume "ps \<noteq> []"
    then obtain q where q: "q \<in> set ps" by (cases ps) auto
    obtain y where y: "place_of q = (fst (place_of p), snd (place_of p) @ [y])" "place_of q \<in> set (places t)"
      using listed_places(1) [OF l _ 0(2) q] 0(1) by auto
    then have "length (snd (place_of q)) \<le> length (snd (place_of p))" using 0(3) unfolding deepest_le by auto
    then show False unfolding y(1) by simp
  qed
  then show ?case by (auto simp: Let_def split: prod.split option.split)
next
  case (Suc n)
  have "remove_each (RemoveTree (Suc n)) ps t2 \<noteq> None" if l: "list_tree (called t) p = (Some ps, t2)" for ps t2
  proof (rule returns_each)
    note lp = listed_places [OF l _ Suc.prems(2)]
    show "wf_tree t2" "deepest t2 \<le> Suc n + length (snd (place_of p))"
      using lp(2) Suc.prems(1,3) by (auto simp: deepest_le)
    show "q \<noteq> []" if q: "q \<in> set ps" for q using lp(1) [OF _ q] Suc.prems(1) by auto
    show "RemoveTree (Suc n) u q \<noteq> None"
      if q: "q \<in> set ps" and u: "wf_tree u" "deepest u \<le> Suc n + length (snd (place_of p))" for q u
    proof -
      obtain y where y: "place_of q = (fst (place_of p), snd (place_of p) @ [y])" "q \<noteq> []" using lp(1) [OF _ q] Suc.prems(1) by auto
      show ?thesis using Suc.IH [OF u(1) y(2)] u(2) unfolding y(1) by simp
    qed
  qed
  then show ?case by (auto simp: Let_def simp del: RemoveTree.simps(2) simp: RemoveTree.simps(2) [of "Suc n"] split: prod.split option.split)
qed

lemma through_file_shrunk: "shrunk x t u \<Longrightarrow> through_file u y \<Longrightarrow> through_file t y"
proof -
  assume "shrunk x t u"
  then have "is_reg u z \<Longrightarrow> is_reg t z" for z by (auto simp: is_reg_def shrunk_def)
  then show "through_file u y \<Longrightarrow> through_file t y" unfolding through_file_def list_ex_iff by blast
qed

lemma through_file_child:
  "through_file t (fst x, snd x @ [y]) \<longleftrightarrow> through_file t x \<or> is_reg t x"
  by (auto simp: through_file_def list_ex_iff less_Suc_eq)

lemma succeeds_each:
  assumes "remove_each (RemoveTree n) qs t = Some (ok, t')" and "wf_tree t" and "fault (t_disk t) = (\<lambda>_. None)"
    and "\<And>q. q \<in> set qs \<Longrightarrow> q \<noteq> [] \<and> \<not> through_file t (place_of q)"
    and "\<And>q u ok u'. \<lbrakk>q \<in> set qs; wf_tree u; fault (t_disk u) = (\<lambda>_. None); \<not> through_file u (place_of q);
        RemoveTree n u q = Some (ok, u')\<rbrakk> \<Longrightarrow> ok"
  shows ok
  using assms
proof (induction qs arbitrary: t)
  case (Cons q qs)
  obtain ok1 u where r: "RemoveTree n t q = Some (ok1, u)" using Cons.prems(1) by (auto split: option.split_asm)
  have u: "wf_tree u" "shrunk (place_of q) t u" using removes_RemoveTree [OF Cons.prems(2) _ r] Cons.prems(4) by (auto simp: removes_def)
  have ok1 using Cons.prems(5) [OF _ Cons.prems(2,3) _ r] Cons.prems(4) by simp
  then have rest: "remove_each (RemoveTree n) qs u = Some (ok, t')" using Cons.prems(1) r by simp
  have fault: "fault (t_disk u) = (\<lambda>_. None)" using u(2) Cons.prems(3) by (simp add: shrunk_def)
  have ways: "q' \<noteq> [] \<and> \<not> through_file u (place_of q')" if "q' \<in> set qs" for q'
    using Cons.prems(4) [of q'] that through_file_shrunk [OF u(2), of "place_of q'"] by auto
  show ?case
  proof (rule Cons.IH [OF rest u(1) fault])
    show "q' \<noteq> [] \<and> \<not> through_file u (place_of q')" if "q' \<in> set qs" for q' by (rule ways [OF that])
    show "o1" if "q' \<in> set qs" "wf_tree v" "fault (t_disk v) = (\<lambda>_. None)" "\<not> through_file v (place_of q')"
        "RemoveTree n v q' = Some (o1, v')" for q' v o1 v'
      by (rule Cons.prems(5) [OF list.set_intros(2) [OF that(1)] that(2-5)])
  qed
qed simp

lemma RemoveTree_succeeds:
  "\<lbrakk>RemoveTree n t p = Some (ok, t'); wf_tree t; fault (t_disk t) = (\<lambda>_. None); p \<noteq> []; snd (place_of p) \<noteq> [];
    \<not> through_file t (place_of p)\<rbrakk> \<Longrightarrow> ok"
proof (induction n arbitrary: t p ok t')
  case (Suc n)
  let ?x = "place_of p"
  have sys: "sys_ok (t_disk u)" if "fault (t_disk u) = (\<lambda>_. None)" for u using that by (simp add: sys_ok_def)
  show ?case
  proof (cases "is_dir t ?x")
    case False
    then show ?thesis using Suc.prems sys [of t] sys [of "called t"] by (auto simp: Let_def unlink_at_def split: if_split_asm)
  next
    case True
    have "list_tree (called t) p = (Some (map (\<lambda>name. p @ ''/'' @ name) (names_in (called t) ?x)), called (called (called t)))"
      using sys [of "called t"] sys [of "called (called t)"] Suc.prems(3) by (simp add: list_tree_def Let_def)
    then obtain ps t2 where l: "list_tree (called t) p = (Some ps, t2)" by blast
    note lp = listed_places [OF l, simplified, OF Suc.prems(2,4)]
    have t2: "wf_tree t2" "fault (t_disk t2) = (\<lambda>_. None)" "through_file t2 = through_file t" "set (places t2) = set (places t)"
      using Suc.prems(2,3) lp(2) by (auto simp: through_file_def fun_eq_iff)
    obtain ok3 t3 where e: "remove_each (RemoveTree n) ps t2 = Some (ok3, t3)"
      and r: "if ok3 then rmdir t3 p = (ok, t') else ok = False \<and> t' = t3"
      using Suc.prems True l sys [of t] by (auto simp: Let_def split: option.split_asm if_split_asm)
    have nr: "\<not> is_reg t ?x" using wf_treeD(2) [OF Suc.prems(2), of ?x] True Suc.prems(5) by (simp add: is_dir_def)
    have child: "q \<noteq> [] \<and> \<not> through_file t (place_of q) \<and> snd (place_of q) \<noteq> [] \<and> above ?x (place_of q)" if q: "q \<in> set ps" for q
    proof -
      obtain y where y: "place_of q = (fst ?x, snd ?x @ [y])" "q \<noteq> []" using lp(1) [OF q] by blast
      then show ?thesis using nr Suc.prems(6) above_child [of ?x "[y]"] by (simp only: through_file_child) simp
    qed
    have ok3
    proof (rule succeeds_each [OF e t2(1,2)])
      show "q \<noteq> [] \<and> \<not> through_file t2 (place_of q)" if "q \<in> set ps" for q using child [OF that] t2(3) by simp
      show "o1" if "q \<in> set ps" "wf_tree u" "fault (t_disk u) = (\<lambda>_. None)" "\<not> through_file u (place_of q)" "RemoveTree n u q = Some (o1, u')"
        for q u o1 u' using Suc.IH [OF that(5,2,3) _ _ that(4)] child [OF that(1)] by simp
    qed
    have "wf_tree t3 \<and> shrunk ?x t2 t3 \<and> (ok3 \<longrightarrow> (\<forall>q \<in> set ps. place_of q \<notin> set (places t3)))"
      by (rule removes_each [OF e t2(1)]) (use child removes_RemoveTree in blast)
    then have t3: "shrunk ?x t2 t3" "\<forall>q \<in> set ps. place_of q \<notin> set (places t3)" using \<open>ok3\<close> by auto
    have "names_in t3 ?x = []" using lp(3) [of t3] t3(2) shrunk_places [OF t3(1)] t2(4) by auto
    moreover have "fault (t_disk t3) = (\<lambda>_. None)" using t3(1) t2(2) by (simp add: shrunk_def)
    ultimately show ok using r \<open>ok3\<close> Suc.prems(5) sys [of t3] by (simp add: rmdir_def Let_def)
  qed
qed simp

lemma nothing_below:
  assumes "wf_tree t" and "x \<notin> set (places t)" and "snd x \<noteq> []" and "y \<in> set (places t)"
  shows "\<not> above x y"
  using assms(4)
proof (induction "length (snd y)" arbitrary: y rule: less_induct)
  case less
  show ?case
  proof
    assume a: "above x y"
    then have "x \<noteq> y" "snd y \<noteq> []" using assms(2,3) less.prems by (auto simp: above_def)
    then have p: "above x (parent_place y)" "length (snd (parent_place y)) < length (snd y)"
      using a by (auto simp: above_def parent_place_def prefix_def prod_eq_iff butlast_append)
    have "snd (parent_place y) \<noteq> []" using p(1) assms(3) by (auto simp: above_def)
    then have "parent_place y \<in> set (places t)" using wf_treeD(1) [OF assms(1) less.prems] by (simp add: is_dir_def places_def)
    from less.hyps [OF p(2) this] p(1) show False by blast
  qed
qed

text \<open>
  C9. \<open>RemoveTree\<close> removes what it is told and nothing else. For every tree and every path that names a
  place below the root or the working directory, the recursion ends, after at most as many levels as the tree is
  deep; nothing outside the path is touched, at any failure; the tree stays a tree; when it reports
  success, nothing is left at the path or below it; and it does report success when no call fails and no
  component of the path is a file.
\<close>

theorem remove_tree:
  assumes "wf_tree t" and "p \<noteq> []" and "snd (place_of p) \<noteq> []" and "deepest t \<le> n"
  shows "\<exists>ok t'. RemoveTree (Suc n) t p = Some (ok, t') \<and> wf_tree t' \<and> shrunk (place_of p) t t' \<and>
    (ok \<longrightarrow> list_all (\<lambda>y. \<not> above (place_of p) y) (places t')) \<and>
    (fault (t_disk t) = (\<lambda>_. None) \<and> \<not> through_file t (place_of p) \<longrightarrow> ok)"
proof -
  have "RemoveTree (Suc n) t p \<noteq> None" using RemoveTree_returns [OF assms(1,2)] assms(4) by simp
  then obtain ok t' where r: "RemoveTree (Suc n) t p = Some (ok, t')" by (metis not_None_eq surj_pair)
  note x = removes_RemoveTree [OF assms(1,2) r]
  have "list_all (\<lambda>y. \<not> above (place_of p) y) (places t')" if ok
    unfolding list_all_iff using nothing_below [of t' "place_of p"] x that assms(3) by (auto simp: removes_def)
  then show ?thesis using r x RemoveTree_succeeds [OF r assms(1) _ assms(2,3)] by (auto simp: removes_def)
qed

definition sample_dirs :: tree where
  "sample_dirs = \<lparr>t_dirs = [(False, [''a'']), (False, [''a'', ''b''])],
     t_disk = clean_disk\<lparr>files := [(''a/b/f'', ''1''), (''c'', ''2'')]\<rparr>\<rparr>"

lemmas tree_eval = directory_eval sample_dirs_def places_def names_in_def wf_tree_def is_name_def deepest_def list_all_iff

theorem remove_tree_witness:
  "\<exists>ok t'. RemoveTree (Suc 3) sample_dirs ''a'' = Some (ok, t') \<and> wf_tree t' \<and> shrunk (place_of ''a'') sample_dirs t' \<and>
    list_all (\<lambda>y. \<not> above (place_of ''a'') y) (places t') \<and> ok"
proof -
  have "wf_tree sample_dirs" "deepest sample_dirs \<le> 3" "snd (place_of ''a'') \<noteq> []" by (simp_all add: tree_eval)
  moreover have "fault (t_disk sample_dirs) = (\<lambda>_. None)" "\<not> through_file sample_dirs (place_of ''a'')"
    by (simp_all add: tree_eval through_file_def)
  ultimately show ?thesis using remove_tree [of sample_dirs "''a''" 3] by fastforce
qed

end
