(* ===== verification/Start.thy ===== *)
theory Start
  imports Directories Server Schema Sample
begin

text \<open>
  The start of the process (\<open>src/main.cc\<close>, \<open>ParseOptions\<close> and \<open>RunMain\<close>): the command line, the secrets of
  the clients, the state directory with its lock, and the identity that ties the journal to one Redis
  endpoint and namespace. A step that ends the process returns its exit code and message; \<open>None\<close> is an
  exception of the JSON library or \<open>abort\<close>. The lock and the random identifier are parameters.
\<close>

subsection \<open>The command line\<close>

datatype exit = Exit nat string

record options =
  o_host :: string
  o_port :: int
  o_prefix :: string
  o_state :: path
  o_clients :: path
  o_backend :: string
  o_socket :: path
  o_mock_count :: int

definition default_options :: options where
  "default_options = \<lparr>o_host = ''127.0.0.1'', o_port = 6379, o_prefix = ''vpp'', o_state = ''state'', o_clients = [],
     o_backend = ''vapi'', o_socket = ''/run/vpp/api.sock'', o_mock_count = 100\<rparr>"

text \<open>\<open>strtoll\<close> with base 10: the value, clamped to 64 bits, and the text after it.\<close>

definition is_space :: "char \<Rightarrow> bool" where
  "is_space c \<longleftrightarrow> c \<in> {CHR '' '', CHR 0x09, CHR 0x0A, CHR 0x0B, CHR 0x0C, CHR 0x0D}"

definition is_digit :: "char \<Rightarrow> bool" where
  "is_digit c \<longleftrightarrow> CHR ''0'' \<le> c \<and> c \<le> CHR ''9''"

definition strtoll :: "string \<Rightarrow> int \<times> string" where
  "strtoll s =
     (let t = dropWhile is_space s;
          signed = t \<noteq> [] \<and> (hd t = CHR ''-'' \<or> hd t = CHR ''+'');
          u = (if signed then tl t else t);
          n = int (of_digits 0 (takeWhile is_digit u)) in
      if takeWhile is_digit u = [] then (0, s)
      else (if signed \<and> hd t = CHR ''-'' then max (- (2 ^ 63)) (- n) else min (2 ^ 63 - 1) n, dropWhile is_digit u))"

definition ParseInt :: "string \<Rightarrow> int \<Rightarrow> int \<Rightarrow> exit + int" where
  "ParseInt s minimum maximum =
     (let (n, rest) = strtoll s in
      if s = [] \<or> rest \<noteq> [] \<or> n < minimum \<or> n > maximum then Inl (Exit 1 ''Invalid numeric option'') else Inr n)"

definition kUsage :: string where
  "kUsage = ''vpp-json-gateway --clients clients.json [--backend vapi|mock] '' @
     ''[--state directory] [--redis-host host] [--redis-port port] '' @
     ''[--namespace name] [--vpp-socket path] [--mock-count count]''"

definition set_option :: "string \<Rightarrow> string \<Rightarrow> options \<Rightarrow> exit + options" where
  "set_option name value opt =
     (if name = ''--clients'' then Inr (opt\<lparr>o_clients := value\<rparr>)
      else if name = ''--state'' then Inr (opt\<lparr>o_state := value\<rparr>)
      else if name = ''--backend'' then Inr (opt\<lparr>o_backend := value\<rparr>)
      else if name = ''--redis-host'' then Inr (opt\<lparr>o_host := value\<rparr>)
      else if name = ''--redis-port'' then map_sum id (\<lambda>n. opt\<lparr>o_port := n\<rparr>) (ParseInt value 1 65535)
      else if name = ''--namespace'' then Inr (opt\<lparr>o_prefix := value\<rparr>)
      else if name = ''--vpp-socket'' then Inr (opt\<lparr>o_socket := value\<rparr>)
      else if name = ''--mock-count'' then map_sum id (\<lambda>n. opt\<lparr>o_mock_count := n\<rparr>) (ParseInt value 0 1000000)
      else Inl (Exit 1 (''Unknown option: '' @ name)))"

fun parse_args :: "string list \<Rightarrow> options \<Rightarrow> exit + options" where
  "parse_args [] opt = Inr opt"
| "parse_args [name] opt = Inl (if name = ''--help'' then Exit 0 kUsage else Exit 1 ''Missing option value'')"
| "parse_args (name # value # rest) opt =
     (if name = ''--help'' then Inl (Exit 0 kUsage)
      else case set_option name value opt of Inl e \<Rightarrow> Inl e | Inr opt' \<Rightarrow> parse_args rest opt')"

text \<open>\<open>with_vapi\<close> is the build option \<open>WITH_VAPI\<close>.\<close>

definition ParseOptions :: "bool \<Rightarrow> string list \<Rightarrow> exit + options" where
  "ParseOptions with_vapi args =
     (case parse_args args default_options of
        Inl e \<Rightarrow> Inl e
      | Inr opt \<Rightarrow>
          if o_clients opt = [] \<or> \<not> IsId (JString (o_prefix opt)) \<or> (o_backend opt \<noteq> ''mock'' \<and> o_backend opt \<noteq> ''vapi'') then
            Inl (Exit 1 ''Invalid options; use --help'')
          else if \<not> with_vapi \<and> o_backend opt = ''vapi'' then
            Inl (Exit 1 (''This build has no VAPI support; rebuild with -DWITH_VAPI=ON or '' @
              ''explicitly select --backend mock''))
          else Inr opt)"

subsection \<open>The state of the gateway\<close>

text \<open>Parsing a file; a file that cannot be read is an empty input, which does not parse.\<close>

definition read_json :: "env \<Rightarrow> disk \<Rightarrow> path \<Rightarrow> json" where
  "read_json E d p = (case content d p of None \<Rightarrow> JDiscarded | Some t \<Rightarrow> parse E t)"

definition client_entry :: "string \<times> json \<Rightarrow> bool" where
  "client_entry kv \<longleftrightarrow> IsId (JString (fst kv)) \<and> is_string (snd kv) \<and> 32 \<le> length (jtext (snd kv))"

definition check_clients :: "json \<Rightarrow> string option" where
  "check_clients clients =
     (if \<not> is_object clients \<or> jsize clients = 0 then Some ''Expected clients JSON mapping client names to secrets''
      else if \<not> list_all client_entry (jmembers clients) then
        Some ''Client names must be IDs and secrets at least 32 characters''
      else None)"

definition new_identity :: "options \<Rightarrow> string \<Rightarrow> json" where
  "new_identity opt owner = jobj [(''owner'', JString owner), (''namespace'', JString (o_prefix opt)),
     (''host'', JString (o_host opt)), (''port'', JInt (o_port opt))]"

definition identity_path :: "options \<Rightarrow> path" where
  "identity_path opt = o_state opt @ ''/identity.json''"

text \<open>Read the identity, or make one; then compare it with the options.\<close>

definition load_identity :: "env \<Rightarrow> options \<Rightarrow> string \<Rightarrow> disk \<Rightarrow> ((exit + json) \<times> disk) option" where
  "load_identity E opt owner d =
     (let identity = read_json E d (identity_path opt) in
      if is_object identity then Some (Inr identity, d)
      else if 0 \<le> FileSize d (identity_path opt) then Some (Inl (Exit 1 ''Invalid journal identity''), d)
      else do {
        t \<leftarrow> dump E (new_identity opt owner);
        let (st, d') = WriteAtomic d (identity_path opt) t;
        Some (if \<not> st_ok st then Inl (Exit 1 (st_message st)) else Inr (new_identity opt owner), d') })"

definition check_identity :: "options \<Rightarrow> json \<Rightarrow> bool option" where
  "check_identity opt identity = do {
     namespace \<leftarrow> value_as get_string identity ''namespace'' [];
     if namespace \<noteq> o_prefix opt then Some False
     else do {
       host \<leftarrow> value_as get_string identity ''host'' [];
       Some (host = o_host opt \<and> json_eq (jat identity ''port'') (JInt (o_port opt)) \<and>
             contains identity ''owner'' \<and> IsId (jat identity ''owner'')) } }"

definition gateway_config :: "options \<Rightarrow> json \<Rightarrow> string \<Rightarrow> credentials \<Rightarrow> config" where
  "gateway_config opt clients owner cred = \<lparr>c_prefix = o_prefix opt, c_state = o_state opt, c_backend = o_backend opt,
     c_clients = clients, c_owner = owner, c_credentials = cred\<rparr>"

text \<open>
  \<open>RunMain\<close> up to the point where the server is made: \<open>locked\<close> says whether the lock was taken, \<open>owner\<close> is
  what \<open>RandomId\<close> returns.
\<close>

definition start :: "env \<Rightarrow> options \<Rightarrow> credentials \<Rightarrow> bool \<Rightarrow> string \<Rightarrow> tree \<Rightarrow> ((exit + config) \<times> tree) option" where
  "start E opt cred locked owner t =
     (let clients = read_json E (t_disk t) (o_clients opt) in
      case check_clients clients of
        Some message \<Rightarrow> Some (Inl (Exit 1 message), t)
      | None \<Rightarrow>
          (let (made, t1) = MakeDirectories t (o_state opt @ ''/spool'') in
           if \<not> made then Some (Inl (Exit 1 ''Cannot create state directory''), t1)
           else if \<not> locked then Some (Inl (Exit 1 ''Another gateway owns this state directory''), t1)
           else do {
             (r, d) \<leftarrow> load_identity E opt owner (t_disk t1);
             let t2 = t1\<lparr>t_disk := d\<rparr>;
             (case r of
                Inl e \<Rightarrow> Some (Inl e, t2)
              | Inr identity \<Rightarrow> do {
                  ours \<leftarrow> check_identity opt identity;
                  if \<not> ours then
                    Some (Inl (Exit 1 ''Journal belongs to a different Redis endpoint or namespace''), t2)
                  else
                    (let (made, t3) = MakeDirectories t2 (o_state opt @ ''/uploads'') in
                     if \<not> made then None
                     else Some (Inr (gateway_config opt clients (jtext (jat identity ''owner'')) cred), t3)) }) }))"

definition RunMain :: "env \<Rightarrow> bool \<Rightarrow> string list \<Rightarrow> credentials \<Rightarrow> bool \<Rightarrow> string \<Rightarrow> tree \<Rightarrow> ((exit + config) \<times> tree) option" where
  "RunMain E with_vapi args cred locked owner t =
     (case ParseOptions with_vapi args of Inl e \<Rightarrow> Some (Inl e, t) | Inr opt \<Rightarrow> start E opt cred locked owner t)"

subsection \<open>Options\<close>

definition valid_options :: "bool \<Rightarrow> options \<Rightarrow> bool" where
  "valid_options with_vapi opt \<longleftrightarrow> o_clients opt \<noteq> [] \<and> IsId (JString (o_prefix opt)) \<and>
     (o_backend opt = ''mock'' \<or> o_backend opt = ''vapi'' \<and> with_vapi) \<and>
     1 \<le> o_port opt \<and> o_port opt \<le> 65535 \<and> 0 \<le> o_mock_count opt \<and> o_mock_count opt \<le> 1000000"

definition args_of :: "options \<Rightarrow> string list" where
  "args_of opt = [''--clients'', o_clients opt, ''--state'', o_state opt, ''--backend'', o_backend opt,
     ''--redis-host'', o_host opt, ''--redis-port'', int_to_string (o_port opt), ''--namespace'', o_prefix opt,
     ''--vpp-socket'', o_socket opt, ''--mock-count'', int_to_string (o_mock_count opt)]"

lemma is_digit_to_string: "c \<in> set (to_string n) \<Longrightarrow> is_digit c \<and> \<not> is_space c \<and> c \<noteq> CHR ''-'' \<and> c \<noteq> CHR ''+''"
proof -
  have "list_all (\<lambda>c. is_digit c \<and> \<not> is_space c \<and> c \<noteq> CHR ''-'' \<and> c \<noteq> CHR ''+'') ''0123456789''" by code_simp
  moreover assume "c \<in> set (to_string n)"
  ultimately show ?thesis using to_string_digits [of c n] unfolding list_all_iff by blast
qed

lemma strtoll_to_string: "n < 2 ^ 63 \<Longrightarrow> strtoll (to_string n) = (int n, [])"
proof -
  assume n: "n < 2 ^ 63"
  obtain c cs where s: "to_string n = c # cs" by (cases "to_string n") auto
  have d: "is_digit a" "\<not> is_space c" "c \<noteq> CHR ''-''" "c \<noteq> CHR ''+''" if "a \<in> set (to_string n)" for a
    using is_digit_to_string [of a n] is_digit_to_string [of c n] that s by auto
  have "takeWhile is_digit (to_string n) = to_string n" "dropWhile is_digit (to_string n) = []"
    using d(1) by (auto simp: takeWhile_eq_all_conv dropWhile_eq_Nil_conv)
  moreover have "dropWhile is_space (to_string n) = to_string n" "hd (to_string n) = c" using d(2) [of c] s by simp_all
  ultimately show ?thesis using n d(3,4) [of c] s of_digits_to_string [of n]
    unfolding strtoll_def Let_def by (simp add: min_def del: of_digits.simps)
qed

lemma ParseInt_to_string:
  "0 \<le> low \<Longrightarrow> low \<le> n \<Longrightarrow> n \<le> high \<Longrightarrow> high < 2 ^ 63 \<Longrightarrow> ParseInt (int_to_string n) low high = Inr n"
  using strtoll_to_string [of "nat n"] by (simp add: ParseInt_def int_to_string_def)

lemma ParseInt_bounds: "ParseInt s low high = Inr n \<Longrightarrow> low \<le> n \<and> n \<le> high"
  by (auto simp: ParseInt_def Let_def split: prod.split_asm if_split_asm)

definition numbers_valid :: "options \<Rightarrow> bool" where
  "numbers_valid opt \<longleftrightarrow> 1 \<le> o_port opt \<and> o_port opt \<le> 65535 \<and> 0 \<le> o_mock_count opt \<and> o_mock_count opt \<le> 1000000"

lemma map_sum_Inr: "map_sum id f x = Inr y \<longleftrightarrow> (\<exists>z. x = Inr z \<and> y = f z)"
  by (cases x) auto

lemma set_option_valid: "set_option name value opt = Inr opt' \<Longrightarrow> numbers_valid opt \<Longrightarrow> numbers_valid opt'"
  by (auto simp: set_option_def numbers_valid_def map_sum_Inr split: if_split_asm dest: ParseInt_bounds)

lemma parse_args_valid: "parse_args args opt = Inr opt' \<Longrightarrow> numbers_valid opt \<Longrightarrow> numbers_valid opt'"
  by (induction args opt rule: parse_args.induct) (auto split: if_split_asm sum.split_asm dest: set_option_valid)


subsection \<open>Ownership of the state directory\<close>

text \<open>The identity on disk agrees with the options and names the owner.\<close>

definition belongs :: "env \<Rightarrow> options \<Rightarrow> string \<Rightarrow> disk \<Rightarrow> bool" where
  "belongs E opt owner d \<longleftrightarrow> is_object (read_json E d (identity_path opt)) \<and>
     check_identity opt (read_json E d (identity_path opt)) = Some True \<and>
     jtext (jat (read_json E d (identity_path opt)) ''owner'') = owner"

lemma new_identity_object: "new_identity opt owner = JObject [(''host'', JString (o_host opt)), (''namespace'', JString (o_prefix opt)),
    (''owner'', JString owner), (''port'', JInt (o_port opt))]"
  by (simp add: new_identity_def jobj_def)

lemma IsId_ascii: "IsId (JString s) \<Longrightarrow> ascii s"
proof -
  have "list_all (\<lambda>c. of_char c < (128 :: nat)) ''ABCDEFGHIJKLMNOPQRSTUVWXYZabcdefghijklmnopqrstuvwxyz0123456789_-''" by code_simp
  then show "IsId (JString s) \<Longrightarrow> ascii s"
    unfolding ascii_def list_all_iff using IsId_chars id_char_iff by blast
qed

lemma new_identity_document:
  assumes "ascii owner" "ascii (o_prefix opt)" "ascii (o_host opt)" "\<bar>o_port opt\<bar> \<le> 65535"
  shows "document (new_identity opt owner)"
proof -
  have "ascii ''host''" "ascii ''namespace''" "ascii ''owner''" "ascii ''port''" by code_simp+
  moreover have "keys_sorted (jmembers (new_identity opt owner))" unfolding new_identity_def by (rule keys_sorted_jobj)
  ultimately show ?thesis using assms by (auto simp: new_identity_object)
qed

lemma check_identity_norm:
  "check_identity opt (norm_json (new_identity opt owner)) = Some (IsId (JString owner))" if "0 \<le> o_port opt" "o_port opt < 2 ^ 63"
  using that by (simp add: new_identity_object check_identity_def value_as_def jat_def contains_def)

lemma load_identity_cases:
  assumes "json_codec E" and "document (new_identity opt owner)" and "load_identity E opt owner d = Some (Inr identity, d')"
  shows "is_object (read_json E d' (identity_path opt)) \<and>
    jat identity ''owner'' = jat (read_json E d' (identity_path opt)) ''owner'' \<and>
    (d' = d \<and> identity = read_json E d (identity_path opt) \<or>
     content d (identity_path opt) = None \<and> identity = new_identity opt owner \<and>
     read_json E d' (identity_path opt) = norm_json identity)"
proof (cases "is_object (read_json E d (identity_path opt))")
  case True
  then show ?thesis using assms(3) by (auto simp: load_identity_def Let_def)
next
  case False
  obtain t where t: "dump E (new_identity opt owner) = Some t" "parse E t = norm_json (new_identity opt owner)"
    using assms(1,2) by (auto simp: json_codec_def)
  obtain st where "WriteAtomic d (identity_path opt) t = (st, d')" "st_ok st" "content d (identity_path opt) = None"
    "identity = new_identity opt owner"
    using False assms(3) t(1)
    by (auto simp: load_identity_def Let_def FileSize_def split: if_split_asm prod.split_asm option.split_asm)
  moreover from this have "content d' (identity_path opt) = Some t" using write_atomic_frame(2) by blast
  ultimately show ?thesis using t(2)
    by (auto simp: read_json_def new_identity_object jat_def)
qed

lemma read_json_grown: "grown x t t' \<Longrightarrow> read_json E (t_disk t') p = read_json E (t_disk t) p"
  by (simp add: grown_def read_json_def content_def)

lemma start_steps:
  assumes "start E opt cred locked owner t = Some (Inr cfg, t')"
  obtains t1 identity d where
    "grown (place_of (o_state opt @ ''/spool'')) t t1" "is_dir t1 (place_of (o_state opt @ ''/spool''))" locked
    "load_identity E opt owner (t_disk t1) = Some (Inr identity, d)" "check_identity opt identity = Some True"
    "grown (place_of (o_state opt @ ''/uploads'')) (t1\<lparr>t_disk := d\<rparr>) t'" "is_dir t' (place_of (o_state opt @ ''/uploads''))"
    "c_owner cfg = jtext (jat identity ''owner'')" "check_clients (c_clients cfg) = None"
proof -
  let ?c = "read_json E (t_disk t) (o_clients opt)"
  have c: "check_clients ?c = None" using assms by (auto simp: start_def Let_def split: option.split_asm)
  obtain made t1 where m: "MakeDirectories t (o_state opt @ ''/spool'') = (made, t1)" by force
  have l: made locked using assms c m by (auto simp: start_def Let_def split: if_split_asm)
  obtain r d where rd: "load_identity E opt owner (t_disk t1) = Some (r, d)"
    using assms c m l by (auto simp: start_def Let_def Option.bind_eq_Some_conv)
  obtain identity where "r = Inr identity" using assms c m l rd by (cases r) (auto simp: start_def Let_def)
  then have i: "load_identity E opt owner (t_disk t1) = Some (Inr identity, d)" "check_identity opt identity = Some True"
    "(let (made, t3) = MakeDirectories (t1\<lparr>t_disk := d\<rparr>) (o_state opt @ ''/uploads'') in
      if \<not> made then None else Some (Inr (gateway_config opt ?c (jtext (jat identity ''owner'')) cred), t3)) = (Some (Inr cfg, t') :: ((exit + config) \<times> tree) option)"
    using assms c m l rd by (auto simp: start_def Let_def Option.bind_eq_Some_conv split: if_split_asm)
  then have u: "MakeDirectories (t1\<lparr>t_disk := d\<rparr>) (o_state opt @ ''/uploads'') = (True, t')"
    "cfg = gateway_config opt ?c (jtext (jat identity ''owner'')) cred"
    by (auto split: prod.split_asm if_split_asm)
  show ?thesis
    by (rule that [OF grown_MakeDirectories [OF m] _ l(2) i(1,2) grown_MakeDirectories [OF u(1)] made_MakeDirectories [OF u(1)]])
      (use m l(1) c u(2) made_MakeDirectories in \<open>auto simp: gateway_config_def\<close>)
qed

lemma start_belongs:
  assumes "json_codec E" and "ascii owner" "valid_options wv opt" "ascii (o_host opt)"
    and "start E opt cred locked owner t = Some (Inr cfg, t')"
  shows "belongs E opt (c_owner cfg) (t_disk t')"
proof -
  have doc: "document (new_identity opt owner)" "0 \<le> o_port opt" "o_port opt < 2 ^ 63"
    using assms(2-4) IsId_ascii by (auto simp: valid_options_def intro!: new_identity_document)
  obtain t1 identity d where s: "load_identity E opt owner (t_disk t1) = Some (Inr identity, d)" "check_identity opt identity = Some True"
    "grown (place_of (o_state opt @ ''/uploads'')) (t1\<lparr>t_disk := d\<rparr>) t'" "c_owner cfg = jtext (jat identity ''owner'')"
    using start_steps [OF assms(5)] by metis
  have r: "read_json E (t_disk t') p = read_json E d p" for p using read_json_grown [OF s(3)] by simp
  note c = load_identity_cases [OF assms(1) doc(1) s(1)]
  have "check_identity opt (new_identity opt owner) = check_identity opt (norm_json (new_identity opt owner))"
    using doc(2,3) by (simp add: new_identity_object check_identity_def value_as_def jat_def contains_def)
  then show ?thesis using c s(2,4) by (auto simp: belongs_def r)
qed

text \<open>
  C33. A state directory belongs to one gateway. A process that starts holds the lock, has its
  directories, and knows only clients with an identifier and a secret of at least 32 characters; the
  identity on disk then agrees with its options and names its owner. From then on, whatever options and
  randomness a later process on that directory has, it starts only for the same Redis host and
  namespace, and with the same owner.
\<close>

theorem start_owns_state:
  assumes "json_codec E" and "ascii owner" and "valid_options wv opt" and "ascii (o_host opt)"
    and "start E opt cred locked owner t = Some (Inr cfg, t')"
  shows "locked \<and> list_all client_entry (jmembers (c_clients cfg)) \<and>
    is_dir t' (place_of (o_state opt @ ''/spool'')) \<and> is_dir t' (place_of (o_state opt @ ''/uploads'')) \<and>
    belongs E opt (c_owner cfg) (t_disk t') \<and>
    (\<forall>opt2 cred2 locked2 owner2 cfg2 t2. o_state opt2 = o_state opt \<longrightarrow>
       start E opt2 cred2 locked2 owner2 t' = Some (Inr cfg2, t2) \<longrightarrow>
       c_owner cfg2 = c_owner cfg \<and> o_prefix opt2 = o_prefix opt \<and> o_host opt2 = o_host opt)"
proof -
  note b = start_belongs [OF assms]
  obtain t1 identity d where s: "is_dir t1 (place_of (o_state opt @ ''/spool''))" locked
    "grown (place_of (o_state opt @ ''/uploads'')) (t1\<lparr>t_disk := d\<rparr>) t'" "is_dir t' (place_of (o_state opt @ ''/uploads''))"
    "check_clients (c_clients cfg) = None"
    using start_steps [OF assms(5)] by metis
  have "is_dir t' (place_of (o_state opt @ ''/spool''))" using s(1,3) by (auto simp: grown_def is_dir_def)
  moreover have "c_owner cfg2 = c_owner cfg \<and> o_prefix opt2 = o_prefix opt \<and> o_host opt2 = o_host opt"
    if o: "o_state opt2 = o_state opt" and r: "start E opt2 cred2 locked2 owner2 t' = Some (Inr cfg2, t2)"
    for opt2 cred2 locked2 owner2 cfg2 t2
  proof -
    obtain u1 identity2 d2 where u: "grown (place_of (o_state opt2 @ ''/spool'')) t' u1"
      "load_identity E opt2 owner2 (t_disk u1) = Some (Inr identity2, d2)" "check_identity opt2 identity2 = Some True"
      "c_owner cfg2 = jtext (jat identity2 ''owner'')"
      using start_steps [OF r] by metis
    let ?i = "read_json E (t_disk t') (identity_path opt)"
    have p: "identity_path opt2 = identity_path opt" using o by (simp add: identity_path_def)
    have "identity2 = ?i"
      using u(2) b read_json_grown [OF u(1)] by (auto simp: load_identity_def belongs_def p)
    then show ?thesis using u(3,4) b by (auto simp: belongs_def check_identity_def Option.bind_eq_Some_conv split: if_split_asm)
  qed
  ultimately show ?thesis using b s by (auto simp: check_clients_def split: if_split_asm)
qed

definition sample_clients :: json where
  "sample_clients = JObject [(''alice'', JString (replicate 32 (CHR ''k'')))]"

definition sample_options :: options where
  "sample_options = default_options\<lparr>o_clients := ''clients.json'', o_backend := ''mock''\<rparr>"

definition sample_tree :: tree where
  "sample_tree = \<lparr>t_dirs = [], t_disk = clean_disk\<lparr>files := [(''clients.json'', replicate (to_nat sample_clients) (CHR ''x''))]\<rparr>\<rparr>"

lemma fst_set_delete: "fst ` set (AList.delete k al) = fst ` set al - {k}"
  by (induction al) auto

lemma WriteAtomic_succeeds:
  assumes "fault d = (\<lambda>_. None)"
  shows "\<exists>d'. WriteAtomic d p data = (Ok, d') \<and> fault d' = (\<lambda>_. None) \<and>
    fst ` set (files d') \<subseteq> insert p (insert (p @ ''.tmp'') (fst ` set (files d)))"
  using assms
  by (simp add: WriteAtomic_def io_defs io_simps sys_ok_def Let_def set_file_def del_file_def next_call_def content_def
      dom_update fst_set_delete delete_conv' update_conv' split: if_split option.split) auto

lemma sample_start:
  "\<exists>t'. start coded_env sample_options \<lparr>redis_password = None, redis_username = None\<rparr> True ''abc'' sample_tree =
     Some (Inr (gateway_config sample_options sample_clients ''abc'' \<lparr>redis_password = None, redis_username = None\<rparr>), t')"
proof -
  have sel: "o_clients sample_options = ''clients.json''" "o_state sample_options = ''state''" "identity_path sample_options = ''state/identity.json''"
    by (simp_all add: sample_options_def default_options_def identity_path_def)
  have ids: "IsId (JString ''alice'')" "IsId (JString ''abc'')" by code_simp+
  have n: "norm_json sample_clients = sample_clients" by (simp add: sample_clients_def)
  have r: "read_json coded_env (t_disk sample_tree) ''clients.json'' = sample_clients"
    by (simp add: read_json_def sample_tree_def content_def n)
  have c: "check_clients sample_clients = None"
    by (simp add: check_clients_def sample_clients_def client_entry_def ids)
  let ?d = "(t_disk sample_tree)\<lparr>tick := 3\<rparr>"
  let ?t = "\<lparr>t_dirs = [(False, [''state'', ''spool'']), (False, [''state''])], t_disk = ?d\<rparr>"
  have m: "MakeDirectories sample_tree ''state/spool'' = (True, ?t)"
    by (simp add: MakeDirectories.simps directory_eval sample_tree_def)
  obtain t where t: "dump coded_env (new_identity sample_options ''abc'') = Some t" by simp
  obtain d where d: "WriteAtomic ?d ''state/identity.json'' t = (Ok, d)" "fault d = (\<lambda>_. None)"
    "fst ` set (files d) \<subseteq> {''state/identity.json'', ''state/identity.json.tmp'', ''clients.json''}"
    using WriteAtomic_succeeds [of ?d "''state/identity.json''" t] by (auto simp: sample_tree_def clean_disk_def)
  have l: "load_identity coded_env sample_options ''abc'' ?d = Some (Inr (new_identity sample_options ''abc''), d)"
    using d(1) t by (simp add: load_identity_def sel read_json_def content_def FileSize_def sample_tree_def)
  have k: "check_identity sample_options (new_identity sample_options ''abc'') = Some True"
    by (simp add: new_identity_object check_identity_def value_as_def jat_def contains_def ids)
  have "proper ''state/uploads''"
    by (auto simp: proper_def Cons_eq_append_conv append_eq_Cons_conv)
  moreover have reg: "y \<in> {(False, [''state'', ''identity.json'']), (False, [''state'', ''identity.json.tmp'']), (False, [''clients.json''])}"
    if "is_reg (?t\<lparr>t_disk := d\<rparr>) y" for y
    using that image_mono [OF d(3), of place_of] by (auto simp: is_reg_def place_of_def)
  have "unobstructed (place_of ''state/uploads'') (?t\<lparr>t_disk := d\<rparr>)"
    unfolding unobstructed_def
  proof (intro conjI allI impI)
    fix y
    assume "above y (place_of ''state/uploads'')"
    then show "\<not> is_reg (?t\<lparr>t_disk := d\<rparr>) y" using reg [of y] by (auto simp: above_def place_of_def)
  qed (simp add: d(2))
  ultimately obtain t' where u: "MakeDirectories (?t\<lparr>t_disk := d\<rparr>) ''state/uploads'' = (True, t')"
    using MakeDirectories_makes [of "''state/uploads''" "?t\<lparr>t_disk := d\<rparr>"]
    by (cases "MakeDirectories (?t\<lparr>t_disk := d\<rparr>) ''state/uploads''") auto
  have "jat (new_identity sample_options ''abc'') ''owner'' = JString ''abc''" by (simp add: new_identity_object jat_def)
  then show ?thesis using u by (simp add: start_def Let_def sel r c m l k)
qed

theorem start_owns_state_witness:
  "\<exists>t'. start coded_env sample_options \<lparr>redis_password = None, redis_username = None\<rparr> True ''abc'' sample_tree =
     Some (Inr (gateway_config sample_options sample_clients ''abc'' \<lparr>redis_password = None, redis_username = None\<rparr>), t') \<and>
     belongs coded_env sample_options ''abc'' (t_disk t')"
proof -
  obtain t' where t: "start coded_env sample_options \<lparr>redis_password = None, redis_username = None\<rparr> True ''abc'' sample_tree =
     Some (Inr (gateway_config sample_options sample_clients ''abc'' \<lparr>redis_password = None, redis_username = None\<rparr>), t')"
    using sample_start by blast
  have "ascii ''abc''" "ascii ''127.0.0.1''" "IsId (JString ''vpp'')" by code_simp+
  then have "ascii ''abc''" "ascii (o_host sample_options)" "valid_options True sample_options"
    by (simp_all add: sample_options_def default_options_def valid_options_def)
  from start_owns_state [OF json_codec_coded this(1,3,2) t] t show ?thesis by (auto simp: gateway_config_def)
qed

end
