(* ===== verification/Assembler.thy ===== *)
theory Assembler
  imports Spool
begin

text \<open>
  Class \<open>ResponseAssembler\<close> of \<open>src/common.cc\<close>, the client side of fragmentation, and its
  round trip with the spool. \<open>Accept\<close> returns the status, the logical response when one is
  ready, and the object.
\<close>

record assembler =
  as_data :: string
  as_id :: string
  as_digest :: string
  as_total :: nat
  as_record :: nat

definition Assembler_new :: assembler where
  "Assembler_new = \<lparr>as_data = [], as_id = [], as_digest = [], as_total = 0, as_record = 0\<rparr>"

definition invalid_reply :: status where
  "invalid_reply = mk_status ''invalid_reply'' ''Invalid response fragment''"

definition fragment_fields :: "json \<Rightarrow> bool" where
  "fragment_fields frame \<longleftrightarrow>
     list_all (\<lambda>k. contains frame k \<and> IsUnsigned (jat frame k) UINT64_MAX)
       [''record'', ''offset'', ''total'', ''seq''] \<and>
     contains frame ''sha256'' \<and> is_string (jat frame ''sha256'') \<and>
     contains frame ''data'' \<and> is_string (jat frame ''data'') \<and>
     contains frame ''encoding'' \<and> json_eq (jat frame ''encoding'') (JString ''base64-json'')"


definition start_record :: "assembler \<Rightarrow> json \<Rightarrow> assembler" where
  "start_record a frame =
     a\<lparr>as_total := juint (jat frame ''total''), as_record := juint (jat frame ''record''),
       as_id := jtext (jat frame ''id''), as_digest := jtext (jat frame ''sha256'')\<rparr>"

text \<open>
  The decoded bytes of one fragment: what \<open>EVP_DecodeBlock\<close> returns less its padding, if that
  is not empty, fits into \<open>room\<close> bytes and encodes to the same text again.
\<close>

definition decode_fragment :: "env \<Rightarrow> string \<Rightarrow> nat \<Rightarrow> string option" where
  "decode_fragment E encoded room =
     (case dec64 E encoded of
        None \<Rightarrow> None
      | Some decoded \<Rightarrow>
          (let count = int (length decoded)
                 - (if last encoded = CHR ''='' then 1 else 0)
                 - (if encoded ! (length encoded - 2) = CHR ''='' then 1 else 0);
               data = take (nat count) decoded in
           if count \<le> 0 \<or> int room < count then None
           else if enc64 E data \<noteq> encoded then None else Some data))"

definition finish_record :: "env \<Rightarrow> assembler \<Rightarrow> json \<Rightarrow> status \<times> json option \<times> assembler" where
  "finish_record E a frame =
     (if Sha256 E (as_data a) \<noteq> as_digest a then (invalid_reply, None, a)
      else if \<not> st_ok (CheckNesting (as_data a)) then (invalid_reply, None, a)
      else
        (let logical = parse E (as_data a) in
         if \<not> is_object logical \<or> \<not> contains logical ''id'' \<or>
            \<not> json_eq (jat logical ''id'') (JString (as_id a)) \<or> \<not> contains logical ''type'' \<or>
            \<not> (json_eq (jat logical ''type'') (JString ''chunk'') \<or>
               json_eq (jat logical ''type'') (JString ''result'') \<or>
               json_eq (jat logical ''type'') (JString ''error''))
         then (invalid_reply, None, a)
         else (Ok, Some (jset logical ''seq'' (jat frame ''seq'')), a\<lparr>as_data := [], as_total := 0\<rparr>)))"

definition Accept :: "env \<Rightarrow> assembler \<Rightarrow> json \<Rightarrow> status \<times> json option \<times> assembler" where
  "Accept E a frame =
     (if \<not> is_object frame \<or> \<not> contains frame ''type'' \<or> \<not> is_string (jat frame ''type'') \<or>
         \<not> contains frame ''id'' \<or> \<not> is_string (jat frame ''id'') then (invalid_reply, None, a)
      else if \<not> json_eq (jat frame ''type'') (JString ''fragment'') then
        (if as_total a \<noteq> 0 \<and> \<not> json_eq (jat frame ''type'') (JString ''error'') then (invalid_reply, None, a)
         else (Ok, Some frame, a\<lparr>as_data := [], as_total := 0\<rparr>))
      else if \<not> fragment_fields frame then (invalid_reply, None, a)
      else
        (let tot = juint (jat frame ''total''); offset = juint (jat frame ''offset'');
             encoded = jtext (jat frame ''data'') in
         if tot = 0 \<or> kRecordBytes < tot \<or> encoded = [] \<or> 64 * 1024 < length encoded \<or>
            length encoded mod 4 \<noteq> 0 then (invalid_reply, None, a)
         else if as_total a = 0 \<and> offset \<noteq> 0 then (invalid_reply, None, a)
         else
           (let a1 = (if as_total a = 0 then start_record a frame else a) in
            if offset \<noteq> length (as_data a1) \<or> tot \<noteq> as_total a1 \<or>
               juint (jat frame ''record'') \<noteq> as_record a1 \<or>
               \<not> json_eq (jat frame ''id'') (JString (as_id a1)) \<or>
               \<not> json_eq (jat frame ''sha256'') (JString (as_digest a1)) then (invalid_reply, None, a1)
            else
              (case decode_fragment E encoded (as_total a1 - length (as_data a1)) of
                 None \<Rightarrow> (invalid_reply, None, a1)
               | Some data \<Rightarrow>
                   (let a2 = a1\<lparr>as_data := as_data a1 @ data\<rparr> in
                    if length (as_data a2) \<noteq> as_total a2 then (Ok, None, a2)
                    else finish_record E a2 frame)))))"

text \<open>A consumer that feeds frames in order and collects the responses that become ready.\<close>

fun accept_all :: "env \<Rightarrow> assembler \<Rightarrow> json list \<Rightarrow> status \<times> json list \<times> assembler" where
  "accept_all E a [] = (Ok, [], a)"
| "accept_all E a (f # fs) =
     (let (s, r, a1) = Accept E a f in
      if \<not> st_ok s then (s, [], a1)
      else (let (s', rs, a2) = accept_all E a1 fs in
            (s', (case r of None \<Rightarrow> rs | Some j \<Rightarrow> j # rs), a2)))"

subsection \<open>Bounds and integrity\<close>

definition assembler_inv :: "assembler \<Rightarrow> bool" where
  "assembler_inv a \<longleftrightarrow> length (as_data a) \<le> as_total a \<and> as_total a \<le> kRecordBytes"

lemma decode_fragment_bound: "decode_fragment E e n = Some s \<Longrightarrow> s \<noteq> [] \<and> length s \<le> n"
  by (auto simp: decode_fragment_def Let_def min_def split: option.splits if_splits)

lemma assembler_inv_Accept:
  assumes "Accept E a f = (s, r, a')" and "assembler_inv a"
  shows "assembler_inv a'"
proof -
  have start: "assembler_inv (start_record a f)"
    if "as_total a = 0" "juint (jat f ''total'') \<le> kRecordBytes"
    using that assms(2) by (simp add: assembler_inv_def start_record_def)
  show ?thesis
    using assms start
    by (auto simp: Accept_def Let_def finish_record_def assembler_inv_def
        dest!: decode_fragment_bound split: if_splits option.splits)
qed

text \<open>
  C7. The assembler's memory is bounded by one logical record: whatever frames it is fed, the
  bytes it buffers never exceed the announced total, and that never exceeds 16 MiB.
\<close>

theorem assembler_bounded:
  "accept_all E Assembler_new fs = (s, rs, a) \<Longrightarrow>
     length (as_data a) \<le> as_total a \<and> as_total a \<le> kRecordBytes"
proof -
  have "accept_all E a0 fs = (s, rs, a) \<Longrightarrow> assembler_inv a0 \<Longrightarrow> assembler_inv a" for a0
  proof (induction fs arbitrary: a0 s rs a)
    case (Cons f fs)
    obtain s1 r1 a1 where a1: "Accept E a0 f = (s1, r1, a1)" by (cases "Accept E a0 f")
    obtain s2 rs2 a2 where rest: "accept_all E a1 fs = (s2, rs2, a2)" by (cases "accept_all E a1 fs")
    show ?case
      using Cons.prems a1 rest assembler_inv_Accept [OF a1] Cons.IH [OF rest] by (auto split: if_splits)
  qed simp
  then show "accept_all E Assembler_new fs = (s, rs, a) \<Longrightarrow> ?thesis"
    by (auto simp: assembler_inv_def Assembler_new_def)
qed

subsection \<open>Round trip of one fragment\<close>

lemma padding_bound: "padding n \<le> 2"
  by (simp add: padding_def)

lemma decode_fragment_enc:
  assumes "evp_base64 E" and "s \<noteq> []" and "length s \<le> n"
  shows "decode_fragment E (enc64 E s) n = Some s"
proof -
  let ?p = "padding (length s)"
  have dec: "dec64 E (enc64 E s) = Some (s @ replicate ?p (CHR 0x00))"
    and ends: "last (enc64 E s) = CHR ''='' \<longleftrightarrow> 1 \<le> ?p"
      "enc64 E s ! (length (enc64 E s) - 2) = CHR ''='' \<longleftrightarrow> ?p = 2"
    using assms(1,2) unfolding evp_base64_def by blast+
  have count: "int (length (s @ replicate ?p (CHR 0x00))) - (if last (enc64 E s) = CHR ''='' then 1 else 0) -
      (if enc64 E s ! (length (enc64 E s) - 2) = CHR ''='' then 1 else 0) = int (length s)"
    unfolding ends using padding_bound [of "length s"] by auto
  show ?thesis
    unfolding decode_fragment_def dec option.case Let_def count using assms(2,3) by simp
qed

lemma enc64_size:
  assumes "evp_base64 E" and "s \<noteq> []" and "length s \<le> kBlock"
  shows "enc64 E s \<noteq> []" and "length (enc64 E s) \<le> 64 * 1024" and "length (enc64 E s) mod 4 = 0"
proof -
  have len: "length (enc64 E s) = 4 * ((length s + 2) div 3)"
    using assms(1,2) by (simp add: evp_base64_def)
  moreover have "1 \<le> (length s + 2) div 3" using assms(2) by (cases s) auto
  ultimately show "enc64 E s \<noteq> []" by auto
  have "(length s + 2) div 3 \<le> (kBlock + 2) div 3" using assms(3) by (intro div_le_mono) simp
  then show "length (enc64 E s) \<le> 64 * 1024" using len by (simp add: kBlock_def)
  show "length (enc64 E s) mod 4 = 0" using len by simp
qed

definition progress :: "string \<Rightarrow> nat \<Rightarrow> nat \<Rightarrow> string \<Rightarrow> string \<Rightarrow> assembler" where
  "progress rid r tot sha data =
     \<lparr>as_data = data, as_id = rid, as_digest = sha, as_total = tot, as_record = r\<rparr>"

definition idle :: "assembler \<Rightarrow> bool" where
  "idle a \<longleftrightarrow> as_total a = 0 \<and> as_data a = []"

abbreviation wire_fragment :: "env \<Rightarrow> string \<Rightarrow> nat \<Rightarrow> nat \<Rightarrow> nat \<Rightarrow> string \<Rightarrow> nat \<Rightarrow> string \<Rightarrow> json" where
  "wire_fragment E rid r ofs tot sha n b \<equiv> jset (fragment E rid r ofs tot sha b) ''seq'' (JUint n)"

lemma wire_fragment_sel:
  "jat (wire_fragment E rid r ofs tot sha n b) ''id'' = JString rid"
  "jat (wire_fragment E rid r ofs tot sha n b) ''type'' = JString ''fragment''"
  "jat (wire_fragment E rid r ofs tot sha n b) ''record'' = JUint r"
  "jat (wire_fragment E rid r ofs tot sha n b) ''offset'' = JUint ofs"
  "jat (wire_fragment E rid r ofs tot sha n b) ''total'' = JUint tot"
  "jat (wire_fragment E rid r ofs tot sha n b) ''sha256'' = JString sha"
  "jat (wire_fragment E rid r ofs tot sha n b) ''encoding'' = JString ''base64-json''"
  "jat (wire_fragment E rid r ofs tot sha n b) ''data'' = JString (enc64 E b)"
  "jat (wire_fragment E rid r ofs tot sha n b) ''seq'' = JUint n"
  by (simp_all add: fragment_def json_simps)

lemma wire_fragment_contains:
  "contains (wire_fragment E rid r ofs tot sha n b) k \<longleftrightarrow>
     k \<in> {''id'', ''type'', ''record'', ''offset'', ''total'', ''sha256'', ''encoding'', ''data'', ''seq''}"
  by (auto simp: fragment_def json_simps)

lemma Accept_fragment:
  assumes "evp_base64 E" and "b \<noteq> []" and "length b \<le> kBlock"
    and "tot \<le> kRecordBytes" and "ofs + length b \<le> tot" and "r \<le> UINT64_MAX" and "n \<le> UINT64_MAX"
    and "idle a \<and> ofs = 0 \<and> data = [] \<or> a = progress rid r tot sha data \<and> ofs = length data"
  shows "Accept E a (wire_fragment E rid r ofs tot sha n b) =
    (if ofs + length b \<noteq> tot then (Ok, None, progress rid r tot sha (data @ b))
     else finish_record E (progress rid r tot sha (data @ b)) (wire_fragment E rid r ofs tot sha n b))"
proof -
  let ?f = "wire_fragment E rid r ofs tot sha n b"
  have big: "kRecordBytes \<le> UINT64_MAX" by (simp add: kRecordBytes_def UINT64_MAX_def)
  have pos: "0 < tot" using assms(2,5) by (cases b) auto
  have fields: "fragment_fields ?f"
    using assms(4-7) big
    by (simp add: fragment_fields_def wire_fragment_sel wire_fragment_contains IsUnsigned_def)
  have start: "(if as_total a = 0 then start_record a ?f else a) = progress rid r tot sha data"
    using assms(8) pos by (auto simp: idle_def start_record_def progress_def wire_fragment_sel)
  have ofs: "length data = ofs" using assms(8) by auto
  have zero: "\<not> (as_total a = 0 \<and> ofs \<noteq> 0)" using assms(8) pos by (auto simp: progress_def)
  have dec: "decode_fragment E (enc64 E b) (tot - ofs) = Some b"
    using assms(1,2,5) by (intro decode_fragment_enc) auto
  have obj: "is_object ?f" by (simp add: json_simps)
  have head: "is_object ?f" "contains ?f ''type''" "contains ?f ''id''" "is_string (jat ?f ''type'')"
      "is_string (jat ?f ''id'')" "json_eq (jat ?f ''type'') (JString ''fragment'')"
    by (simp_all add: obj wire_fragment_sel wire_fragment_contains)
  have size: "\<not> (tot = 0 \<or> kRecordBytes < tot \<or> enc64 E b = [] \<or> 64 * 1024 < length (enc64 E b) \<or>
      length (enc64 E b) mod 4 \<noteq> 0)"
    using enc64_size [OF assms(1-3)] assms(4) pos by simp
  show ?thesis
    unfolding Accept_def Let_def start
    using head fields zero dec size ofs
    by (auto simp: wire_fragment_sel progress_def)
qed

subsection \<open>Round trip of a record and of a stream\<close>

text \<open>A logical response that the codec reproduces and the assembler may deliver.\<close>

definition deliverable :: "env \<Rightarrow> string \<Rightarrow> json \<Rightarrow> bool" where
  "deliverable E rid j \<longleftrightarrow>
     is_object j \<and> contains j ''id'' \<and> jat j ''id'' = JString rid \<and> contains j ''type'' \<and>
     jat j ''type'' \<in> {JString ''chunk'', JString ''result'', JString ''error''} \<and>
     parse E (dump_r E j) = j \<and> st_ok (CheckNesting (dump_r E j)) \<and>
     length (dump_r E j) \<le> kRecordBytes"

lemma finish_record_deliverable:
  assumes "deliverable E rid j"
  shows "finish_record E (progress rid r tot (Sha256 E (dump_r E j)) (dump_r E j)) frame =
    (Ok, Some (jset j ''seq'' (jat frame ''seq'')), progress rid r 0 (Sha256 E (dump_r E j)) [])"
  using assms by (auto simp: finish_record_def progress_def deliverable_def Let_def)

lemma accept_fragments:
  assumes "evp_base64 E" and "deliverable E rid j" and "data @ rest = dump_r E j" and "rest \<noteq> []"
    and "r \<le> UINT64_MAX" and "n + length rest \<le> UINT64_MAX"
    and "idle a \<and> data = [] \<or> a = progress rid r (length (dump_r E j)) (Sha256 E (dump_r E j)) data"
  shows "\<exists>a'. idle a' \<and>
    accept_all E a (fragments E rid r (length (dump_r E j)) (Sha256 E (dump_r E j)) (length data) n
      (blocks kBlock rest)) =
    (Ok, [jset j ''seq'' (JUint (n + length (blocks kBlock rest) - 1))], a')"
  using assms(3-)
proof (induction kBlock rest arbitrary: data n a rule: blocks.induct)
  case (1 rest)
  let ?t = "dump_r E j" let ?b = "take kBlock rest" let ?rest = "drop kBlock rest"
  let ?f = "wire_fragment E rid r (length data) (length ?t) (Sha256 E ?t) n ?b"
  have bl: "blocks kBlock rest = ?b # blocks kBlock ?rest"
    using "1.prems"(2) by (subst blocks.simps) (simp add: kBlock_def)
  have tot: "length ?t = length data + length rest" using "1.prems"(1) by (metis length_append)
  have rec: "length ?t \<le> kRecordBytes" using assms(2) by (simp add: deliverable_def)
  have acc: "Accept E a ?f =
      (if length data + length ?b \<noteq> length ?t
       then (Ok, None, progress rid r (length ?t) (Sha256 E ?t) (data @ ?b))
       else finish_record E (progress rid r (length ?t) (Sha256 E ?t) (data @ ?b)) ?f)"
    using "1.prems" tot rec assms(1)
    by (intro Accept_fragment) (auto simp: kBlock_def idle_def)
  show ?case
  proof (cases "?rest = []")
    case True
    then have "?b = rest" by simp
    then have "Accept E a ?f = (Ok, Some (jset j ''seq'' (JUint n)),
        progress rid r 0 (Sha256 E ?t) [])"
      using acc tot "1.prems"(1) finish_record_deliverable [OF assms(2)]
      by (simp add: wire_fragment_sel)
    then show ?thesis using bl True by (simp add: idle_def progress_def)
  next
    case False
    then have len: "length ?b = kBlock" and more: "length data + length ?b \<noteq> length ?t"
      using tot by auto
    let ?a1 = "progress rid r (length ?t) (Sha256 E ?t) (data @ ?b)"
    have "\<exists>a'. idle a' \<and>
        accept_all E ?a1 (fragments E rid r (length ?t) (Sha256 E ?t) (length (data @ ?b)) (Suc n)
          (blocks kBlock ?rest)) =
        (Ok, [jset j ''seq'' (JUint (Suc n + length (blocks kBlock ?rest) - 1))], a')"
      using "1.prems" False len by (intro "1.hyps") (auto simp: kBlock_def)
    then show ?thesis using acc more bl len by auto
  qed
qed

lemma record_frames_accepted:
  assumes "evp_base64 E" and "deliverable E rid j" and "idle a"
    and "n + kRecordBytes \<le> UINT64_MAX"
  shows "\<exists>a'. idle a' \<and> accept_all E a (record_frames E rid n j) =
    (Ok, [jset j ''seq'' (JUint (n + length (record_frames E rid n j) - 1))], a')"
proof (cases "length (dump_r E j) + 64 \<le> kFrameBytes")
  case True
  have "Accept E a (jset j ''seq'' (JUint n)) = (Ok, Some (jset j ''seq'' (JUint n)), a\<lparr>as_data := [], as_total := 0\<rparr>)"
    using assms(2,3) by (auto simp: Accept_def deliverable_def idle_def json_simps)
  then show ?thesis using True by (simp add: record_frames_def Let_def idle_def)
next
  case False
  then have "dump_r E j \<noteq> []" by (auto simp: kFrameBytes_def)
  moreover have "length (dump_r E j) \<le> kRecordBytes" using assms(2) by (simp add: deliverable_def)
  moreover have len: "length (fragments E rid r t sha ofs m bs) = length bs" for r t sha ofs m bs
    by (induction bs arbitrary: ofs m) auto
  ultimately show ?thesis
    using accept_fragments [OF assms(1,2), of "[]" "dump_r E j" n n a] assms(3,4) False
    by (simp add: record_frames_def Let_def)
qed

lemma accept_all_append:
  "accept_all E a fs = (Ok, rs, a1) \<Longrightarrow>
   accept_all E a (fs @ gs) = (let (s, rs', a2) = accept_all E a1 gs in (s, rs @ rs', a2))"
proof (induction fs arbitrary: a rs)
  case (Cons f fs)
  obtain s r b where acc: "Accept E a f = (s, r, b)" by (cases "Accept E a f")
  then have s: "st_ok s" using Cons.prems by (auto split: if_splits)
  then obtain rs1 where "accept_all E b fs = (Ok, rs1, a1)"
      "rs = (case r of None \<Rightarrow> rs1 | Some j \<Rightarrow> j # rs1)"
    using Cons.prems acc by (auto split: prod.splits option.splits)
  with Cons.IH [of b rs1] acc s show ?case by (auto split: prod.splits option.splits)
qed simp

lemma length_stream_frames: "length fs \<le> length (stream_frames E rid fs xs)"
proof (induction xs arbitrary: fs)
  case (Cons x xs)
  show ?case
    using Cons.IH [of "fs @ record_frames E rid (length fs) (chunk_frame rid x)"] by simp
qed simp

lemma accept_stream:
  assumes "evp_base64 E" and "list_all (\<lambda>x. deliverable E rid (chunk_frame rid x)) xs"
    and "accept_all E a fs = (Ok, rs, b)" and "idle b"
    and "length (stream_frames E rid fs xs) + kRecordBytes \<le> UINT64_MAX"
  shows "\<exists>rs' b'. idle b' \<and> accept_all E a (stream_frames E rid fs xs) = (Ok, rs @ rs', b') \<and>
    map (\<lambda>r. jat r ''items'') rs' = map (\<lambda>x. JArray [x]) xs \<and> list_all (\<lambda>r. jat r ''type'' = JString ''chunk'') rs'"
  using assms(2-)
proof (induction xs arbitrary: fs rs b)
  case (Cons x xs)
  let ?c = "chunk_frame rid x" let ?g = "record_frames E rid (length fs) ?c"
  have "length fs + kRecordBytes \<le> UINT64_MAX"
    using Cons.prems(4) length_stream_frames [of "fs @ ?g" E rid xs] by simp
  then obtain b1 where b1: "idle b1" "accept_all E b ?g =
      (Ok, [jset ?c ''seq'' (JUint (length fs + length ?g - 1))], b1)"
    using record_frames_accepted [OF assms(1), of rid ?c b "length fs"] Cons.prems(1,3) by auto
  let ?r = "jset ?c ''seq'' (JUint (length fs + length ?g - 1))"
  have "accept_all E a (fs @ ?g) = (Ok, rs @ [?r], b1)"
    using accept_all_append [OF Cons.prems(2), of ?g] b1 by simp
  from Cons.IH [OF _ this b1(1)] Cons.prems(1,4)
  obtain rs' b' where "idle b'" "accept_all E a (stream_frames E rid (fs @ ?g) xs) = (Ok, (rs @ [?r]) @ rs', b')"
      "map (\<lambda>r. jat r ''items'') rs' = map (\<lambda>x. JArray [x]) xs" "list_all (\<lambda>r. jat r ''type'' = JString ''chunk'') rs'"
    by auto
  moreover have "jat ?r ''items'' = JArray [x]" "jat ?r ''type'' = JString ''chunk''" by (simp_all add: chunk_frame_def json_simps)
  ultimately show ?case
    by (intro exI [of _ "?r # rs'"] exI [of _ b']) simp
qed simp

text \<open>The frames of a finished stream of items, and what a consumer makes of them.\<close>

definition response_frames :: "env \<Rightarrow> string \<Rightarrow> json list \<Rightarrow> json list" where
  "response_frames E rid items =
     (let gs = stream_frames E rid [] items in gs @ [terminal_frame rid (length gs) (length items) Ok])"

lemma response_accepted:
  assumes "evp_base64 E" and "list_all (\<lambda>x. deliverable E rid (chunk_frame rid x)) items"
    and "length (stream_frames E rid [] items) + kRecordBytes \<le> UINT64_MAX"
  shows "\<exists>rs fin a. accept_all E Assembler_new (response_frames E rid items) = (Ok, rs @ [fin], a) \<and>
    map (\<lambda>r. jat r ''items'') rs = map (\<lambda>x. JArray [x]) items \<and> list_all (\<lambda>r. jat r ''type'' = JString ''chunk'') rs \<and>
    jat fin ''type'' = JString ''complete'' \<and> jat fin ''items'' = JUint (length items)"
proof -
  let ?gs = "stream_frames E rid [] items"
  let ?fin = "terminal_frame rid (length ?gs) (length items) Ok"
  obtain rs b where rs: "idle b" "accept_all E Assembler_new ?gs = (Ok, rs, b)"
      "map (\<lambda>r. jat r ''items'') rs = map (\<lambda>x. JArray [x]) items" "list_all (\<lambda>r. jat r ''type'' = JString ''chunk'') rs"
    using accept_stream [OF assms(1,2), of Assembler_new "[]" "[]" Assembler_new] assms(3)
    by (auto simp: idle_def Assembler_new_def)
  moreover have "accept_all E Assembler_new (?gs @ [?fin]) = (Ok, rs @ [?fin], b\<lparr>as_data := [], as_total := 0\<rparr>)"
    using accept_all_append [OF rs(2), of "[?fin]"] rs(1)
    by (simp add: Accept_def terminal_frame_def idle_def json_simps)
  moreover have "jat ?fin ''type'' = JString ''complete''" "jat ?fin ''items'' = JUint (length items)"
    by (simp_all add: terminal_frame_def json_simps)
  ultimately show ?thesis unfolding response_frames_def Let_def by blast
qed

lemma response_spooled:
  assumes "Spool_new d p rid limit = (sp0, d0)" and "add_all E sp0 d0 items = (sp1, d1)"
    and "Spool_Finish E sp1 d1 Ok = (r, sp2, d2)" and "st_ok r" and "st_ok (sp_status sp1)"
  shows "content d2 p = Some (frames_text E (response_frames E rid items))" and "numbered (response_frames E rid items)"
  using finished_stream [OF assms(1-4)] assms(5) by (auto simp: response_frames_def Let_def)

text \<open>
  Fragmentation round trip: the frames a spool writes for one logical response, whole or cut
  into base64 fragments, make an idle assembler deliver exactly that response, once, with the
  sequence number of the last frame, and leave it idle again.
\<close>

theorem record_roundtrip:
  assumes "evp_base64 E" and "deliverable E rid j" and "idle a"
    and "n + kRecordBytes \<le> UINT64_MAX"
  shows "\<exists>a'. idle a' \<and> accept_all E a (record_frames E rid n j) =
    (Ok, [jset j ''seq'' (JUint (n + length (record_frames E rid n j) - 1))], a')"
  using assms by (rule record_frames_accepted)

text \<open>
  End to end through a spool file: when a stream of items finishes with \<open>complete\<close>, feeding the
  frames of its file to a fresh assembler delivers one response per item, in order and with
  exactly that item, followed by the terminal frame, and nothing else.
\<close>

theorem stream_roundtrip:
  assumes "Spool_new d p rid limit = (sp0, d0)" and "add_all E sp0 d0 items = (sp1, d1)"
    and "Spool_Finish E sp1 d1 Ok = (r, sp2, d2)" and "st_ok r" and "st_ok (sp_status sp1)"
    and "evp_base64 E" and "list_all (\<lambda>x. deliverable E rid (chunk_frame rid x)) items"
    and "length (stream_frames E rid [] items) + kRecordBytes \<le> UINT64_MAX"
  shows "\<exists>fs rs fin a. content d2 p = Some (frames_text E fs) \<and>
    accept_all E Assembler_new fs = (Ok, rs @ [fin], a) \<and>
    map (\<lambda>r. jat r ''items'') rs = map (\<lambda>x. JArray [x]) items \<and>
    jat fin ''type'' = JString ''complete'' \<and> jat fin ''items'' = JUint (length items)"
  using response_accepted [OF assms(6-8)] response_spooled(1) [OF assms(1-5)] by blast

subsection \<open>Witnesses\<close>

text \<open>A response of 300000 characters, which takes seven fragments.\<close>

definition big_reply :: json where
  "big_reply = jobj [(''id'', JString ''r''), (''type'', JString ''result'')]"

definition big_env :: env where
  "big_env = sample_env\<lparr>dump_r := (\<lambda>_. replicate 300000 (CHR ''a'')), parse := (\<lambda>_. big_reply)\<rparr>"

lemma nest_scan_plain: "nest_scan d False e (replicate n (CHR ''a'')) = Ok"
  by (induction n) auto

lemma deliverable_big: "deliverable big_env ''r'' big_reply"
  by (simp add: deliverable_def big_env_def big_reply_def json_simps CheckNesting_def nest_scan_plain
      kRecordBytes_def)

lemma evp_base64_big: "evp_base64 big_env"
  by (rule evp_base64_sample) (simp_all add: big_env_def)

theorem record_roundtrip_witness:
  "\<exists>a'. idle a' \<and> accept_all big_env Assembler_new (record_frames big_env ''r'' 0 big_reply) =
     (Ok, [jset big_reply ''seq'' (JUint (0 + length (record_frames big_env ''r'' 0 big_reply) - 1))], a')"
  by (rule record_roundtrip [OF evp_base64_big deliverable_big])
    (simp_all add: idle_def Assembler_new_def kRecordBytes_def UINT64_MAX_def)

theorem assembler_bounded_witness:
  "let (s, rs, a) = accept_all sample_env Assembler_new [JNull] in
   length (as_data a) \<le> as_total a \<and> as_total a \<le> kRecordBytes"
proof -
  obtain s rs a where acc: "accept_all sample_env Assembler_new [JNull] = (s, rs, a)"
    by (metis prod_cases3)
  show ?thesis using assembler_bounded [OF acc] acc by simp
qed

definition item_env :: "json \<Rightarrow> env" where
  "item_env x = sample_env\<lparr>parse := (\<lambda>_. chunk_frame ''r'' x)\<rparr>"

theorem stream_roundtrip_witness:
  "let E = item_env (JUint 7); (sp0, d0) = Spool_new clean_disk ''p'' ''r'' 4096;
       (sp1, d1) = add_all E sp0 d0 [JUint 7]; (r, sp2, d2) = Spool_Finish E sp1 d1 Ok in
   \<exists>fs rs fin a. content d2 ''p'' = Some (frames_text E fs) \<and>
     accept_all E Assembler_new fs = (Ok, rs @ [fin], a) \<and>
     map (\<lambda>r. jat r ''items'') rs = [JArray [JUint 7]] \<and> jat fin ''type'' = JString ''complete'' \<and>
     jat fin ''items'' = JUint 1"
proof -
  let ?E = "item_env (JUint 7)"
  obtain sp0 d0 where 0: "Spool_new clean_disk ''p'' ''r'' 4096 = (sp0, d0)" by force
  obtain sp1 d1 where 1: "add_all ?E sp0 d0 [JUint 7] = (sp1, d1)" by force
  obtain r sp2 d2 where 2: "Spool_Finish ?E sp1 d1 Ok = (r, sp2, d2)" by (metis prod_cases3)
  have "(let (sp0, d0) = Spool_new clean_disk ''p'' ''r'' 4096;
       (sp1, d1) = add_all ?E sp0 d0 [JUint 7];
       (r, sp2, d2) = Spool_Finish ?E sp1 d1 Ok in st_ok r \<and> st_ok (sp_status sp1))"
    by (simp add: spool_eval item_env_def)
  then have r: "st_ok r" "st_ok (sp_status sp1)" using 0 1 2 by auto
  have E: "evp_base64 ?E" by (rule evp_base64_sample) (simp_all add: item_env_def)
  have del: "list_all (\<lambda>x. deliverable ?E ''r'' (chunk_frame ''r'' x)) [JUint 7]"
    by (simp add: deliverable_def item_env_def chunk_frame_def jobj_def contains_def jat_def
        to_string.simps CheckNesting_def kRecordBytes_def)
  have len: "length (stream_frames ?E ''r'' [] [JUint 7]) + kRecordBytes \<le> UINT64_MAX"
    by (simp add: record_frames_def item_env_def chunk_frame_def jobj_def to_string.simps limits UINT64_MAX_def)
  show ?thesis
    unfolding Let_def 0 1 2 prod.case using stream_roundtrip [OF 0 1 2 r E del len] by simp
qed

end
