(* ===== verification/Polling.thy ===== *)
theory Polling
  imports Redis
begin

text \<open>
  The loop in which both clients wait for a response: read the first entries of a stream, handle them one
  by one, and read again until a handler returns a terminal frame, something fails, or the deadline
  passes. What every handler keeps, the loop keeps (locale \<open>polling\<close>); and on a clock that runs the loop
  ends (\<open>poll_loop_returns\<close>).
\<close>

text \<open>A message and an exit, or the terminal frame if there is one yet; \<open>None\<close> is an exception.\<close>

type_synonym ('s, 'r) polled = "((string + json option) \<times> 's \<times> 'r) option"

fun each_row :: "(redis_reply \<Rightarrow> 's \<Rightarrow> 'r \<Rightarrow> ('s, 'r) polled) \<Rightarrow> redis_reply list \<Rightarrow> 's \<Rightarrow> 'r \<Rightarrow> ('s, 'r) polled" where
  "each_row step [] s r = Some (Inr None, s, r)"
| "each_row step (row # rows) s r = do {
     (res, s', r') \<leftarrow> step row s r;
     if res = Inr None then each_row step rows s' r' else Some (res, s', r') }"

definition read_args :: "string \<Rightarrow> string list" where
  "read_args stream = [''XRANGE'', stream, ''-'', ''+'', ''COUNT'', ''32'']"

text \<open>The clock \<open>now\<close> and the deadline are in milliseconds.\<close>

partial_function (option) poll_loop ::
  "(redis_reply \<Rightarrow> 's \<Rightarrow> 'r \<Rightarrow> ('s, 'r) polled) \<Rightarrow> ('r \<Rightarrow> redis_reply option \<times> 'r) \<Rightarrow> ('r \<Rightarrow> nat \<times> 'r) \<Rightarrow> nat \<Rightarrow>
   string \<Rightarrow> string \<Rightarrow> 's \<Rightarrow> 'r \<Rightarrow> ('s, 'r) polled" where
  "poll_loop step read now deadline late failed s r =
     (let (t, r1) = now r in
      if deadline \<le> t then Some (Inl late, s, r1)
      else
        (let (reply, r2) = read r1 in
         case reply of
           Some (RArray rows) \<Rightarrow> do {
             (res, s', r3) \<leftarrow> each_row step rows s r2;
             if res = Inr None then poll_loop step read now deadline late failed s' r3 else Some (res, s', r3) }
         | _ \<Rightarrow> Some (Inl failed, s, r2)))"

subsection \<open>What the handler keeps\<close>

locale polling =
  fixes step :: "redis_reply \<Rightarrow> 's \<Rightarrow> 'r \<Rightarrow> ('s, 'r) polled" and read :: "'r \<Rightarrow> redis_reply option \<times> 'r"
    and now :: "'r \<Rightarrow> nat \<times> 'r" and expected :: "redis_reply \<Rightarrow> bool" and I :: "'s \<Rightarrow> 'r \<Rightarrow> bool" and D :: "json \<Rightarrow> 's \<Rightarrow> bool"
  assumes step_keeps: "step row s r = Some (res, s', r') \<Longrightarrow> expected row \<Longrightarrow> I s r \<Longrightarrow>
      I s' r' \<and> (case res of Inr (Some f) \<Rightarrow> D f s' | _ \<Rightarrow> True)"
    and read_keeps: "I s r \<Longrightarrow> I s (snd (read r))"
    and read_expected: "I s r \<Longrightarrow> fst (read r) = Some (RArray rows) \<Longrightarrow> list_all expected rows"
    and now_keeps: "I s r \<Longrightarrow> I s (snd (now r))"
begin

lemma rows_keep:
  "each_row step rows s r = Some (res, s', r') \<Longrightarrow> list_all expected rows \<Longrightarrow> I s r \<Longrightarrow>
     I s' r' \<and> (case res of Inr (Some f) \<Rightarrow> D f s' | _ \<Rightarrow> True)"
proof (induction rows arbitrary: s r)
  case (Cons row rows)
  obtain res1 s1 r1 where h: "step row s r = Some (res1, s1, r1)" using Cons.prems(1) by (auto simp: Option.bind_eq_Some_conv)
  note k = step_keeps [OF h]
  show ?case
  proof (cases "res1 = Inr None")
    case True
    then show ?thesis using Cons.IH [of s1 r1] Cons.prems h k by simp
  next
    case False
    then show ?thesis using Cons.prems h k by auto
  qed
qed auto

definition concluding :: "(string + json option) \<times> 's \<times> 'r \<Rightarrow> bool" where
  "concluding q \<longleftrightarrow> I (fst (snd q)) (snd (snd q)) \<and>
     (case fst q of Inr (Some f) \<Rightarrow> D f (fst (snd q)) | Inr None \<Rightarrow> False | Inl _ \<Rightarrow> True)"

lemma round_keeps:
  assumes "(let (t, r1) = now r in
      if deadline \<le> t then Some (Inl late, s, r1)
      else
        (let (reply, r2) = read r1 in
         case reply of
           Some (RArray rows) \<Rightarrow> do {
             (res, s', r3) \<leftarrow> each_row step rows s r2;
             if res = Inr None then again s' r3 else Some (res, s', r3) }
         | _ \<Rightarrow> Some (Inl failed, s, r2))) = Some q"
    and "I s r" and "\<And>s' r'. again s' r' = Some q \<Longrightarrow> I s' r' \<Longrightarrow> concluding q"
  shows "concluding q"
proof -
  let ?r1 = "snd (now r)" let ?r2 = "snd (read ?r1)"
  note i = now_keeps [OF assms(2)] read_keeps [OF now_keeps [OF assms(2)]]
  show ?thesis
  proof (cases "\<not> deadline \<le> fst (now r) \<and> (\<exists>rows. fst (read ?r1) = Some (RArray rows))")
    case True
    then obtain rows where rows: "fst (read ?r1) = Some (RArray rows)" by blast
    obtain res s' r3 where h: "each_row step rows s ?r2 = Some (res, s', r3)"
      "(if res = Inr None then again s' r3 else Some (res, s', r3)) = Some q"
      using assms(1) True rows
      by (cases "each_row step rows s ?r2") (auto simp: case_prod_beta [of _ "now r"] case_prod_beta [of _ "read ?r1"] Let_def)
    note k = rows_keep [OF h(1) read_expected [OF i(1) rows] i(2)]
    show ?thesis using h(2) k assms(3) [of s' r3]
      by (cases "res = Inr None") (auto simp: concluding_def split: sum.split_asm option.split_asm)
  next
    case False
    then have "\<exists>m r. q = (Inl m, s, r) \<and> I s r"
      using assms(1) i by (auto simp: case_prod_beta Let_def split: if_split_asm option.split_asm redis_reply.split_asm)
    then show ?thesis by (auto simp: concluding_def)
  qed
qed

lemma loop_concludes:
  assumes "poll_loop step read now deadline late failed s r = Some q" and "I s r"
  shows "concluding q"
proof -
  have "st = step \<longrightarrow> rd = read \<longrightarrow> nw = now \<longrightarrow> I s r \<longrightarrow> concluding q"
    if "poll_loop st rd nw dl l f s r = Some q" for st rd nw dl l f s r q
    using that
  proof (rule poll_loop.raw_induct [rotated, where P = "\<lambda>st rd nw dl l f s r q. st = step \<longrightarrow> rd = read \<longrightarrow> nw = now \<longrightarrow>
      I s r \<longrightarrow> concluding q"], goal_cases)
    case (1 W st rd nw dl l f s r q)
    show ?case
    proof (intro impI)
      assume e: "st = step" "rd = read" "nw = now" and "I s r"
      show "concluding q" by (rule round_keeps [OF 1(2) [unfolded e] \<open>I s r\<close>]) (use 1(1) in blast)
    qed
  qed
  with assms show ?thesis by blast
qed

lemma loop_keeps:
  assumes "poll_loop step read now deadline late failed s r = Some (res, s', r')" and "I s r"
  shows "I s' r'" and "res = Inr frame \<Longrightarrow> \<exists>f. frame = Some f \<and> D f s'"
  using loop_concludes [OF assms] by (auto simp: concluding_def split: option.split_asm)

end

subsection \<open>The loop ends\<close>

text \<open>A steady clock, read from the state of the world: it runs between two readings and never goes back.\<close>

definition time_passes :: "'r hiredis \<Rightarrow> ('r \<Rightarrow> nat \<times> 'r) \<Rightarrow> ('r \<Rightarrow> nat) \<Rightarrow> bool" where
  "time_passes H now clock \<longleftrightarrow> (\<forall>r. fst (now r) = clock r \<and> clock r < clock (snd (now r))) \<and>
     (\<forall>args r. clock r \<le> clock (snd (Command H args r)))"

text \<open>A handler that returns on every entry and lets no time run backwards.\<close>

definition prompt :: "('r \<Rightarrow> nat) \<Rightarrow> (redis_reply \<Rightarrow> bool) \<Rightarrow> (redis_reply \<Rightarrow> 's \<Rightarrow> 'r \<Rightarrow> ('s, 'r) polled) \<Rightarrow> bool" where
  "prompt clock expected step \<longleftrightarrow>
     (\<forall>row s r. expected row \<longrightarrow> (case step row s r of None \<Rightarrow> False | Some (res, s', r') \<Rightarrow> clock r \<le> clock r'))"

lemma each_row_prompt:
  assumes "prompt clock expected step" and "list_all expected rows"
  shows "\<exists>res s' r'. each_row step rows s r = Some (res, s', r') \<and> clock r \<le> clock r'"
  using assms(2)
proof (induction rows arbitrary: s r)
  case (Cons row rows)
  obtain res s1 r1 where h: "step row s r = Some (res, s1, r1)" "clock r \<le> clock r1"
    using assms(1) Cons.prems by (fastforce simp: prompt_def split: option.split_asm)
  then show ?case using Cons.IH [of s1 r1] Cons.prems by (cases "res = Inr None") (fastforce intro: le_trans)+
qed simp

lemma poll_loop_returns:
  assumes "time_passes H now clock" and "prompt clock expected step"
    and "\<And>r rows. fst (Command H args r) = Some (RArray rows) \<Longrightarrow> list_all expected rows"
  shows "poll_loop step (Command H args) now deadline late failed s r \<noteq> None"
proof (induction "deadline - clock r" arbitrary: s r rule: less_induct)
  case less
  let ?r1 = "snd (now r)" let ?r2 = "snd (Command H args ?r1)"
  have t: "fst (now r) = clock r" "clock r < clock ?r2"
    using assms(1) unfolding time_passes_def by (blast, meson less_le_trans)
  show ?case
  proof (cases "\<not> deadline \<le> clock r \<and> (\<exists>rows. fst (Command H args ?r1) = Some (RArray rows))")
    case True
    then obtain rows where rows: "fst (Command H args ?r1) = Some (RArray rows)" by blast
    obtain res s' r3 where h: "each_row step rows s ?r2 = Some (res, s', r3)" "clock ?r2 \<le> clock r3"
      using each_row_prompt [OF assms(2) assms(3) [OF rows]] by blast
    then show ?thesis using less [of r3 s'] True t rows
      by (subst poll_loop.simps) (auto simp: case_prod_beta Let_def simp del: not_None_eq)
  next
    case False
    then show ?thesis using t
      by (subst poll_loop.simps) (auto simp: case_prod_beta Let_def split: option.split redis_reply.split simp del: not_None_eq)
  qed
qed

end
