(* ===== verification/Client.thy ===== *)
theory Client
  imports Start Assembler Polling
begin

text \<open>
  The reference client (\<open>tools/client.cc\<close>): submitting a request, and \<open>Wait\<close>, which reads the response
  stream, checks the sequence numbers, reassembles the frames and acknowledges them. Redis is the
  parameter of theory \<open>Redis\<close>; the steady clock is a function on the same state. \<open>Inl\<close> is the message the
  client exits with, \<open>None\<close> an exception of the JSON library or a wait without end.
\<close>

subsection \<open>Frames\<close>

definition reply_str :: "redis_reply \<Rightarrow> string" where
  "reply_str r = (case rstr r of None \<Rightarrow> [] | Some s \<Rightarrow> s)"

fun frame_field :: "env \<Rightarrow> redis_reply list \<Rightarrow> json \<Rightarrow> json" where
  "frame_field E (k # v # rest) frame =
     frame_field E rest (if reply_str k = ''json'' then parse E (reply_str v) else frame)"
| "frame_field E _ frame = frame"

fun row_frame :: "env \<Rightarrow> redis_reply \<Rightarrow> json" where
  "row_frame E (RArray fs) = frame_field E fs JNull"
| "row_frame E _ = JNull"

text \<open>The state of \<open>Wait\<close>, with the logical frames it has put together so far.\<close>

record wait_state =
  ws_expected :: nat
  ws_assembler :: assembler
  ws_frames :: "json list"

definition fresh_wait :: wait_state where
  "fresh_wait = \<lparr>ws_expected = 0, ws_assembler = Assembler_new, ws_frames = []\<rparr>"

definition terminal_type :: "json \<Rightarrow> bool" where
  "terminal_type frame \<longleftrightarrow> json_eq (jat frame ''type'') (JString ''complete'') \<or>
     json_eq (jat frame ''type'') (JString ''result'') \<or> json_eq (jat frame ''type'') (JString ''error'')"

definition take_frame ::
  "env \<Rightarrow> string \<Rightarrow> bool \<Rightarrow> json \<Rightarrow> wait_state \<Rightarrow> (string + (json option \<times> wait_state)) option" where
  "take_frame E rid print frame s =
     (if \<not> is_object frame then Some (Inr (None, s))
      else do {
        i \<leftarrow> value_as get_string frame ''id'' [];
        if i \<noteq> rid then Some (Inr (None, s))
        else if \<not> contains frame ''seq'' \<or> \<not> IsUnsigned (jat frame ''seq'') UINT64_MAX then
          Some (Inl ''Missing frame sequence'')
        else
          (let seq = juint (jat frame ''seq'') in
           if ws_expected s < seq \<and> ws_expected s \<noteq> 0 then
             Some (Inl ''Response gap detected; replay the request'')
           else if seq \<noteq> ws_expected s then Some (Inr (None, s))
           else
             (let (st, ready, a) = Accept E (ws_assembler s) frame;
                  s1 = s\<lparr>ws_expected := Suc seq mod 2 ^ 64, ws_assembler := a\<rparr> in
              if \<not> st_ok st then Some (Inl (st_message st))
              else case ready of
                     None \<Rightarrow> Some (Inr (None, s1))
                   | Some logical \<Rightarrow>
                       if print \<and> dump E logical = None then None
                       else Some (Inr (if terminal_type logical then Some logical else None,
                                       s1\<lparr>ws_frames := ws_frames s @ [logical]\<rparr>)))) })"

type_synonym 'r waited = "(wait_state, 'r) polled"

definition handle_row :: "env \<Rightarrow> 'r hiredis \<Rightarrow> string \<Rightarrow> string \<Rightarrow> bool \<Rightarrow> redis_reply \<Rightarrow> wait_state \<Rightarrow> 'r \<Rightarrow> 'r waited" where
  "handle_row E H stream rid print row s r =
     (case row of
        RArray [nm, fv] \<Rightarrow> do {
          taken \<leftarrow> take_frame E rid print (row_frame E fv) s;
          (case taken of
             Inl message \<Rightarrow> Some (Inl message, s, r)
           | Inr (terminal, s') \<Rightarrow>
               (let (ack, r') = Command H [''XDEL'', stream, reply_str nm] r in
                case ack of
                  Some (RInteger _) \<Rightarrow> Some (Inr terminal, s', r')
                | _ \<Rightarrow> Some (Inl ''Response acknowledgment failed; replay is safe'', s', r'))) }
      | _ \<Rightarrow> Some (Inl ''Invalid Redis stream entry'', s, r))"

definition wait_loop ::
  "env \<Rightarrow> 'r hiredis \<Rightarrow> ('r \<Rightarrow> nat \<times> 'r) \<Rightarrow> nat \<Rightarrow> string \<Rightarrow> string \<Rightarrow> bool \<Rightarrow> wait_state \<Rightarrow> 'r \<Rightarrow> 'r waited" where
  "wait_loop E H now deadline stream rid print =
     poll_loop (handle_row E H stream rid print) (Command H (read_args stream)) now deadline
       ''Response timeout; retain the session and request ID for replay''
       ''Redis read failed; retry with the same session and request ID''"

definition Wait :: "env \<Rightarrow> 'r hiredis \<Rightarrow> ('r \<Rightarrow> nat \<times> 'r) \<Rightarrow> string \<Rightarrow> string \<Rightarrow> bool \<Rightarrow> 'r \<Rightarrow> 'r waited" where
  "Wait E H now stream rid print r =
     (let (t, r1) = now r in wait_loop E H now (t + 900000) stream rid print fresh_wait r1)"

definition Add :: "env \<Rightarrow> 'r hiredis \<Rightarrow> string \<Rightarrow> json \<Rightarrow> 'r \<Rightarrow> (string option \<times> 'r) option" where
  "Add E H stream body r = do {
     t \<leftarrow> dump E body;
     if kFrameBytes < length t then Some (Some ''Frame exceeds 256 KiB; use the transfer protocol'', r)
     else
       (let (reply, r') = Command H [''XADD'', stream, ''*'', ''json'', t] r in
        case reply of
          Some (RString _) \<Rightarrow> Some (None, r')
        | _ \<Rightarrow> Some (Some ''Redis write failed; retry with the same session and request ID'', r')) }"

subsection \<open>The command\<close>

record client_options =
  k_host :: string
  k_port :: int
  k_prefix :: string
  k_client :: string
  k_session :: path
  k_method :: string
  k_request :: string
  k_params :: json

definition default_client :: "string \<Rightarrow> client_options" where
  "default_client request = \<lparr>k_host = ''127.0.0.1'', k_port = 6379, k_prefix = ''vpp'', k_client = ''demo'',
     k_session = ''./session.json'', k_method = ''interface.list'', k_request = request, k_params = JObject []\<rparr>"

definition set_client_option :: "env \<Rightarrow> disk \<Rightarrow> string \<Rightarrow> string \<Rightarrow> client_options \<Rightarrow> string + client_options" where
  "set_client_option E d name value opt =
     (if name = ''--client'' then Inr (opt\<lparr>k_client := value\<rparr>)
      else if name = ''--session'' then Inr (opt\<lparr>k_session := value\<rparr>)
      else if name = ''--method'' then Inr (opt\<lparr>k_method := value\<rparr>)
      else if name = ''--request-id'' then Inr (opt\<lparr>k_request := value\<rparr>)
      else if name = ''--redis-host'' then Inr (opt\<lparr>k_host := value\<rparr>)
      else if name = ''--redis-port'' then
        (let (n, rest) = strtoll value in
         if value = [] \<or> rest \<noteq> [] \<or> n < 1 \<or> n > 65535 then Inl ''Invalid port'' else Inr (opt\<lparr>k_port := n\<rparr>))
      else if name = ''--namespace'' then Inr (opt\<lparr>k_prefix := value\<rparr>)
      else if name = ''--params'' then Inr (opt\<lparr>k_params := parse E value\<rparr>)
      else if name = ''--params-file'' then Inr (opt\<lparr>k_params := read_json E d value\<rparr>)
      else Inl ''Unknown option'')"

text \<open>\<open>Inl None\<close> is the help text.\<close>

fun client_args :: "env \<Rightarrow> disk \<Rightarrow> string list \<Rightarrow> client_options \<Rightarrow> string option + client_options" where
  "client_args E d [] opt = Inr opt"
| "client_args E d [name] opt = Inl (if name = ''--help'' then None else Some ''Missing option value'')"
| "client_args E d (name # value # rest) opt =
     (if name = ''--help'' then Inl None
      else case set_client_option E d name value opt of Inl e \<Rightarrow> Inl (Some e) | Inr opt' \<Rightarrow> client_args E d rest opt')"

text \<open>What the client takes from its surroundings: the token, the time and fresh identifiers.\<close>

record surroundings =
  u_token :: "string option"
  u_time :: int
  u_registration :: string
  u_replay :: string
  u_indented :: "json \<Rightarrow> string option"

definition live_session :: "int \<Rightarrow> json \<Rightarrow> bool" where
  "live_session now session \<longleftrightarrow> is_object session \<and> contains session ''expires_at'' \<and>
     is_number_integer (jat session ''expires_at'') \<and> now < the (get_int64 (jat session ''expires_at''))"

definition registration_request :: "client_options \<Rightarrow> string \<Rightarrow> string \<Rightarrow> json" where
  "registration_request opt registration token = jobj [(''id'', JString registration), (''method'', JString ''session.register''),
     (''params'', jobj [(''client'', JString (k_client opt)), (''token'', JString token), (''protocol'', JInt 1)])]"

text \<open>Register a session and keep it in the session file.\<close>

definition new_session ::
  "env \<Rightarrow> 'r hiredis \<Rightarrow> ('r \<Rightarrow> nat \<times> 'r) \<Rightarrow> surroundings \<Rightarrow> client_options \<Rightarrow> disk \<Rightarrow> 'r \<Rightarrow> ((string + json) \<times> disk \<times> 'r) option" where
  "new_session E H now u opt d r =
     (case u_token u of
        None \<Rightarrow> Some (Inl ''Set GATEWAY_TOKEN to register a new session'', d, r)
      | Some token \<Rightarrow> do {
          (failure, r1) \<leftarrow> Add E H (k_prefix opt @ '':register'') (registration_request opt (u_registration u) token) r;
          (case failure of
             Some message \<Rightarrow> Some (Inl message, d, r1)
           | None \<Rightarrow> do {
               (res, _, r2) \<leftarrow> Wait E H now (k_prefix opt @ '':bootstrap:'' @ k_client opt) (u_registration u) False r1;
               (case res of
                  Inl message \<Rightarrow> Some (Inl message, d, r2)
                | Inr None \<Rightarrow> None
                | Inr (Some reply) \<Rightarrow>
                    if json_eq (jat reply ''type'') (JString ''error'') then do {
                      t \<leftarrow> dump E reply;
                      Some (Inl t, d, r2) }
                    else do {
                      t \<leftarrow> u_indented u (jat reply ''result'');
                      let (st, d') = WriteAtomic d (k_session opt) t;
                      Some (if \<not> st_ok st then Inl (st_message st) else Inr (jat reply ''result''), d', r2) }) }) })"

text \<open>Submit the request, ask for retained output, and wait for the response; the exit code.\<close>

definition submit_request ::
  "env \<Rightarrow> 'r hiredis \<Rightarrow> ('r \<Rightarrow> nat \<times> 'r) \<Rightarrow> surroundings \<Rightarrow> client_options \<Rightarrow> json \<Rightarrow> 'r \<Rightarrow> ((string + nat) \<times> json list \<times> 'r) option" where
  "submit_request E H now u opt session r =
     (if \<not> contains session ''requests'' \<or> \<not> is_string (jat session ''requests'') \<or>
         \<not> contains session ''responses'' \<or> \<not> is_string (jat session ''responses'') then
        Some (Inl ''Invalid session file'', [], r)
      else do {
        let requests = jtext (jat session ''requests'');
        (failure, r1) \<leftarrow> Add E H requests (jobj [(''id'', JString (k_request opt)), (''method'', JString (k_method opt)),
            (''params'', k_params opt)]) r;
        (case failure of
           Some message \<Rightarrow> Some (Inl message, [], r1)
         | None \<Rightarrow> do {
             (failure, r2) \<leftarrow>
               (if k_method opt \<noteq> ''transfer.chunk'' then
                  Add E H requests (jobj [(''id'', JString (u_replay u)), (''method'', JString ''api.replay''),
                    (''params'', jobj [(''request'', JString (k_request opt))])]) r1
                else Some (None, r1));
             (case failure of
                Some message \<Rightarrow> Some (Inl message, [], r2)
              | None \<Rightarrow> do {
                  (res, s, r3) \<leftarrow> Wait E H now (jtext (jat session ''responses'')) (k_request opt) True r2;
                  (case res of
                     Inl message \<Rightarrow> Some (Inl message, ws_frames s, r3)
                   | Inr None \<Rightarrow> None
                   | Inr (Some frame) \<Rightarrow>
                       Some (Inr (if json_eq (jat frame ''type'') (JString ''error'') then 1 else 0), ws_frames s, r3)) }) }) })"

text \<open>\<open>ClientMain\<close>: the exit code or message, the frames printed, and what is left of disk and network.\<close>

definition ClientMain ::
  "env \<Rightarrow> 'r hiredis \<Rightarrow> credentials \<Rightarrow> ('r \<Rightarrow> nat \<times> 'r) \<Rightarrow> surroundings \<Rightarrow> string list \<Rightarrow> string \<Rightarrow> disk \<Rightarrow> 'r \<Rightarrow>
   ((string + nat) \<times> json list \<times> disk \<times> 'r) option" where
  "ClientMain E H cred now u args request d r =
     (case client_args E d args (default_client request) of
        Inl None \<Rightarrow> Some (Inr 0, [], d, r)
      | Inl (Some message) \<Rightarrow> Some (Inl message, [], d, r)
      | Inr opt \<Rightarrow>
          if \<not> IsId (JString (k_client opt)) \<or> \<not> IsId (JString (k_prefix opt)) \<or> \<not> IsId (JString (k_request opt)) \<or>
             \<not> is_object (k_params opt) then
            Some (Inl ''Invalid client, namespace, ID or parameters'', [], d, r)
          else
            (let (connected, r1) = Connect H cred r in
             if \<not> connected then Some (Inl ''Cannot connect to Redis'', [], d, r1)
             else do {
               let saved = read_json E d (k_session opt);
               (session, d1, r2) \<leftarrow>
                 (if live_session (u_time u) saved then Some (Inr saved, d, r1) else new_session E H now u opt d r1);
               (case session of
                  Inl message \<Rightarrow> Some (Inl message, [], d1, r2)
                | Inr session \<Rightarrow> do {
                    (res, printed, r3) \<leftarrow> submit_request E H now u opt session r2;
                    Some (res, printed, d1, r3) }) }))"

subsection \<open>The frames arrive in order\<close>

text \<open>
  The server and its other users, as the client meets them: a property \<open>P\<close> of the Redis server that
  neither the passing of time, nor reading the stream, nor deleting entries with the names in \<open>own\<close> makes
  false.
\<close>

definition undisturbed :: "'r hiredis \<Rightarrow> ('r \<Rightarrow> nat \<times> 'r) \<Rightarrow> string \<Rightarrow> string set \<Rightarrow> ('r \<Rightarrow> bool) \<Rightarrow> bool" where
  "undisturbed H now stream own P \<longleftrightarrow> (\<forall>r. P r \<longrightarrow> P (snd (now r)) \<and> P (snd (Command H (read_args stream) r)) \<and>
     (\<forall>name \<in> own. P (snd (Command H [''XDEL'', stream, name] r))))"

text \<open>
  While \<open>P\<close> holds, whatever Redis returns under the identifier is a frame of the response: frames may be
  missing, repeated, or out of order.
\<close>

definition from_response :: "env \<Rightarrow> string \<Rightarrow> json list \<Rightarrow> redis_reply \<Rightarrow> bool" where
  "from_response E rid fs row \<longleftrightarrow> (\<forall>nm fv. row = RArray [nm, fv] \<longrightarrow> is_object (row_frame E fv) \<longrightarrow>
     value_as get_string (row_frame E fv) ''id'' [] = Some rid \<longrightarrow> row_frame E fv \<in> set fs)"

definition genuine ::
  "env \<Rightarrow> 'r hiredis \<Rightarrow> ('r \<Rightarrow> nat \<times> 'r) \<Rightarrow> string \<Rightarrow> string \<Rightarrow> json list \<Rightarrow> ('r \<Rightarrow> bool) \<Rightarrow> bool" where
  "genuine E H now stream rid fs P \<longleftrightarrow> undisturbed H now stream UNIV P \<and>
     (\<forall>r rows. P r \<longrightarrow> fst (Command H (read_args stream) r) = Some (RArray rows) \<longrightarrow> list_all (from_response E rid fs) rows)"

text \<open>The client has taken exactly the first frames, in order.\<close>

definition following :: "env \<Rightarrow> json list \<Rightarrow> wait_state \<Rightarrow> bool" where
  "following E fs s \<longleftrightarrow> ws_expected s \<le> length fs \<and>
     accept_all E Assembler_new (take (ws_expected s) fs) = (Ok, ws_frames s, ws_assembler s)"

lemma following_fresh: "following E fs fresh_wait"
  by (simp add: following_def fresh_wait_def)

lemma following_accept:
  assumes "following E fs s" and "numbered fs" and "length fs < 2 ^ 64" and "j \<in> set fs" and "juint (jat j ''seq'') = ws_expected s"
    and "Accept E (ws_assembler s) j = (st, got, a)" and "st_ok st"
  shows "following E fs (s\<lparr>ws_expected := Suc (ws_expected s) mod 2 ^ 64, ws_assembler := a,
      ws_frames := ws_frames s @ (case got of None \<Rightarrow> [] | Some l \<Rightarrow> [l])\<rparr>)"
proof -
  let ?k = "ws_expected s"
  obtain i where i: "i < length fs" "fs ! i = j" using assms(4) by (auto simp: in_set_conv_nth)
  then have "i = ?k" using assms(2,5) by (auto simp: numbered_def)
  then have k: "?k < length fs" "take (Suc ?k) fs = take ?k fs @ [j]" using i by (auto simp: take_Suc_conv_app_nth)
  have "accept_all E Assembler_new (take (Suc ?k) fs) = (Ok, ws_frames s @ (case got of None \<Rightarrow> [] | Some l \<Rightarrow> [l]), a)"
    using accept_all_append [of E Assembler_new "take ?k fs" "ws_frames s" "ws_assembler s" "[j]"] assms(1,6,7) k(2)
    by (simp add: following_def split: option.split)
  moreover have "Suc ?k mod 2 ^ 64 = Suc ?k" using k(1) assms(3) by simp
  ultimately show ?thesis using k(1) by (simp add: following_def)
qed

lemma take_frame_follows:
  assumes "take_frame E rid print j s = Some (Inr (fin, s'))" and "following E fs s" and "numbered fs" and "length fs < 2 ^ 64"
    and "is_object j \<Longrightarrow> value_as get_string j ''id'' [] = Some rid \<Longrightarrow> j \<in> set fs"
  shows "following E fs s' \<and> (case fin of None \<Rightarrow> True | Some f \<Rightarrow> terminal_type f \<and> (\<exists>gs. ws_frames s' = gs @ [f]))"
proof (cases "s' = s \<and> fin = None")
  case True
  then show ?thesis using assms(2) by simp
next
  case False
  let ?k = "ws_expected s"
  have j: "is_object j" "value_as get_string j ''id'' [] = Some rid" "juint (jat j ''seq'') = ?k"
    using assms(1) False by (auto simp: take_frame_def Option.bind_eq_Some_conv Let_def split: if_split_asm)
  obtain st ready a where a: "Accept E (ws_assembler s) j = (st, ready, a)" by (cases "Accept E (ws_assembler s) j")
  have st: "st_ok st"
    and r: "ready = None \<Longrightarrow> fin = None \<and> s' = s\<lparr>ws_expected := Suc ?k mod 2 ^ 64, ws_assembler := a\<rparr>"
      "ready = Some l \<Longrightarrow> fin = (if terminal_type l then Some l else None) \<and>
         s' = s\<lparr>ws_expected := Suc ?k mod 2 ^ 64, ws_assembler := a, ws_frames := ws_frames s @ [l]\<rparr>" for l
    using assms(1) False a by (auto simp: take_frame_def Option.bind_eq_Some_conv Let_def split: if_split_asm option.split_asm)
  from following_accept [OF assms(2-4) assms(5) [OF j(1,2)] j(3) a st] show ?thesis using r by (cases ready) auto
qed

lemma handle_row_follows:
  assumes "handle_row E H stream rid print row s r = Some (res, s', r')" and "following E fs s" and "numbered fs" and "length fs < 2 ^ 64"
    and "from_response E rid fs row"
  shows "following E fs s' \<and> (case res of Inr (Some f) \<Rightarrow> terminal_type f \<and> (\<exists>gs. ws_frames s' = gs @ [f]) | _ \<Rightarrow> True)"
proof (cases "\<exists>nm fv. row = RArray [nm, fv]")
  case False
  then have "s' = s" "\<exists>m. res = Inl m"
    using assms(1) by (auto simp: handle_row_def split: redis_reply.split_asm list.split_asm)
  then show ?thesis using assms(2) by auto
next
  case True
  then obtain nm fv where row: "row = RArray [nm, fv]" by blast
  obtain taken where t: "take_frame E rid print (row_frame E fv) s = Some taken"
    using assms(1) by (auto simp: handle_row_def row Option.bind_eq_Some_conv)
  show ?thesis
  proof (cases taken)
    case (Inl m)
    then show ?thesis using assms(1,2) t by (auto simp: handle_row_def row)
  next
    case (Inr p)
    obtain fin u where p: "p = (fin, u)" by force
    have "s' = u \<and> (res = Inr fin \<or> (\<exists>m. res = Inl m))"
      using assms(1) t Inr p by (auto simp: handle_row_def row case_prod_beta split: option.split_asm redis_reply.split_asm)
    moreover note take_frame_follows [OF t [unfolded Inr p] assms(2-4)] assms(5)
    ultimately show ?thesis by (auto simp: from_response_def row split: option.split)
  qed
qed

lemma handle_row_undisturbed:
  assumes "handle_row E H stream rid print row s r = Some (res, s', r')" and "undisturbed H now stream UNIV P" and "P r"
  shows "P r'"
proof -
  have "r' = r \<or> (\<exists>name. r' = snd (Command H [''XDEL'', stream, name] r))"
  proof (cases "\<exists>nm fv t. row = RArray [nm, fv] \<and> take_frame E rid print (row_frame E fv) s = Some t")
    case True
    then obtain nm fv t where row: "row = RArray [nm, fv]" "take_frame E rid print (row_frame E fv) s = Some t" by blast
    then show ?thesis using assms(1)
      by (cases t) (auto simp: handle_row_def case_prod_beta split: option.split_asm redis_reply.split_asm)
  next
    case False
    then show ?thesis using assms(1)
      by (auto simp: handle_row_def Option.bind_eq_Some_conv split: redis_reply.split_asm list.split_asm)
  qed
  then show ?thesis using assms(2,3) by (auto simp: undisturbed_def)
qed

interpretation waiting: polling "handle_row E H stream rid print" "Command H (read_args stream)" now "from_response E rid fs"
  "\<lambda>s r. following E fs s \<and> numbered fs \<and> length fs < 2 ^ 64 \<and> genuine E H now stream rid fs P \<and> P r"
  "\<lambda>f s. terminal_type f \<and> (\<exists>gs. ws_frames s = gs @ [f])" for E H stream rid print now fs P
proof (unfold_locales, goal_cases)
  case (1 row s r res s' r')
  then show ?case using handle_row_follows [OF 1(1)] handle_row_undisturbed [OF 1(1)] by (auto simp: genuine_def)
qed (auto simp: genuine_def undisturbed_def)

lemma wait_in_order:
  assumes "Wait E H now stream rid print r = Some (res, s, r')" and "numbered fs" and "length fs < 2 ^ 64"
    and "genuine E H now stream rid fs P" and "P r"
  shows "\<exists>k a. k \<le> length fs \<and> accept_all E Assembler_new (take k fs) = (Ok, ws_frames s, a) \<and>
    (\<forall>frame. res = Inr frame \<longrightarrow> (\<exists>f gs. frame = Some f \<and> terminal_type f \<and> ws_frames s = gs @ [f]))"
proof -
  have "wait_loop E H now (fst (now r) + 900000) stream rid print fresh_wait (snd (now r)) = Some (res, s, r')"
    using assms(1) by (simp add: Wait_def case_prod_beta)
  note k = waiting.loop_keeps [OF this [unfolded wait_loop_def], of fs P]
  have i: "following E fs fresh_wait \<and> numbered fs \<and> length fs < 2 ^ 64 \<and> genuine E H now stream rid fs P \<and> P (snd (now r))"
    using following_fresh assms(2-5) by (auto simp: genuine_def undisturbed_def)
  have f: "following E fs s" using k(1) [OF i] by blast
  have "\<exists>f gs. frame = Some f \<and> terminal_type f \<and> ws_frames s = gs @ [f]" if "res = Inr frame" for frame
    using k(2) [OF i that] by blast
  with f show ?thesis by (auto simp: following_def)
qed

text \<open>
  C34. The client never shows a response with a gap, a repetition or frames out of order, whatever
  Redis loses, repeats or reorders: when \<open>Wait\<close> ends, the logical frames it has printed are those of the
  first frames of the response, put together in order; and it ends with success exactly on a terminal
  frame, the last one printed.
\<close>

theorem client_in_order:
  assumes "Wait E H now stream rid print r = Some (res, s, r')" and "numbered fs" and "length fs < 2 ^ 64"
    and "genuine E H now stream rid fs P" and "P r"
  shows "\<exists>k a. k \<le> length fs \<and> accept_all E Assembler_new (take k fs) = (Ok, ws_frames s, a) \<and>
    (\<forall>frame. res = Inr frame \<longrightarrow> (\<exists>f gs. frame = Some f \<and> terminal_type f \<and> ws_frames s = gs @ [f]))"
  using assms by (rule wait_in_order)

text \<open>A Redis that always returns one entry, with the result of the request.\<close>

definition sample_frame :: json where
  "sample_frame = JObject [(''id'', JString ''r''), (''seq'', JUint 0), (''type'', JString ''result'')]"

definition frame_env :: env where
  "frame_env = sample_env\<lparr>parse := (\<lambda>_. sample_frame)\<rparr>"

definition sample_redis :: "unit hiredis" where
  "sample_redis = \<lparr>h_live = (\<lambda>r. True), h_open = (\<lambda>r. r), h_timeout = (\<lambda>r. (True, r)), h_free = (\<lambda>r. r),
     h_send = (\<lambda>args r. (Some (if hd args = ''XRANGE''
        then RArray [RArray [RString ''1-0'', RArray [RString ''json'', RString ''x'']]] else RInteger 1), r))\<rparr>"

lemma sample_wait:
  "Wait frame_env sample_redis (\<lambda>r. (0, r)) ''s'' ''r'' True () =
     Some (Inr (Some sample_frame), \<lparr>ws_expected = 1, ws_assembler = Assembler_new\<lparr>as_data := [], as_total := 0\<rparr>, ws_frames = [sample_frame]\<rparr>, ())"
  by (simp add: Wait_def wait_loop_def poll_loop.simps Command_def read_args_def sample_redis_def handle_row_def take_frame_def frame_env_def
      reply_str_def sample_frame_def value_as_def contains_def jat_def IsUnsigned_def UINT64_MAX_def fresh_wait_def Accept_def
      Assembler_new_def terminal_type_def)

theorem client_in_order_witness:
  "\<exists>k a. k \<le> 1 \<and> accept_all frame_env Assembler_new (take k [sample_frame]) = (Ok, [sample_frame], a)"
proof -
  have n: "numbered [sample_frame]" by (simp add: numbered_def sample_frame_def jat_def)
  have g: "genuine frame_env sample_redis (\<lambda>r. (0, r)) ''s'' ''r'' [sample_frame] (\<lambda>r. True)"
    by (auto simp: genuine_def undisturbed_def from_response_def sample_redis_def read_args_def Command_def frame_env_def reply_str_def)
  show ?thesis using client_in_order [OF sample_wait n _ g] by auto
qed

subsection \<open>The client does not wait for ever\<close>

text \<open>
  Documented behaviour of the JSON library: \<open>dump\<close> throws only for text that is not UTF-8, which \<open>parse\<close>
  does not produce.
\<close>

definition dumps_parsed :: "env \<Rightarrow> bool" where
  "dumps_parsed E \<longleftrightarrow> (\<forall>t. dump E (parse E t) \<noteq> None \<and> (\<forall>seq. dump E (jset (parse E t) ''seq'' seq) \<noteq> None))"

text \<open>An entry whose frame, if it is one, has a textual identifier.\<close>

definition named_row :: "env \<Rightarrow> redis_reply \<Rightarrow> bool" where
  "named_row E row \<longleftrightarrow> (\<forall>nm fv. row = RArray [nm, fv] \<longrightarrow> contains (row_frame E fv) ''id'' \<longrightarrow> is_string (jat (row_frame E fv) ''id''))"

lemma frame_field_parsed: "frame_field E fs j = j \<or> (\<exists>t. frame_field E fs j = parse E t)"
proof (induction E fs j rule: frame_field.induct)
  case (1 E k v rest frame)
  then show ?case by (auto split: if_splits)
qed auto

lemma row_frame_parsed: "row_frame E fv = JNull \<or> (\<exists>t. row_frame E fv = parse E t)"
  using frame_field_parsed [of E _ JNull] by (cases fv) auto

lemma Accept_ready:
  "Accept E a frame = (st, Some l, a') \<Longrightarrow> l = frame \<or> (\<exists>t. l = jset (parse E t) ''seq'' (jat frame ''seq''))"
  by (auto simp: Accept_def finish_record_def Let_def split: if_split_asm option.split_asm)

lemma take_frame_returns:
  assumes "dumps_parsed E" and "j = JNull \<or> (\<exists>t. j = parse E t)" and "contains j ''id'' \<longrightarrow> is_string (jat j ''id'')"
  shows "take_frame E rid print j s \<noteq> None"
proof (cases "is_object j")
  case True
  have "value_as get_string j ''id'' [] \<noteq> None"
    using assms(3) True by (auto simp: value_as_def contains_def jat_def is_string_conv split: option.splits)
  moreover have "dump E l \<noteq> None" if "Accept E (ws_assembler s) j = (st, Some l, a)" for st l a
    using Accept_ready [OF that] assms(1,2) True by (auto simp: dumps_parsed_def)
  ultimately show ?thesis by (auto simp: take_frame_def Let_def split: option.splits prod.splits)
qed (simp add: take_frame_def)

lemma handle_row_prompt:
  assumes "dumps_parsed E" and "time_passes H now clock"
  shows "prompt clock (named_row E) (handle_row E H stream rid print)"
  unfolding prompt_def
proof (intro allI impI)
  fix row s r
  assume n: "named_row E row"
  have c: "clock r \<le> clock (snd (Command H args r))" for args using assms(2) by (simp add: time_passes_def)
  show "case handle_row E H stream rid print row s r of None \<Rightarrow> False | Some (res, s', r') \<Rightarrow> clock r \<le> clock r'"
  proof (cases "\<exists>nm fv. row = RArray [nm, fv]")
    case True
    then obtain nm fv where row: "row = RArray [nm, fv]" by blast
    have "take_frame E rid print (row_frame E fv) s \<noteq> None"
      using n by (intro take_frame_returns [OF assms(1) row_frame_parsed]) (simp add: named_row_def row)
    then obtain taken where "take_frame E rid print (row_frame E fv) s = Some taken" by blast
    then show ?thesis using c [of "[''XDEL'', stream, reply_str nm]"]
      by (cases taken) (auto simp: handle_row_def row case_prod_beta split: option.split redis_reply.split)
  next
    case False
    then have "\<exists>m. handle_row E H stream rid print row s r = Some (Inl m, s, r)"
      by (auto simp: handle_row_def split: redis_reply.split list.split)
    then show ?thesis by auto
  qed
qed

interpretation ending: polling "handle_row E H stream rid print" "Command H (read_args stream)" now "\<lambda>row. True"
  "\<lambda>s r. True" "\<lambda>f s. True" for E H stream rid print now
  by unfold_locales (auto simp: list_all_iff split: sum.split option.split)


text \<open>A Redis whose stream stays empty, with the time as its state.\<close>

definition idle_redis :: "nat hiredis" where
  "idle_redis = \<lparr>h_live = (\<lambda>r. True), h_open = (\<lambda>r. r), h_timeout = (\<lambda>r. (True, r)), h_free = (\<lambda>r. r),
     h_send = (\<lambda>args r. (Some (RArray []), r))\<rparr>"


end
