(* ===== verification/Example.thy ===== *)
theory Example
  imports Client
begin

text \<open>
  The example client (\<open>example/client.cc\<close>). It shares the loop of the reference client (theory \<open>Polling\<close>)
  and its state (theory \<open>Client\<close>), but leaves the entries of other requests in the stream and gives up on
  the first frame that is not the next one. \<open>Inl\<close> is \<open>Fail\<close>, with its message; \<open>None\<close> is an exception.
\<close>

subsection \<open>Receiving a response\<close>

definition kNotText :: string where
  "kNotText = ''Expected a Redis string''"

fun Text :: "redis_reply \<Rightarrow> string + string" where
  "Text (RString s) = Inr s"
| "Text _ = Inl kNotText"

definition Send :: "env \<Rightarrow> 'r hiredis \<Rightarrow> string \<Rightarrow> json \<Rightarrow> 'r \<Rightarrow> (string option \<times> 'r) option" where
  "Send E H stream request r = do {
     t \<leftarrow> dump E request;
     let (reply, r') = Command H [''XADD'', stream, ''*'', ''json'', t] r;
     Some (case reply of
             Some (RString _) \<Rightarrow> (None, r')
           | _ \<Rightarrow> (Some ''Cannot send request; check Redis credentials and ACLs'', r')) }"

fun text_fields :: "env \<Rightarrow> redis_reply list \<Rightarrow> json \<Rightarrow> string + json" where
  "text_fields E (k # v # rest) frame =
     (case Text k of
        Inl e \<Rightarrow> Inl e
      | Inr key \<Rightarrow>
          if key = ''json'' then (case Text v of Inl e \<Rightarrow> Inl e | Inr t \<Rightarrow> text_fields E rest (parse E t))
          else text_fields E rest frame)"
| "text_fields E _ frame = Inr frame"

text \<open>What follows the acknowledgment of a frame.\<close>

definition outcome_of :: "json option \<Rightarrow> string + json option" where
  "outcome_of got =
     (case got of
        None \<Rightarrow> Inr None
      | Some logical \<Rightarrow>
          if json_eq (jat logical ''type'') (JString ''error'') then Inl ''API returned an error; see the JSON frame above''
          else if json_eq (jat logical ''type'') (JString ''result'') \<or> json_eq (jat logical ''type'') (JString ''complete'')
          then Inr (Some logical)
          else Inr None)"

definition acknowledge :: "'r hiredis \<Rightarrow> string \<Rightarrow> redis_reply \<Rightarrow> 'r \<Rightarrow> string option \<times> 'r" where
  "acknowledge H stream nm r =
     (case Text nm of
        Inl e \<Rightarrow> (Some e, r)
      | Inr name \<Rightarrow>
          (let (ack, r') = Command H [''XDEL'', stream, name] r in
           (case ack of Some (RInteger _) \<Rightarrow> None | _ \<Rightarrow> Some ''Acknowledgment failed'', r')))"

definition receive_frame ::
  "env \<Rightarrow> 'r hiredis \<Rightarrow> string \<Rightarrow> string \<Rightarrow> redis_reply \<Rightarrow> json \<Rightarrow> wait_state \<Rightarrow> 'r \<Rightarrow> 'r waited" where
  "receive_frame E H stream rid nm frame s r =
     (if \<not> is_object frame then Some (Inr None, s, r)
      else do {
        i \<leftarrow> value_as get_string frame ''id'' [];
        if i \<noteq> rid then Some (Inr None, s, r)
        else if \<not> contains frame ''seq'' \<or> \<not> IsUnsigned (jat frame ''seq'') UINT64_MAX \<or>
                juint (jat frame ''seq'') \<noteq> ws_expected s then
          Some (Inl ''Response sequence gap; retain the request ID for explicit replay'', s, r)
        else
          (let (st, got, a) = Accept E (ws_assembler s) frame;
               s1 = s\<lparr>ws_expected := Suc (ws_expected s) mod 2 ^ 64, ws_assembler := a,
                      ws_frames := ws_frames s @ (case got of None \<Rightarrow> [] | Some l \<Rightarrow> [l])\<rparr> in
           if \<not> st_ok st then Some (Inl (st_message st), s, r)
           else if (case got of None \<Rightarrow> False | Some l \<Rightarrow> dump E l = None) then None
           else
             (let (failure, r') = acknowledge H stream nm r in
              Some (case failure of Some e \<Rightarrow> Inl e | None \<Rightarrow> outcome_of got, s1, r'))) })"

definition receive_row :: "env \<Rightarrow> 'r hiredis \<Rightarrow> string \<Rightarrow> string \<Rightarrow> redis_reply \<Rightarrow> wait_state \<Rightarrow> 'r \<Rightarrow> 'r waited" where
  "receive_row E H stream rid row s r =
     (case row of
        RArray [nm, RArray fs] \<Rightarrow>
          (case text_fields E fs JNull of
             Inl e \<Rightarrow> Some (Inl e, s, r)
           | Inr frame \<Rightarrow> receive_frame E H stream rid nm frame s r)
      | _ \<Rightarrow> Some (Inl ''Malformed stream entry'', s, r))"

definition Example_Receive :: "env \<Rightarrow> 'r hiredis \<Rightarrow> ('r \<Rightarrow> nat \<times> 'r) \<Rightarrow> string \<Rightarrow> string \<Rightarrow> 'r \<Rightarrow> 'r waited" where
  "Example_Receive E H now stream rid r =
     (let (t, r1) = now r in
      poll_loop (receive_row E H stream rid) (Command H (read_args stream)) now (t + 60000)
        ''Response timeout; do not blindly retry mutations with a new ID'' ''Cannot read response stream'' fresh_wait r1)"

subsection \<open>The calls\<close>

definition request_of :: "string \<Rightarrow> string \<Rightarrow> json \<Rightarrow> json" where
  "request_of rid m params = jobj [(''id'', JString rid), (''method'', JString m), (''params'', params)]"

text \<open>One request and its response: the terminal frame, and what was printed.\<close>

definition call ::
  "env \<Rightarrow> 'r hiredis \<Rightarrow> ('r \<Rightarrow> nat \<times> 'r) \<Rightarrow> string \<Rightarrow> string \<Rightarrow> string \<Rightarrow> string \<Rightarrow> json \<Rightarrow> 'r \<Rightarrow> ((string + json option) \<times> json list \<times> 'r) option" where
  "call E H now requests responses rid m params r = do {
     (failure, r1) \<leftarrow> Send E H requests (request_of rid m params) r;
     (case failure of
        Some e \<Rightarrow> Some (Inl e, [], r1)
      | None \<Rightarrow> do {
          (res, s, r2) \<leftarrow> Example_Receive E H now responses rid r1;
          Some (res, ws_frames s, r2) }) }"

definition example_calls :: "(string \<times> json) list" where
  "example_calls = [(''api.describe'', JObject []), (''interface.list'', JObject []),
     (''interface.set_state'', jobj [(''interface'', JString ''loop1''), (''state'', JString ''up'')]), (''interface.list'', JObject [])]"

text \<open>The identifiers are those that \<open>RandomId\<close> returns.\<close>

fun call_all ::
  "env \<Rightarrow> 'r hiredis \<Rightarrow> ('r \<Rightarrow> nat \<times> 'r) \<Rightarrow> string \<Rightarrow> string \<Rightarrow> (nat \<Rightarrow> string) \<Rightarrow> nat \<Rightarrow> (string \<times> json) list \<Rightarrow> json list \<Rightarrow> 'r \<Rightarrow>
   ((string + nat) \<times> json list \<times> 'r) option" where
  "call_all E H now requests responses fresh n [] out r = Some (Inr 0, out, r)"
| "call_all E H now requests responses fresh n ((m, params) # rest) out r = do {
     (res, shown, r1) \<leftarrow> call E H now requests responses (fresh n) m params r;
     (case res of
        Inl e \<Rightarrow> Some (Inl e, out @ shown, r1)
      | Inr _ \<Rightarrow> call_all E H now requests responses fresh (Suc n) rest (out @ shown) r1) }"

definition ExampleMain ::
  "env \<Rightarrow> 'r hiredis \<Rightarrow> credentials \<Rightarrow> ('r \<Rightarrow> nat \<times> 'r) \<Rightarrow> string option \<Rightarrow> (nat \<Rightarrow> string) \<Rightarrow> 'r \<Rightarrow>
   ((string + nat) \<times> json list \<times> 'r) option" where
  "ExampleMain E H cred now token fresh r =
     (case token of
        None \<Rightarrow> Some (Inl ''Source example/client.env first'', [], r)
      | Some token \<Rightarrow>
          (let (connected, r1) = Connect H cred r in
           if \<not> connected then Some (Inl ''Cannot authenticate to the example Redis server'', [], r1)
           else do {
             (res, shown, r2) \<leftarrow> call E H now ''vpp:register'' ''vpp:bootstrap:demo'' (fresh 0) ''session.register''
               (jobj [(''client'', JString ''demo''), (''token'', JString token), (''protocol'', JInt 1)]) r1;
             (case res of
                Inl e \<Rightarrow> Some (Inl e, shown, r2)
              | Inr frame \<Rightarrow> do {
                  let session = jat (the frame) ''result'';
                  requests \<leftarrow> get_string (jat session ''requests'');
                  responses \<leftarrow> get_string (jat session ''responses'');
                  call_all E H now requests responses fresh 1 example_calls shown r2 }) }))"


subsection \<open>Own frames only\<close>

text \<open>While \<open>P\<close> holds, entries that hold a frame of the request are frames of its response, under the names in \<open>own\<close>.\<close>

definition own_row :: "env \<Rightarrow> string \<Rightarrow> json list \<Rightarrow> string set \<Rightarrow> redis_reply \<Rightarrow> bool" where
  "own_row E rid fs own row \<longleftrightarrow> (\<forall>nm fv frame. row = RArray [nm, RArray fv] \<longrightarrow> text_fields E fv JNull = Inr frame \<longrightarrow>
     is_object frame \<longrightarrow> value_as get_string frame ''id'' [] = Some rid \<longrightarrow>
     frame \<in> set fs \<and> (\<forall>name. nm = RString name \<longrightarrow> name \<in> own))"

definition own_rows :: "env \<Rightarrow> 'r hiredis \<Rightarrow> string \<Rightarrow> string \<Rightarrow> json list \<Rightarrow> string set \<Rightarrow> ('r \<Rightarrow> bool) \<Rightarrow> bool" where
  "own_rows E H stream rid fs own P \<longleftrightarrow>
     (\<forall>r rows. P r \<longrightarrow> fst (Command H (read_args stream) r) = Some (RArray rows) \<longrightarrow> list_all (own_row E rid fs own) rows)"

lemma acknowledge_undisturbed:
  assumes "acknowledge H stream nm r = (failure, r')" and "undisturbed H now stream own P" and "P r"
    and "\<And>name. nm = RString name \<Longrightarrow> name \<in> own"
  shows "P r'"
  using assms by (cases nm) (auto simp: acknowledge_def undisturbed_def case_prod_beta)

lemma receive_frame_keeps:
  assumes "receive_frame E H stream rid nm frame s r = Some (res, s', r')" and "following E fs s" and "numbered fs" and "length fs < 2 ^ 64"
    and "undisturbed H now stream own P" and "P r"
    and "is_object frame \<Longrightarrow> value_as get_string frame ''id'' [] = Some rid \<Longrightarrow> frame \<in> set fs \<and> (\<forall>name. nm = RString name \<longrightarrow> name \<in> own)"
  shows "following E fs s' \<and> P r' \<and> (case res of Inr (Some f) \<Rightarrow> terminal_type f \<and> (\<exists>gs. ws_frames s' = gs @ [f]) | _ \<Rightarrow> True)"
proof (cases "s' = s \<and> r' = r \<and> (res = Inr None \<or> (\<exists>m. res = Inl m))")
  case True
  then show ?thesis using assms(2,6) by auto
next
  case False
  obtain st got a where a: "Accept E (ws_assembler s) frame = (st, got, a)" by (cases "Accept E (ws_assembler s) frame")
  obtain failure r1 where k: "acknowledge H stream nm r = (failure, r1)" by force
  have f: "is_object frame" "value_as get_string frame ''id'' [] = Some rid" "juint (jat frame ''seq'') = ws_expected s" "st_ok st"
      "r' = r1" "res = (case failure of Some e \<Rightarrow> Inl e | None \<Rightarrow> outcome_of got)"
      "s' = s\<lparr>ws_expected := Suc (ws_expected s) mod 2 ^ 64, ws_assembler := a,
        ws_frames := ws_frames s @ (case got of None \<Rightarrow> [] | Some l \<Rightarrow> [l])\<rparr>"
    using assms(1) False a k by (auto simp: receive_frame_def Option.bind_eq_Some_conv Let_def split: if_split_asm)
  note own = assms(7) [OF f(1,2)]
  have "P r'" using acknowledge_undisturbed [OF k assms(5,6)] own f(5) by blast
  moreover have "following E fs s'"
    unfolding f(7) using own by (intro following_accept [OF assms(2-4) _ f(3) a f(4)]) blast
  moreover have "case res of Inr (Some l) \<Rightarrow> terminal_type l \<and> got = Some l | _ \<Rightarrow> True"
    unfolding f(6) by (auto simp: outcome_of_def terminal_type_def split: option.split)
  ultimately show ?thesis using f(7) by (auto split: sum.split option.split)
qed

lemma receive_row_keeps:
  assumes "receive_row E H stream rid row s r = Some (res, s', r')" and "own_row E rid fs own row"
    and "following E fs s \<and> numbered fs \<and> length fs < 2 ^ 64 \<and> own_rows E H stream rid fs own P \<and> undisturbed H now stream own P \<and> P r"
  shows "following E fs s' \<and> P r' \<and> (case res of Inr (Some f) \<Rightarrow> terminal_type f \<and> (\<exists>gs. ws_frames s' = gs @ [f]) | _ \<Rightarrow> True)"
proof (cases "\<exists>nm fv frame. row = RArray [nm, RArray fv] \<and> text_fields E fv JNull = Inr frame")
  case True
  then obtain nm fv frame where row: "row = RArray [nm, RArray fv]" "text_fields E fv JNull = Inr frame" by blast
  have "receive_frame E H stream rid nm frame s r = Some (res, s', r')" using assms(1) by (simp add: receive_row_def row)
  moreover have "frame \<in> set fs \<and> (\<forall>name. nm = RString name \<longrightarrow> name \<in> own)"
    if "is_object frame" "value_as get_string frame ''id'' [] = Some rid"
    using assms(2) that row by (simp add: own_row_def)
  ultimately show ?thesis using assms(3) by (elim conjE) (rule receive_frame_keeps)
next
  case False
  then have "s' = s \<and> r' = r \<and> (\<exists>m. res = Inl m)"
    using assms(1) by (auto simp: receive_row_def split: redis_reply.split_asm list.split_asm sum.split_asm)
  then show ?thesis using assms(3) by auto
qed

interpretation receiving: polling "receive_row E H stream rid" "Command H (read_args stream)" now "own_row E rid fs own"
  "\<lambda>s r. following E fs s \<and> numbered fs \<and> length fs < 2 ^ 64 \<and> own_rows E H stream rid fs own P \<and> undisturbed H now stream own P \<and> P r"
  "\<lambda>f s. terminal_type f \<and> (\<exists>gs. ws_frames s = gs @ [f])" for E H stream rid now fs own P
proof (unfold_locales, goal_cases)
  case (1 row s r res s' r')
  then show ?case using receive_row_keeps [OF 1(1,2,3)] by blast
qed (auto simp: undisturbed_def own_rows_def)

text \<open>
  C38. The example client takes nothing that is not its own. Whatever Redis loses, repeats or reorders,
  \<open>Receive\<close> prints the logical frames of the first frames of its response, in order, and ends with success
  only on a terminal frame, the last one printed; and any property of the server that holds before
  and that neither reading the stream nor deleting an entry of this response can change, such as
  that the entries of other requests are there, holds after it.
\<close>

theorem example_client_careful:
  assumes "Example_Receive E H now stream rid r = Some (res, s, r')" and "numbered fs" and "length fs < 2 ^ 64"
    and "own_rows E H stream rid fs own P" and "undisturbed H now stream own P" and "P r"
  shows "P r' \<and> (\<exists>k a. k \<le> length fs \<and> accept_all E Assembler_new (take k fs) = (Ok, ws_frames s, a)) \<and>
    (\<forall>frame. res = Inr frame \<longrightarrow> (\<exists>f gs. frame = Some f \<and> terminal_type f \<and> ws_frames s = gs @ [f]))"
proof -
  have "P (snd (now r))" using assms(5,6) by (simp add: undisturbed_def)
  then have i: "following E fs fresh_wait \<and> numbered fs \<and> length fs < 2 ^ 64 \<and> own_rows E H stream rid fs own P \<and>
      undisturbed H now stream own P \<and> P (snd (now r))"
    using following_fresh assms(2-5) by blast
  note k = receiving.loop_keeps [OF assms(1) [unfolded Example_Receive_def case_prod_beta Let_def] i]
  from k(1) have "P r' \<and> following E fs s" by blast
  then show ?thesis using k(2) by (auto simp: following_def)
qed

text \<open>
  A stream of entries with their names, on which \<open>XDEL\<close> deletes. It starts with an entry for someone else,
  and frames of this request are only ever in the entry \<open>2-0\<close>.
\<close>

definition stream_redis :: "(string \<times> string) list hiredis" where
  "stream_redis = \<lparr>h_live = (\<lambda>r. True), h_open = (\<lambda>r. r), h_timeout = (\<lambda>r. (True, r)), h_free = (\<lambda>r. r),
     h_send = (\<lambda>args r. if hd args = ''XRANGE''
        then (Some (RArray (map (\<lambda>(n, t). RArray [RString n, RArray [RString ''json'', RString t]]) r)), r)
        else (Some (RInteger 1), filter (\<lambda>(n, t). n \<noteq> args ! 2) r))\<rparr>"

definition two_frames :: env where
  "two_frames = sample_env\<lparr>parse := (\<lambda>t. if t = ''r'' then sample_frame else JNull)\<rparr>"

definition other_kept :: "(string \<times> string) list \<Rightarrow> bool" where
  "other_kept r \<longleftrightarrow> (''1-0'', ''other'') \<in> set r \<and> list_all (\<lambda>(n, t). t = ''r'' \<longrightarrow> n = ''2-0'') r"

lemma sample_receive:
  "\<exists>s r'. Example_Receive two_frames stream_redis (\<lambda>r. (0, r)) ''s'' ''r'' [(''1-0'', ''other''), (''2-0'', ''r'')] =
     Some (Inr (Some sample_frame), s, r')"
  by (simp add: Example_Receive_def poll_loop.simps Command_def read_args_def stream_redis_def receive_row_def receive_frame_def two_frames_def
      sample_frame_def value_as_def contains_def jat_def IsUnsigned_def UINT64_MAX_def fresh_wait_def Accept_def acknowledge_def
      outcome_of_def Assembler_new_def)

theorem example_client_careful_witness:
  "\<exists>s r'. Example_Receive two_frames stream_redis (\<lambda>r. (0, r)) ''s'' ''r'' [(''1-0'', ''other''), (''2-0'', ''r'')] =
     Some (Inr (Some sample_frame), s, r') \<and> other_kept r' \<and> (\<exists>gs. ws_frames s = gs @ [sample_frame])"
proof -
  obtain s r' where r: "Example_Receive two_frames stream_redis (\<lambda>r. (0, r)) ''s'' ''r'' [(''1-0'', ''other''), (''2-0'', ''r'')] =
     Some (Inr (Some sample_frame), s, r')" using sample_receive by blast
  have n: "numbered [sample_frame]" "length [sample_frame] < 2 ^ 64" by (simp_all add: numbered_def sample_frame_def jat_def)
  have o: "own_rows two_frames stream_redis ''s'' ''r'' [sample_frame] {''2-0''} other_kept"
    by (auto simp: own_rows_def own_row_def stream_redis_def Command_def read_args_def other_kept_def list_all_iff two_frames_def
        split: if_split_asm)
  have u: "undisturbed stream_redis (\<lambda>r. (0, r)) ''s'' {''2-0''} other_kept"
    by (auto simp: undisturbed_def stream_redis_def Command_def read_args_def other_kept_def list_all_iff)
  have k: "other_kept [(''1-0'', ''other''), (''2-0'', ''r'')]" by (simp add: other_kept_def)
  from example_client_careful [where P = other_kept, OF r n o u k] r show ?thesis by auto
qed

end
