(* ===== verification/Spec2Isabelle.thy ===== *)
theory Spec2Isabelle
  imports Uploads_Correct Server_Delivery Recovery Worker Schema_Inverse Vapi_Total Emit Removal Example
begin

text \<open>
  A verification of the VPP-JSON Redis gateway.

  \<^bold>\<open>The program.\<close> The gateway (\<open>src/main.cc\<close>) lets clients call the API of VPP with JSON messages over Redis
  Streams. A client registers with a secret and gets a session with two streams. The server reads
  requests from one, journals each in SQLite before it removes the entry (\<open>src/store.cc\<close>), hands them one
  at a time to a worker thread, and publishes the frames of the response to the other. The worker
  writes a response to a spool file (class \<open>Spool\<close> of \<open>src/common.cc\<close>) through a backend: a mock one
  (\<open>src/backend.cc\<close>) or the VPP client library (\<open>src/vapi_backend.cc\<close>), which converts between JSON and
  native messages by a catalog of types (\<open>src/schema.cc\<close>). The catalog is compiled from VPP's API
  descriptions by a generator (\<open>tools/schema_generator.cc\<close>). Parameters that do not fit a message are
  uploaded in chunks (\<open>src/transfer.cc\<close>). Two clients are included (\<open>tools/client.cc\<close>, \<open>example/client.cc\<close>);
  both put large responses together with class \<open>ResponseAssembler\<close>.

  \<^bold>\<open>The theories\<close>, from the bottom up, with the code they model:

  \<^item> \<open>Prelude\<close> (shared lemmas on lists, maps and options), \<open>Json\<close> (the values and the accesses to members that
    the code uses), \<open>Sample\<close> (concrete instances of the parameters, for the witnesses).
  \<^item> \<open>Common\<close>: limits, identifiers, secrets, request envelopes of \<open>common.cc\<close>. \<open>Files\<close>, \<open>Directories\<close>
    and \<open>Removal\<close>: its file primitives, over a disk on which any system call may fail, as given by a fault function.
  \<^item> \<open>Spool\<close> and \<open>Assembler\<close>: the two ends of a response. \<open>Backend\<close>: the interface, the mock backend and
    \<open>RunBackend\<close>.
  \<^item> \<open>Uploads\<close> (the operations of \<open>transfer.cc\<close>), \<open>Uploads_Props\<close> and \<open>Uploads_Correct\<close> (their properties).
  \<^item> \<open>Journal\<close> (the two tables, one function per SQL statement), \<open>Redis\<close> (\<open>redis_transport.cc\<close> and the stream
    helpers), \<open>Server\<close> (every member function of \<open>ApiServer\<close> and one turn of \<open>Run\<close>), then \<open>Server_Journal\<close>,
    \<open>Server_Lifecycle\<close>, \<open>Server_Delivery\<close> and \<open>Recovery\<close> for what they do. An operation of the server is a function
    from the world (journal, disk, Redis, worker, clock, random source) to a new world and a value, or
    \<open>None\<close> when the process ends there. \<open>Worker\<close>: the two threads, step by step, with the task slot, the stop
    flag, the signal and the join; turns, polls and tasks are single steps.
  \<^item> \<open>Start\<close>: \<open>ParseOptions\<close> and \<open>RunMain\<close> up to the main loop.
  \<^item> \<open>Schema\<close> (type layouts and both directions of \<open>Convert\<close>), \<open>Catalog\<close> (\<open>AddModule\<close>, \<open>Load\<close>, \<open>Describe\<close>), then
    \<open>Schema_Stream\<close>, \<open>Schema_Size\<close> and \<open>Schema_Total\<close>, and \<open>Schema_Float\<close>, \<open>Schema_Values\<close> and \<open>Schema_Inverse\<close> for
    the round trip, for their properties. \<open>Generator\<close>: what the generator
    supports and the catalog it embeds. \<open>Emit\<close>: the C++ text it prints.
  \<^item> \<open>Vapi\<close> (\<open>vapi_backend.cc\<close> and the callbacks the generator emits), then \<open>Vapi_Props\<close>, \<open>Vapi_Responds\<close> and
    \<open>Vapi_Total\<close>.
  \<^item> \<open>Polling\<close> (the waiting loop both clients share), \<open>Client\<close> and \<open>Example\<close>: the two clients.

  \<^bold>\<open>What is shown.\<close> Requests: the nesting guard and the envelope check are exact (C1, C2). Storage: the
  retry loop refines one write, replacement is atomic, directories are made and trees removed (C3, C4, C9, C31). Responses: a
  finished spool is a well-formed file within its quota (C5, C6), the assembler is bounded (C7) and
  inverts the fragmentation (a theorem of \<open>Assembler\<close>, the core of C39). Uploads: safe under any failing system call, within the quotas, each
  chunk applied exactly once, complete when nothing fails (C10 to C14). Server: the journal stays sound,
  jobs move one way and are executed at most once over any interleaving of turns, kills and recoveries
  (C17 to C19), frames are delivered in order (C20), registration needs the secret (C21), recovery answers
  exactly the interrupted jobs (C40). Threads: their interleavings refine these runs, and a stop request
  ends the process with no job left running (C16, C28). Start: exactly the valid options are accepted and a state directory
  belongs to one gateway (C32, C33). Codec: messages are bounded, \<open>FixedSize\<close> is exact, unions only pad,
  nothing throws (C22 to C24, C29), and what is encoded is decoded again, for types without unions, flags and
  address texts (C8). Catalog and generator: names stay plain identifiers, nothing is
  redefined, support is decided exactly and marked, and the printed program binds exactly the supported
  methods (C25, C35, C36, C15). Backends: on VPP, state changes are unambiguous and at most once, every
  request ends in a finished response and always returns (C26, C27, C30); the mock list and state change
  are theorems of \<open>Backend\<close>. Clients: frames are shown in order, the client
  does not wait for ever, and the example client takes only its own entries (C34, C37, C38). Below, the
  composition: what a job spools is what the user sees (C39).

  \<^bold>\<open>Interfaces.\<close> Locales state what one part relies on in another: \<open>backend_contract\<close> (a backend and \<open>RunBackend\<close>),
  \<open>journal_statements\<close> and its extension \<open>journal_relation\<close> (SQL statements and the handlers of the server), \<open>catalog_relation\<close> (the loops of
  \<open>AddModule\<close>), \<open>streaming\<close>, \<open>sized\<close>, \<open>returning\<close> and \<open>inverse\<close> (a level of the recursive codec and the next one), \<open>callback\<close>
  (VAPI callbacks and the dispatch loop), \<open>polling\<close> (a client's handler and its loop). Each is
  interpreted on the definitions of the program.

  \<^bold>\<open>Conventions and bounds.\<close> An exception of the JSON library is \<open>None\<close>. Recursion that the code limits by a depth
  of 32 is counted down from 33 levels; the fuel of \<open>RemoveTree\<close> is the depth of the tree; a stream of pages ends after the 1024 pages of the code. The loops
  that wait for VPP or Redis are partial functions, where not returning is \<open>None\<close>, and are shown to
  return on a clock that advances. 64-bit counters wrap around where the code's do; products that may
  overflow are \<open>None\<close>. Integers of native messages are little-endian words.

  \<^bold>\<open>Parameters.\<close> Code outside the repository is an argument with named hypotheses for its documented
  behaviour: JSON printing and parsing, SHA-256, base64 and \<open>CRYPTO_memcmp\<close> (record \<open>env\<close>), the socket
  address functions (\<open>inet\<close>), hiredis with the server behind it (\<open>hiredis\<close>), the VPP client library (\<open>vapi\<close>), the
  clock and the random source.

  \<^bold>\<open>Not modelled.\<close> SQLite's execution of the statements: their meaning is written out, and each may fail.
  The meaning of the C++ text that the generator prints: what its callbacks do is written out in \<open>Vapi\<close>.
  Steps of the two threads that are finer than a turn, a poll or a task. The sleeping times of loops. The layout of objects in
  memory: moves, destructors and the deleter of Redis replies have no effect on the values here.
\<close>

subsection \<open>From a job to the user\<close>

lemma accepted_prefix:
  assumes "accept_all E a (take k fs) = (Ok, gs, b)" and "accept_all E a fs = (Ok, rs, c)"
  shows "\<exists>hs. rs = gs @ hs"
  using accept_all_append [OF assms(1), of "drop k fs"] assms(2) by (auto split: prod.split_asm)

text \<open>
  C39. End to end, from the items of a job to the terminal of the user: let a job's items be spooled and
  the response finished, and let the client read frames of that response from Redis, with losses,
  repetitions or in any order. When \<open>Wait\<close> returns, the client has printed one frame per item, in
  order and with exactly that item, and then the \<open>complete\<close> frame with their number.
\<close>

theorem items_reach_client:
  assumes "Spool_new d p rid limit = (sp0, d0)" and "add_all E sp0 d0 items = (sp1, d1)"
    and "Spool_Finish E sp1 d1 Ok = (r, sp2, d2)" and "st_ok r" and "st_ok (sp_status sp1)"
    and "evp_base64 E" and "list_all (\<lambda>x. deliverable E rid (chunk_frame rid x)) items"
    and "length (stream_frames E rid [] items) + kRecordBytes \<le> UINT64_MAX"
    and "Wait E H now stream rid print w = Some (Inr frame, s, w')"
    and "genuine E H now stream rid (response_frames E rid items) P" and "P w"
  shows "content d2 p = Some (frames_text E (response_frames E rid items)) \<and>
    (\<exists>rs fin. ws_frames s = rs @ [fin] \<and> frame = Some fin \<and> map (\<lambda>r. jat r ''items'') rs = map (\<lambda>x. JArray [x]) items \<and>
       jat fin ''type'' = JString ''complete'' \<and> jat fin ''items'' = JUint (length items))"
proof -
  let ?fs = "response_frames E rid items"
  have "length ?fs < 2 ^ 64" using assms(8) by (simp add: response_frames_def Let_def UINT64_MAX_def kRecordBytes_def)
  from wait_in_order [OF assms(9) response_spooled(2) [OF assms(1-5)] this assms(10,11)]
  obtain k a f gs where w: "accept_all E Assembler_new (take k ?fs) = (Ok, gs @ [f], a)" "ws_frames s = gs @ [f]" "frame = Some f"
    "terminal_type f" by auto
  obtain rs fin b where rs: "accept_all E Assembler_new ?fs = (Ok, rs @ [fin], b)" "map (\<lambda>r. jat r ''items'') rs = map (\<lambda>x. JArray [x]) items"
    "list_all (\<lambda>r. jat r ''type'' = JString ''chunk'') rs" "jat fin ''type'' = JString ''complete''" "jat fin ''items'' = JUint (length items)"
    using response_accepted [OF assms(6-8)] by blast
  obtain hs where hs: "rs @ [fin] = (gs @ [f]) @ hs" using accepted_prefix [OF w(1) rs(1)] by blast
  have "hs = []"
  proof (rule ccontr)
    assume "hs \<noteq> []"
    then have "rs = gs @ f # butlast hs" using hs by (cases hs rule: rev_cases) auto
    then show False using rs(3) w(4) by (auto simp: terminal_type_def)
  qed
  then have "rs = gs" "fin = f" using hs by auto
  with w rs response_spooled(1) [OF assms(1-5)] show ?thesis by blast
qed

text \<open>A Redis that returns the two frames of a response with one item out of order and twice.\<close>

definition wire_env :: env where
  "wire_env = sample_env\<lparr>parse := (\<lambda>t. if t = ''0'' then jset (chunk_frame ''r'' (JUint 7)) ''seq'' (JUint 0)
     else if t = ''1'' then terminal_frame ''r'' 1 1 Ok else chunk_frame ''r'' (JUint 7))\<rparr>"

definition wire_redis :: "unit hiredis" where
  "wire_redis = sample_redis\<lparr>h_send := (\<lambda>args r. (Some (if hd args = ''XRANGE''
     then RArray (map (\<lambda>t. RArray [RString ''1-0'', RArray [RString ''json'', RString t]]) [''1'', ''0'', ''0'', ''1''])
     else RInteger 1), r))\<rparr>"

lemma wire_frames:
  "response_frames wire_env ''r'' [JUint 7] = [jset (chunk_frame ''r'' (JUint 7)) ''seq'' (JUint 0), terminal_frame ''r'' 1 1 Ok]"
  by (simp add: response_frames_def Let_def record_frames_def wire_env_def chunk_frame_def jobj_def to_string.simps limits)

lemma wire_wait:
  "\<exists>s. Wait wire_env wire_redis (\<lambda>r. (0, r)) ''s'' ''r'' True () = Some (Inr (Some (terminal_frame ''r'' 1 1 Ok)), s, ())"
  by (simp add: Wait_def wait_loop_def poll_loop.simps Command_def read_args_def wire_redis_def sample_redis_def handle_row_def take_frame_def
      wire_env_def reply_str_def value_as_def contains_def jat_def IsUnsigned_def UINT64_MAX_def fresh_wait_def Accept_def
      Assembler_new_def terminal_type_def chunk_frame_def terminal_frame_def jobj_def)

theorem items_reach_client_witness:
  "\<exists>s. Wait wire_env wire_redis (\<lambda>r. (0, r)) ''s'' ''r'' True () = Some (Inr (Some (terminal_frame ''r'' 1 1 Ok)), s, ()) \<and>
     (\<exists>rs fin. ws_frames s = rs @ [fin] \<and> map (\<lambda>r. jat r ''items'') rs = [JArray [JUint 7]] \<and> jat fin ''items'' = JUint 1)"
proof -
  obtain sp0 d0 where 0: "Spool_new clean_disk ''p'' ''r'' 4096 = (sp0, d0)" by force
  obtain sp1 d1 where 1: "add_all wire_env sp0 d0 [JUint 7] = (sp1, d1)" by force
  obtain r sp2 d2 where 2: "Spool_Finish wire_env sp1 d1 Ok = (r, sp2, d2)" by (metis prod_cases3)
  have "(let (sp0, d0) = Spool_new clean_disk ''p'' ''r'' 4096;
       (sp1, d1) = add_all wire_env sp0 d0 [JUint 7];
       (r, sp2, d2) = Spool_Finish wire_env sp1 d1 Ok in st_ok r \<and> st_ok (sp_status sp1))"
    by (simp add: spool_eval wire_env_def)
  then have r: "st_ok r" "st_ok (sp_status sp1)" using 0 1 2 by auto
  have E: "evp_base64 wire_env" by (rule evp_base64_sample) (simp_all add: wire_env_def)
  have del: "list_all (\<lambda>x. deliverable wire_env ''r'' (chunk_frame ''r'' x)) [JUint 7]"
    by (simp add: deliverable_def wire_env_def chunk_frame_def jobj_def contains_def jat_def
        to_string.simps CheckNesting_def kRecordBytes_def)
  have len: "length (stream_frames wire_env ''r'' [] [JUint 7]) + kRecordBytes \<le> UINT64_MAX"
    by (simp add: record_frames_def wire_env_def chunk_frame_def jobj_def to_string.simps limits UINT64_MAX_def)
  have g: "genuine wire_env wire_redis (\<lambda>r. (0, r)) ''s'' ''r'' (response_frames wire_env ''r'' [JUint 7]) (\<lambda>r. True)"
    unfolding wire_frames
    by (auto simp: genuine_def undisturbed_def from_response_def wire_redis_def read_args_def Command_def sample_redis_def wire_env_def reply_str_def)
  obtain s where s: "Wait wire_env wire_redis (\<lambda>r. (0, r)) ''s'' ''r'' True () = Some (Inr (Some (terminal_frame ''r'' 1 1 Ok)), s, ())"
    using wire_wait by blast
  from items_reach_client [where P = "\<lambda>r. True", OF 0 1 2 r E del len s g] s show ?thesis by auto
qed

end
